(* ===== verification/Prelude.thy ===== *)
theory Prelude
  imports Main "HOL-Library.Word" "HOL-Library.Monad_Syntax" "HOL-Library.Signed_Division"
begin

text \<open>
  The vocabulary the components share: bytes and 32-bit words of the target (an i386 ELF
  image, so \<^verbatim>\<open>int\<close>, \<^verbatim>\<open>unsigned int\<close> and \<^verbatim>\<open>unsigned long\<close> have 32 bits and bytes are
  little endian), C arrays as lists, C strings as byte lists up to the first NUL.

  A result of type \<open>'a option\<close> is the result of code that may leave its memory: \<open>None\<close>
  stands for an access outside an array, through a null or a dangling pointer, or for a
  loop that does not end. Return codes of the program are ordinary integers inside
  \<open>Some\<close>, so an error path of the source is always a \<open>Some\<close>.
\<close>

unbundle bit_operations_syntax

subsection \<open>Types of the model\<close>

type_synonym byte = "8 word"
type_synonym bytes = "8 word list"
type_synonym u32 = "32 word"

named_theorems cmem \<comment> \<open>array accesses of the C memory model, as conditional equations\<close>
named_theorems layout \<comment> \<open>lengths and components of byte layouts\<close>

subsection \<open>Arrays\<close>

definition load :: "'a list \<Rightarrow> nat \<Rightarrow> 'a option" where
  "load a i = (if i < length a then Some (a ! i) else None)"

definition store :: "'a list \<Rightarrow> nat \<Rightarrow> 'a \<Rightarrow> 'a list option" where
  "store a i v = (if i < length a then Some (a[i := v]) else None)"

text \<open>\<open>blit a d s\<close> is the array \<open>a\<close> with the list \<open>s\<close> written from index \<open>d\<close> on.\<close>

definition blit :: "'a list \<Rightarrow> nat \<Rightarrow> 'a list \<Rightarrow> 'a list" where
  "blit a d s = take d a @ s @ drop (d + length s) a"

text \<open>\<^verbatim>\<open>memcpy(dst + d, src + s, n)\<close> and \<^verbatim>\<open>memset(dst + d, v, n)\<close> on the array \<open>dst\<close>.\<close>

definition memcpy :: "'a list \<Rightarrow> nat \<Rightarrow> 'a list \<Rightarrow> nat \<Rightarrow> nat \<Rightarrow> 'a list option" where
  "memcpy dst d src s n =
     (if d + n \<le> length dst \<and> s + n \<le> length src
      then Some (blit dst d (take n (drop s src))) else None)"

definition memset :: "'a list \<Rightarrow> nat \<Rightarrow> 'a \<Rightarrow> nat \<Rightarrow> 'a list option" where
  "memset dst d v n =
     (if d + n \<le> length dst then Some (blit dst d (replicate n v)) else None)"

lemma load_Some [cmem]: "i < length a \<Longrightarrow> load a i = Some (a ! i)"
  by (simp add: load_def)

lemma load_None: "length a \<le> i \<Longrightarrow> load a i = None"
  by (simp add: load_def)

lemma store_Some [cmem]: "i < length a \<Longrightarrow> store a i v = Some (a[i := v])"
  by (simp add: store_def)

lemma store_None: "length a \<le> i \<Longrightarrow> store a i v = None"
  by (simp add: store_def)

lemma length_blit [simp, layout]:
  "d + length s \<le> length a \<Longrightarrow> length (blit a d s) = length a"
  by (simp add: blit_def)

lemma blit_Nil [simp]: "blit a d [] = a"
  by (simp add: blit_def)

lemma blit_nth:
  assumes "d + length s \<le> length a" "i < length a"
  shows "blit a d s ! i = (if d \<le> i \<and> i < d + length s then s ! (i - d) else a ! i)"
  using assms by (auto simp: blit_def nth_append)

lemma take_blit_before: "n \<le> d \<Longrightarrow> d \<le> length a \<Longrightarrow> take n (blit a d s) = take n a"
  by (simp add: blit_def min_def)

lemma take_blit_upto:
  "d \<le> length a \<Longrightarrow> take (d + length s) (blit a d s) = take d a @ s"
  by (simp add: blit_def)

lemma take_blit_slice:
  assumes "n \<le> length a" "i + n \<le> length b"
  shows "take n (blit a 0 (take n (drop i b))) = take n (drop i b)"
proof -
  have "length (take n (drop i b)) = n" using assms(2) by simp
  then show ?thesis using take_blit_upto [of 0 a "take n (drop i b)"] by simp
qed

lemma drop_blit_after:
  "d + length s \<le> n \<Longrightarrow> d + length s \<le> length a \<Longrightarrow> drop n (blit a d s) = drop n a"
  by (simp add: blit_def)

lemma blit_whole: "length s = length a \<Longrightarrow> blit a 0 s = s"
  by (simp add: blit_def)

lemma blit_snoc:
  assumes "d + length s < length a"
  shows "(blit a d s)[d + length s := v] = blit a d (s @ [v])"
proof -
  have "drop (d + length s) a = a ! (d + length s) # drop (Suc (d + length s)) a"
    using assms by (simp add: Cons_nth_drop_Suc)
  then show ?thesis using assms by (simp add: blit_def list_update_append)
qed

lemma blit_Cons:
  assumes "d < length a"
  shows "blit (blit a d [x]) (Suc d) xs = blit a d (x # xs)"
  using assms by (simp add: blit_def min_def add.commute)

lemma blit_blit:
  assumes "d + length xs \<le> length a"
  shows "blit (blit a d xs) (d + length xs) ys = blit a d (xs @ ys)"
  using assms by (simp add: blit_def min_absorb2 ac_simps)

lemma memcpy_Some [cmem]:
  "d + n \<le> length dst \<Longrightarrow> s + n \<le> length src \<Longrightarrow>
   memcpy dst d src s n = Some (blit dst d (take n (drop s src)))"
  by (simp add: memcpy_def)

lemma memcpy_length: "memcpy dst d src s n = Some r \<Longrightarrow> length r = length dst"
  by (auto simp: memcpy_def split: if_splits)

lemma memset_Some [cmem]:
  "d + n \<le> length dst \<Longrightarrow> memset dst d v n = Some (blit dst d (replicate n v))"
  by (simp add: memset_def)

subsection \<open>C strings\<close>

definition cstr :: "bytes \<Rightarrow> bytes" where
  "cstr b = takeWhile (\<lambda>c. c \<noteq> 0) b"

definition strlen :: "bytes \<Rightarrow> nat" where
  "strlen b = length (cstr b)"

definition str :: "string \<Rightarrow> bytes" where
  "str s = map of_char s"

lemma length_str [simp, layout]: "length (str s) = length s"
  by (simp add: str_def)

lemma cstr_no_nul: "0 \<notin> set (cstr b)"
  unfolding cstr_def by (auto dest: set_takeWhileD)

lemma strlen_le: "strlen b \<le> length b"
  unfolding strlen_def cstr_def by (simp add: length_takeWhile_le)

lemma cstr_id: "0 \<notin> set b \<Longrightarrow> cstr b = b"
  unfolding cstr_def by (subst takeWhile_eq_all_conv) metis

lemma cstr_append_nul: "0 \<notin> set b \<Longrightarrow> cstr (b @ 0 # c) = b"
  unfolding cstr_def by (subst takeWhile_append2) auto

text \<open>
  \<^verbatim>\<open>strncmp\<close>, \<^verbatim>\<open>strncpy\<close> and the test \<^verbatim>\<open>memcmp(a, b, n) == 0\<close>. They read as far as their
  C counterparts do; running off the end of an array is \<open>None\<close>.
\<close>

fun strncmp :: "bytes \<Rightarrow> bytes \<Rightarrow> nat \<Rightarrow> int option" where
  "strncmp a b 0 = Some 0"
| "strncmp (x # a) (y # b) (Suc n) =
     (if x \<noteq> y then Some (uint x - uint y) else if x = 0 then Some 0 else strncmp a b n)"
| "strncmp _ _ (Suc n) = None"

definition strncpy :: "bytes \<Rightarrow> bytes \<Rightarrow> nat \<Rightarrow> bytes option" where
  "strncpy dst src n =
     (if (0 \<in> set src \<or> n \<le> length src) \<and> n \<le> length dst
      then Some (blit dst 0 (take n (cstr src @ replicate n 0))) else None)"

definition memcmp0 :: "bytes \<Rightarrow> bytes \<Rightarrow> nat \<Rightarrow> bool option" where
  "memcmp0 a b n =
     (if n \<le> length a \<and> n \<le> length b then Some (take n a = take n b) else None)"

lemma memcmp0_Some [cmem]:
  "n \<le> length a \<Longrightarrow> n \<le> length b \<Longrightarrow> memcmp0 a b n = Some (take n a = take n b)"
  by (simp add: memcmp0_def)

subsection \<open>Arithmetic and copying on C's \<^verbatim>\<open>int\<close>\<close>

text \<open>
  A sum that leaves the range of a 32-bit \<^verbatim>\<open>int\<close> is undefined. The offsets and the length of a
  \<^verbatim>\<open>memcpy\<close> are often signed in the source; a negative one addresses outside the array.
\<close>

definition int_add :: "int \<Rightarrow> int \<Rightarrow> int option" where
  "int_add a b = (if -(2 ^ 31) \<le> a + b \<and> a + b < 2 ^ 31 then Some (a + b) else None)"

definition memcpy_int :: "'a list \<Rightarrow> int \<Rightarrow> 'a list \<Rightarrow> int \<Rightarrow> int \<Rightarrow> 'a list option" where
  "memcpy_int dst d src s n =
     (if 0 \<le> d \<and> 0 \<le> s \<and> 0 \<le> n then memcpy dst (nat d) src (nat s) (nat n) else None)"

lemma int_add_Some: "int_add a b = Some c \<Longrightarrow> c = a + b"
  by (simp add: int_add_def split: if_splits)

lemma memcpy_int_Some:
  "memcpy_int dst d src s n = Some r \<Longrightarrow>
     0 \<le> d \<and> 0 \<le> s \<and> 0 \<le> n \<and> nat d + nat n \<le> length dst \<and> nat s + nat n \<le> length src \<and>
     r = blit dst (nat d) (take (nat n) (drop (nat s) src))"
  by (auto simp: memcpy_int_def memcpy_def split: if_splits)

subsection \<open>Formatted output\<close>

text \<open>\<^verbatim>\<open>%d\<close>, and \<^verbatim>\<open>sprintf\<close> into an array of \<open>n\<close> characters.\<close>

fun digits :: "nat \<Rightarrow> string" where
  "digits n = (if n < 10 then [char_of (48 + n)] else digits (n div 10) @ [char_of (48 + n mod 10)])"

declare digits.simps [simp del]

definition dec :: "int \<Rightarrow> string" where
  "dec i = (if i < 0 then ''-'' @ digits (nat (- i)) else digits (nat i))"

definition sprintf :: "nat \<Rightarrow> string \<Rightarrow> string option" where
  "sprintf n s = (if length s < n then Some s else None)"

lemma length_digits: "n < 10 ^ k \<Longrightarrow> 0 < k \<Longrightarrow> length (digits n) \<le> k"
proof (induction k arbitrary: n)
  case (Suc k)
  show ?case
  proof (cases "n < 10")
    case False
    then have "0 < k" using Suc.prems by (cases k) auto
    moreover have "n div 10 < 10 ^ k" using Suc.prems by auto
    ultimately have "length (digits (n div 10)) \<le> k" by (rule Suc.IH [rotated])
    then show ?thesis using False by (subst digits.simps) simp
  qed (simp add: digits.simps)
qed simp

lemma digit_byte: "n < 10 \<Longrightarrow> of_char (char_of (48 + n :: nat)) = (48 + of_nat n :: byte)"
  by (subst of_nat_of_char [symmetric]) simp

lemma str_digits: "\<forall>c \<in> set (str (digits n)). 48 \<le> c \<and> c \<le> 57"
proof (induction n rule: digits.induct)
  case (1 n)
  have d: "48 \<le> (48 + of_nat m :: byte) \<and> (48 + of_nat m :: byte) \<le> 57" if "m < 10" for m
    using that by (simp add: word_le_nat_alt unat_word_ariths unat_of_nat)
  show ?case
  proof (cases "n < 10")
    case True
    then show ?thesis using d by (subst digits.simps) (simp add: str_def digit_byte)
  next
    case False
    then show ?thesis using 1 d [of "n mod 10"]
      by (subst digits.simps) (simp add: str_def digit_byte)
  qed
qed

lemma str_dec_props:
  assumes "-(2 ^ 31) \<le> st" "st < 2 ^ 31"
  shows "0 \<notin> set (str (dec st))" "length (dec st) \<le> 11"
proof -
  have "0 \<notin> set (str (digits n))" for n using str_digits [of n] by force
  then show "0 \<notin> set (str (dec st))" by (auto simp: dec_def str_def)
  have "length (digits n) \<le> 10" if "n \<le> 2 ^ 31" for n using that by (intro length_digits) auto
  then have "length (digits (nat (- st))) \<le> 10" "length (digits (nat st)) \<le> 10" using assms by auto
  then show "length (dec st) \<le> 11" by (simp add: dec_def)
qed

lemma dec_0_1: "str (dec 0) = [48]" "str (dec 1) = [49]"
  using digit_byte [of 0] digit_byte [of 1] by (simp_all add: dec_def digits.simps str_def)

text \<open>The number a text of digits stands for.\<close>

definition undec :: "bytes \<Rightarrow> nat" where
  "undec ds = foldl (\<lambda>v c. 10 * v + unat (c - 48)) 0 ds"

lemma undec_digits: "undec (str (digits n)) = n"
proof (induction n rule: digits.induct)
  case (1 n)
  have d: "unat ((48 + of_nat m :: byte) - 48) = m" if "m < 10" for m
    using that by (simp add: unat_of_nat)
  show ?case
  proof (cases "n < 10")
    case True
    then show ?thesis using d [of n] by (subst digits.simps) (simp add: str_def undec_def digit_byte)
  next
    case False
    then show ?thesis using 1 d [of "n mod 10"]
      by (subst digits.simps) (simp add: str_def undec_def digit_byte)
  qed
qed

subsection \<open>Little-endian 32-bit values\<close>

definition le32 :: "u32 \<Rightarrow> bytes" where
  "le32 w = [ucast w, ucast (drop_bit 8 w), ucast (drop_bit 16 w), ucast (drop_bit 24 w)]"

definition of_le32 :: "byte \<Rightarrow> byte \<Rightarrow> byte \<Rightarrow> byte \<Rightarrow> u32" where
  "of_le32 b0 b1 b2 b3 =
     ucast b0 OR push_bit 8 (ucast b1) OR push_bit 16 (ucast b2) OR push_bit 24 (ucast b3)"

definition read_u32 :: "bytes \<Rightarrow> nat \<Rightarrow> u32" where
  "read_u32 b i = of_le32 (b ! i) (b ! (i + 1)) (b ! (i + 2)) (b ! (i + 3))"

lemma length_le32 [simp, layout]: "length (le32 w) = 4"
  by (simp add: le32_def)

lemma of_le32_le32:
  "of_le32 (ucast w) (ucast (drop_bit 8 w)) (ucast (drop_bit 16 w)) (ucast (drop_bit 24 w)) = w"
proof (rule bit_word_eqI)
  fix n assume "n < LENGTH(32)"
  then have n: "n < 32" by simp
  then consider "n < 8" | "8 \<le> n" "n < 16" | "16 \<le> n" "n < 24" | "24 \<le> n" "n < 32"
    by linarith
  then show "bit (of_le32 (ucast w) (ucast (drop_bit 8 w)) (ucast (drop_bit 16 w))
                  (ucast (drop_bit 24 w))) n = bit w n"
    using n by cases (auto simp: of_le32_def bit_simps)
qed

lemma le32_of_le32: "le32 (of_le32 a b c d) = [a, b, c, d]"
proof -
  have "ucast (of_le32 a b c d) = a"
    by (rule bit_word_eqI) (auto simp: of_le32_def bit_simps dest: bit_imp_le_length)
  moreover have "ucast (drop_bit 8 (of_le32 a b c d)) = b"
    by (rule bit_word_eqI) (auto simp: of_le32_def bit_simps dest: bit_imp_le_length)
  moreover have "ucast (drop_bit 16 (of_le32 a b c d)) = c"
    by (rule bit_word_eqI) (auto simp: of_le32_def bit_simps dest: bit_imp_le_length)
  moreover have "ucast (drop_bit 24 (of_le32 a b c d)) = d"
    by (rule bit_word_eqI) (auto simp: of_le32_def bit_simps dest: bit_imp_le_length)
  ultimately show ?thesis by (simp add: le32_def)
qed

lemma read_u32_le32 [simp]: "read_u32 (le32 w) 0 = w"
  by (simp add: read_u32_def le32_def of_le32_le32)

lemma read_u32_append:
  "length xs = i \<Longrightarrow> read_u32 (xs @ le32 w @ ys) i = w"
  by (simp add: read_u32_def nth_append le32_def of_le32_le32)

end
