(* ===== verification/EventQueue.thy ===== *)
theory EventQueue
  imports Prelude
begin

text \<open>
  The bounded event queue between the receive thread and the executing thread
  (\<^verbatim>\<open>clientbase/eventqueue.h\<close>, \<^verbatim>\<open>clientbase/eventqueue.cpp\<close>): a doubly linked list of
  heap nodes with a count and a bound. Nodes live in an explicit heap, so that a null or
  dangling pointer, a double delete and a leak are all visible; every operation returns
  \<open>None\<close> when it follows such a pointer. The locale \<open>event_fifo\<close> states what the users of
  a queue rely on; it is interpreted on the linked list at the end.
\<close>

subsection \<open>Messages\<close>

record ReceivedData =
  rd_Type :: u32
  rd_Data :: "bytes option"
  rd_Length :: u32

text \<open>A deep copy: \<^verbatim>\<open>Data\<close> stays null unless it is non-null and the length is positive.\<close>

definition copy_data :: "ReceivedData \<Rightarrow> ReceivedData option" where
  "copy_data d =
     (case rd_Data d of
        None \<Rightarrow> Some (d\<lparr>rd_Data := None\<rparr>)
      | Some b \<Rightarrow>
          (if 0 < rd_Length d
           then do {
             c \<leftarrow> memcpy (replicate (unat (rd_Length d)) 0) 0 b 0 (unat (rd_Length d));
             Some (d\<lparr>rd_Data := Some c\<rparr>)
           }
           else Some (d\<lparr>rd_Data := None\<rparr>)))"

definition wf_data :: "ReceivedData \<Rightarrow> bool" where
  "wf_data d \<longleftrightarrow>
     (case rd_Data d of None \<Rightarrow> True | Some b \<Rightarrow> 0 < rd_Length d \<and> length b = unat (rd_Length d))"

lemma copy_data_wf [simp]: "wf_data d \<Longrightarrow> copy_data d = Some d"
  by (cases d) (auto simp: wf_data_def copy_data_def cmem blit_whole split: option.splits)

subsection \<open>Nodes and heap\<close>

record DataNode =
  node_data :: ReceivedData
  Next :: "nat option"
  Pre :: "nat option"

record heap =
  cells :: "nat \<Rightarrow> DataNode option"
  fresh :: nat

definition new_node :: "heap \<Rightarrow> DataNode \<Rightarrow> nat \<times> heap" where
  "new_node h n = (fresh h, h\<lparr>cells := (cells h)(fresh h \<mapsto> n), fresh := fresh h + 1\<rparr>)"

definition delete_node :: "heap \<Rightarrow> nat \<Rightarrow> heap option" where
  "delete_node h a =
     (case cells h a of None \<Rightarrow> None | Some _ \<Rightarrow> Some (h\<lparr>cells := (cells h)(a := None)\<rparr>))"

definition DataNode_new ::
  "heap \<Rightarrow> ReceivedData \<Rightarrow> nat option \<Rightarrow> nat option \<Rightarrow> (nat \<times> heap) option" where
  "DataNode_new h data next pre = do {
     d \<leftarrow> copy_data data;
     Some (new_node h \<lparr>node_data = d, Next = next, Pre = pre\<rparr>)
   }"

definition DataNode_GetData :: "DataNode \<Rightarrow> ReceivedData option" where
  "DataNode_GetData n = copy_data (node_data n)"

definition set_Next :: "heap \<Rightarrow> nat option \<Rightarrow> nat option \<Rightarrow> heap option" where
  "set_Next h p v = do {
     a \<leftarrow> p;
     n \<leftarrow> cells h a;
     Some (h\<lparr>cells := (cells h)(a \<mapsto> n\<lparr>Next := v\<rparr>)\<rparr>)
   }"

definition set_Pre :: "heap \<Rightarrow> nat option \<Rightarrow> nat option \<Rightarrow> heap option" where
  "set_Pre h p v = do {
     a \<leftarrow> p;
     n \<leftarrow> cells h a;
     Some (h\<lparr>cells := (cells h)(a \<mapsto> n\<lparr>Pre := v\<rparr>)\<rparr>)
   }"

subsection \<open>The queue\<close>

record EventQueue_180 =
  q_maxcount :: int
  q_count :: int
  q_first :: "nat option"
  q_last :: "nat option"

type_synonym queue_state = "heap \<times> EventQueue_180"

definition EventQueue_180_new :: "int \<Rightarrow> EventQueue_180" where
  "EventQueue_180_new n = \<lparr>q_maxcount = n, q_count = 0, q_first = None, q_last = None\<rparr>"

definition Enqueue :: "ReceivedData \<Rightarrow> queue_state \<Rightarrow> (bool \<times> queue_state) option" where
  "Enqueue data s = (case s of (h, q) \<Rightarrow>
     if q_maxcount q \<le> q_count q then Some (False, h, q)
     else if q_count q = 0 then do {
       (tmp, h1) \<leftarrow> DataNode_new h data None None;
       Some (True, h1, q\<lparr>q_first := Some tmp, q_last := Some tmp, q_count := q_count q + 1\<rparr>)
     }
     else do {
       (tmp, h1) \<leftarrow> DataNode_new h data None (q_last q);
       h2 \<leftarrow> set_Next h1 (q_last q) (Some tmp);
       Some (True, h2, q\<lparr>q_last := Some tmp, q_count := q_count q + 1\<rparr>)
     })"

definition Dequeue :: "queue_state \<Rightarrow> (ReceivedData option \<times> queue_state) option" where
  "Dequeue s = (case s of (h, q) \<Rightarrow>
     if q_count q \<le> 0 then Some (None, h, q)
     else do {
       tmp \<leftarrow> q_first q;
       n \<leftarrow> cells h tmp;
       data \<leftarrow> DataNode_GetData n;
       h1 \<leftarrow> (if Next n \<noteq> None then set_Pre h (Next n) None else Some h);
       h2 \<leftarrow> delete_node h1 tmp;
       Some (Some data, h2, q\<lparr>q_first := Next n, q_count := q_count q - 1\<rparr>)
     })"

definition GetCount :: "queue_state \<Rightarrow> int" where
  "GetCount s = q_count (snd s)"

partial_function (option) destroy_loop :: "heap \<Rightarrow> nat \<Rightarrow> (heap \<times> nat) option" where
  "destroy_loop h tmp =
     Option.bind (cells h tmp) (\<lambda>n.
       case Next n of
         None \<Rightarrow> Some (h, tmp)
       | Some t \<Rightarrow>
           Option.bind (cells h t) (\<lambda>m.
             Option.bind (Pre m) (\<lambda>p.
               Option.bind (delete_node h p) (\<lambda>h'. destroy_loop h' t))))"

definition EventQueue_180_destroy :: "queue_state \<Rightarrow> heap option" where
  "EventQueue_180_destroy s = (case s of (h, q) \<Rightarrow>
     (case q_first q of
        None \<Rightarrow> Some h
      | Some tmp \<Rightarrow> do {
          (h', last) \<leftarrow> destroy_loop h tmp;
          delete_node h' last
        }))"

subsection \<open>Representation\<close>

text \<open>\<open>dll c p prv as\<close>: from pointer \<open>p\<close>, the cells \<open>as\<close> form a list whose back pointers agree.\<close>

fun dll :: "(nat \<Rightarrow> DataNode option) \<Rightarrow> nat option \<Rightarrow> nat option \<Rightarrow> nat list \<Rightarrow> bool" where
  "dll c p prv [] \<longleftrightarrow> p = None"
| "dll c p prv (a # as) \<longleftrightarrow>
     p = Some a \<and>
     (case c a of None \<Rightarrow> False | Some n \<Rightarrow> Pre n = prv \<and> dll c (Next n) (Some a) as)"

fun addrs :: "(nat \<Rightarrow> DataNode option) \<Rightarrow> nat option \<Rightarrow> nat \<Rightarrow> nat list" where
  "addrs c p 0 = []"
| "addrs c None (Suc n) = []"
| "addrs c (Some a) (Suc n) = a # (case c a of None \<Rightarrow> [] | Some m \<Rightarrow> addrs c (Next m) n)"

definition q_addrs :: "queue_state \<Rightarrow> nat list" where
  "q_addrs s = addrs (cells (fst s)) (q_first (snd s)) (nat (q_count (snd s)))"

definition q_view :: "queue_state \<Rightarrow> ReceivedData list" where
  "q_view s = map (\<lambda>a. node_data (the (cells (fst s) a))) (q_addrs s)"

definition q_cap :: "queue_state \<Rightarrow> nat" where
  "q_cap s = nat (q_maxcount (snd s))"

definition q_rep :: "queue_state \<Rightarrow> nat list \<Rightarrow> bool" where
  "q_rep s as \<longleftrightarrow> (case s of (h, q) \<Rightarrow>
     dll (cells h) (q_first q) None as \<and> distinct as \<and>
     q_count q = int (length as) \<and> int (length as) \<le> q_maxcount q \<and>
     (as \<noteq> [] \<longrightarrow> q_last q = Some (last as)) \<and>
     dom (cells h) = set as \<and> (\<forall>a \<in> set as. a < fresh h) \<and>
     (\<forall>a \<in> set as. wf_data (node_data (the (cells h a)))))"

text \<open>
  The invariant: the cells reached from \<^verbatim>\<open>_first\<close> are exactly the allocated ones (no leak,
  nothing dangling), they are as many as \<^verbatim>\<open>_count\<close> says, \<^verbatim>\<open>_last\<close> is the last of them when
  there is one, and there are at most \<^verbatim>\<open>_maxcount\<close>.
\<close>

definition q_inv :: "queue_state \<Rightarrow> bool" where
  "q_inv s \<longleftrightarrow> q_rep s (q_addrs s)"

lemma addrs_dll: "dll c p prv as \<Longrightarrow> addrs c p (length as) = as"
proof (induction as arbitrary: p prv)
  case (Cons a as)
  then show ?case by (auto split: option.splits)
qed simp

lemma q_rep_addrs: "q_rep s as \<Longrightarrow> q_addrs s = as"
  by (cases s) (auto simp: q_rep_def q_addrs_def addrs_dll)

lemma q_rep_inv: "q_rep s as \<Longrightarrow> q_inv s"
  by (simp add: q_inv_def q_rep_addrs)

lemma dll_cong:
  "(\<And>a. a \<in> set as \<Longrightarrow> c' a = c a) \<Longrightarrow> dll c' p prv as = dll c p prv as"
  by (induction as arbitrary: p prv) (auto split: option.splits)

lemma dll_extend:
  assumes "dll c p prv (as @ [l])" "distinct (as @ [l])" "t \<notin> set (as @ [l])"
    "c l = Some n"
  shows "dll (c(t \<mapsto> \<lparr>node_data = d, Next = None, Pre = Some l\<rparr>, l \<mapsto> n\<lparr>Next := Some t\<rparr>))
           p prv (as @ [l, t])"
  using assms
proof (induction as arbitrary: p prv)
  case Nil
  then show ?case by auto
next
  case (Cons a as)
  then have "a \<noteq> l" "a \<noteq> t" by auto
  with Cons show ?case by (auto split: option.splits)
qed

lemma dll_dom: "dll c p prv as \<Longrightarrow> set as \<subseteq> dom c"
  by (induction as arbitrary: p prv) (auto split: option.splits)

lemma dll_forward:
  assumes "dll c (Some b) prv (b # bs)" "distinct (b # bs)" "c b = Some n"
  shows "dll (c(b \<mapsto> n\<lparr>Pre := prv'\<rparr>)) (Some b) prv' (b # bs)"
proof -
  have "dll (c(b \<mapsto> n\<lparr>Pre := prv'\<rparr>)) (Next n) (Some b) bs = dll c (Next n) (Some b) bs"
    by (rule dll_cong) (use assms in auto)
  then show ?thesis using assms by simp
qed

subsection \<open>Every operation keeps the representation\<close>

lemma Enqueue_full:
  "q_maxcount (snd s) \<le> q_count (snd s) \<Longrightarrow> Enqueue d s = Some (False, s)"
  by (cases s) (simp add: Enqueue_def)

lemma Enqueue_empty_rep:
  assumes "q_rep s []" "q_count (snd s) < q_maxcount (snd s)" "wf_data d"
  shows "\<exists>s'. Enqueue d s = Some (True, s') \<and> q_rep s' [fresh (fst s)] \<and> q_view s' = [d] \<and>
           q_cap s' = q_cap s"
proof -
  obtain h q where s: "s = (h, q)" by (cases s)
  show ?thesis
    using assms
    by (simp add: s q_rep_def Enqueue_def DataNode_new_def new_node_def q_view_def q_addrs_def
        q_cap_def)
qed

lemma Enqueue_snoc_rep:
  assumes rep: "q_rep s (as @ [l])" and room: "q_count (snd s) < q_maxcount (snd s)"
    and wf: "wf_data d"
  shows "\<exists>s'. Enqueue d s = Some (True, s') \<and> q_rep s' (as @ [l, fresh (fst s)]) \<and>
           q_view s' = q_view s @ [d] \<and> q_cap s' = q_cap s"
proof -
  obtain h q where s: "s = (h, q)" by (cases s)
  let ?t = "fresh h"
  have r: "dll (cells h) (q_first q) None (as @ [l])" "distinct (as @ [l])"
      "q_count q = int (length as) + 1" "q_last q = Some l" "dom (cells h) = set (as @ [l])"
      "\<And>a. a \<in> set (as @ [l]) \<Longrightarrow> a < fresh h"
      "\<And>a. a \<in> set (as @ [l]) \<Longrightarrow> wf_data (node_data (the (cells h a)))"
    using rep by (auto simp: q_rep_def s)
  have t: "?t \<notin> set (as @ [l])" using r(6) by blast
  obtain n where n: "cells h l = Some n" using r(5) by (auto simp: dom_def)
  define h' where "h' = h\<lparr>cells := (cells h)(?t \<mapsto> \<lparr>node_data = d, Next = None, Pre = Some l\<rparr>,
      l \<mapsto> n\<lparr>Next := Some ?t\<rparr>), fresh := Suc ?t\<rparr>"
  define q' where "q' = q\<lparr>q_last := Some ?t, q_count := q_count q + 1\<rparr>"
  have enq: "Enqueue d s = Some (True, h', q')"
    using room r(3,4) t n wf
    by (simp add: s Enqueue_def DataNode_new_def new_node_def set_Next_def h'_def q'_def)
  have keep: "a \<in> set as \<Longrightarrow> cells h' a = cells h a" for a
    using r(2) t by (auto simp: h'_def)
  have rep': "q_rep (h', q') (as @ [l, ?t])"
    unfolding q_rep_def prod.case
  proof (intro conjI)
    show "dll (cells h') (q_first q') None (as @ [l, ?t])"
      using dll_extend [OF r(1,2) t n, of d] by (simp add: h'_def q'_def)
    show "\<forall>a\<in>set (as @ [l, ?t]). wf_data (node_data (the (cells h' a)))"
      using r(7) keep t n wf r(7) [of l] by (auto simp: h'_def)
    show "dom (cells h') = set (as @ [l, ?t])"
      using r(5) t by (auto simp: h'_def)
  qed (use r room t in \<open>auto simp: s q'_def h'_def less_Suc_eq\<close>)
  have "q_view (h', q') = map (\<lambda>a. node_data (the (cells h' a))) (as @ [l, ?t])"
    by (simp add: q_view_def q_rep_addrs [OF rep'])
  also have "\<dots> = map (\<lambda>a. node_data (the (cells h a))) as @ [node_data n, d]"
    using keep t by (simp add: h'_def)
  also have "\<dots> = q_view s @ [d]"
    using n q_rep_addrs [OF rep] by (simp add: q_view_def s)
  finally have "q_view (h', q') = q_view s @ [d]" .
  with enq rep' show ?thesis by (auto simp: s q_cap_def q'_def)
qed

lemma Enqueue_room:
  assumes "q_inv s" "wf_data d" "length (q_view s) < q_cap s"
  shows "\<exists>s'. Enqueue d s = Some (True, s') \<and> q_inv s' \<and> q_view s' = q_view s @ [d] \<and>
           q_cap s' = q_cap s"
proof -
  have rep: "q_rep s (q_addrs s)" using assms(1) by (simp add: q_inv_def)
  have room: "q_count (snd s) < q_maxcount (snd s)"
    using assms(3) rep by (cases s) (auto simp: q_rep_def q_view_def q_cap_def)
  show ?thesis
  proof (cases "q_addrs s" rule: rev_cases)
    case Nil
    then show ?thesis
      using Enqueue_empty_rep [OF _ room assms(2)] rep q_rep_inv by (fastforce simp: q_view_def)
  next
    case (snoc as l)
    then show ?thesis
      using Enqueue_snoc_rep [OF _ room assms(2), of as l] rep q_rep_inv by fastforce
  qed
qed

lemma Dequeue_empty:
  assumes "q_inv s" "q_view s = []"
  shows "Dequeue s = Some (None, s)"
  using assms by (cases s) (auto simp: q_inv_def q_rep_def q_view_def Dequeue_def)

lemma Dequeue_Cons:
  assumes inv: "q_inv s" and view: "q_view s = d # ds"
  shows "\<exists>s'. Dequeue s = Some (Some d, s') \<and> q_inv s' \<and> q_view s' = ds \<and> q_cap s' = q_cap s"
proof -
  obtain h q where s: "s = (h, q)" by (cases s)
  have rep: "q_rep s (q_addrs s)" using inv by (simp add: q_inv_def)
  then obtain a bs where ab: "q_addrs s = a # bs"
    using view by (cases "q_addrs s") (auto simp: q_view_def)
  have r: "dll (cells h) (q_first q) None (a # bs)" "distinct (a # bs)"
      "q_count q = int (length bs) + 1" "dom (cells h) = set (a # bs)"
      "bs \<noteq> [] \<Longrightarrow> q_last q = Some (last bs)" "q_count q \<le> q_maxcount q"
      "\<And>x. x \<in> set (a # bs) \<Longrightarrow> x < fresh h"
      "\<And>x. x \<in> set (a # bs) \<Longrightarrow> wf_data (node_data (the (cells h x)))"
    using rep ab by (auto simp: q_rep_def s)
  obtain n where n: "cells h a = Some n" and first: "q_first q = Some a"
      and tl: "dll (cells h) (Next n) (Some a) bs"
    using r(1) by (auto split: option.splits)
  have dat: "node_data n = d" "map (\<lambda>x. node_data (the (cells h x))) bs = ds"
    using view ab n by (auto simp: q_view_def s)
  have wf: "wf_data d" using r(8) [of a] n dat by simp
  define q' where "q' = q\<lparr>q_first := Next n, q_count := q_count q - 1\<rparr>"
  have "\<exists>h1. (if Next n \<noteq> None then set_Pre h (Next n) None else Some h) = Some h1 \<and>
          dll ((cells h1)(a := None)) (Next n) None bs \<and> dom (cells h1) = dom (cells h) \<and>
          fresh h1 = fresh h \<and> (\<forall>x. map_option node_data (cells h1 x) = map_option node_data (cells h x))"
  proof (cases bs)
    case Nil
    then show ?thesis using tl by auto
  next
    case (Cons b bs')
    then obtain m where m: "cells h b = Some m" and nx: "Next n = Some b"
      using tl by (auto split: option.splits)
    have "dll ((cells h)(b \<mapsto> m\<lparr>Pre := None\<rparr>)) (Some b) None (b # bs')"
      using dll_forward [of "cells h" b "Some a" bs' m None] tl r(2) m nx Cons by auto
    moreover have "a \<notin> set (b # bs')" using r(2) Cons by simp
    ultimately have "dll (((cells h)(b \<mapsto> m\<lparr>Pre := None\<rparr>))(a := None)) (Some b) None (b # bs')"
      by (subst dll_cong [of _ _ "(cells h)(b \<mapsto> m\<lparr>Pre := None\<rparr>)"]) auto
    then show ?thesis using m nx Cons by (auto simp: set_Pre_def)
  qed
  then obtain h1 where h1: "(if Next n \<noteq> None then set_Pre h (Next n) None else Some h) = Some h1"
      "dll ((cells h1)(a := None)) (Next n) None bs" "dom (cells h1) = dom (cells h)"
      "fresh h1 = fresh h" "\<And>x. map_option node_data (cells h1 x) = map_option node_data (cells h x)"
    by blast
  define h2 where "h2 = h1\<lparr>cells := (cells h1)(a := None)\<rparr>"
  have nd: "node_data (the (cells h2 x)) = node_data (the (cells h x))" if "x \<in> set bs" for x
  proof -
    have "x \<noteq> a" "x \<in> dom (cells h)" using that r(2,4) by auto
    then show ?thesis using h1(5) [of x] by (auto simp: h2_def)
  qed
  have "a \<in> dom (cells h1)" using h1(3) n by auto
  then have "delete_node h1 a = Some h2" by (auto simp: delete_node_def h2_def)
  then have deq: "Dequeue s = Some (Some d, h2, q')"
    using r(3) n first h1(1) dat wf
    by (simp add: s Dequeue_def DataNode_GetData_def q'_def del: set_Pre_def)
  have rep': "q_rep (h2, q') bs"
    using r h1 nd by (auto simp: q_rep_def h2_def q'_def)
  have "q_view (h2, q') = ds"
    using dat nd by (auto simp: q_view_def q_rep_addrs [OF rep'])
  with deq rep' show ?thesis by (auto simp: s q_cap_def q'_def intro: q_rep_inv)
qed


lemma destroy_loop_dll:
  assumes "dll (cells h) (Some a) prv (a # bs)" "distinct (a # bs)"
  shows "\<exists>h'. destroy_loop h a = Some (h', last (a # bs)) \<and>
           cells h' = (\<lambda>x. if x \<in> set (butlast (a # bs)) then None else cells h x)"
  using assms
proof (induction bs arbitrary: h a prv)
  case Nil
  then show ?case by (subst destroy_loop.simps) (auto split: option.splits)
next
  case (Cons b bs)
  from Cons.prems(1) obtain n m where n: "cells h a = Some n" "Next n = Some b"
      and m: "cells h b = Some m" "Pre m = Some a" "dll (cells h) (Next m) (Some b) bs"
    by (auto split: option.splits)
  define h1 where "h1 = h\<lparr>cells := (cells h)(a := None)\<rparr>"
  have ab: "a \<noteq> b" "a \<notin> set bs" using Cons.prems(2) by auto
  have "dll (cells h1) (Next m) (Some b) bs = dll (cells h) (Next m) (Some b) bs"
    by (rule dll_cong) (use ab in \<open>auto simp: h1_def\<close>)
  then have "dll (cells h1) (Some b) (Some a) (b # bs)"
    using m ab by (simp add: h1_def)
  moreover have "distinct (b # bs)" using Cons.prems(2) by simp
  ultimately obtain h' where h': "destroy_loop h1 b = Some (h', last (b # bs))"
      "cells h' = (\<lambda>x. if x \<in> set (butlast (b # bs)) then None else cells h1 x)"
    using Cons.IH by blast
  have "destroy_loop h a = destroy_loop h1 b"
    using n m by (subst destroy_loop.simps) (simp add: delete_node_def h1_def)
  then show ?case using h' by (auto simp: h1_def)
qed

lemma destroy_frees_all:
  assumes "q_inv s"
  shows "\<exists>h. EventQueue_180_destroy s = Some h \<and> cells h = Map.empty"
proof -
  obtain h q where s: "s = (h, q)" by (cases s)
  have rep: "q_rep s (q_addrs s)" using assms by (simp add: q_inv_def)
  show ?thesis
  proof (cases "q_addrs s")
    case Nil
    then show ?thesis using rep by (simp add: s q_rep_def EventQueue_180_destroy_def)
  next
    case (Cons a bs)
    have r: "dll (cells h) (Some a) None (a # bs)" "q_first q = Some a" "distinct (a # bs)"
        "dom (cells h) = set (a # bs)"
      using rep Cons by (auto simp: s q_rep_def)
    obtain h' where h': "destroy_loop h a = Some (h', last (a # bs))"
        "cells h' = (\<lambda>x. if x \<in> set (butlast (a # bs)) then None else cells h x)"
      using destroy_loop_dll [OF r(1,3)] by blast
    have split: "set (a # bs) = insert (last (a # bs)) (set (butlast (a # bs)))"
      by (metis append_butlast_last_id list.distinct(1) rotate1.simps(2) list.simps(15) set_rotate1)
    have "last (a # bs) \<notin> set (butlast (a # bs))"
      using r(3) by (metis append_butlast_last_id distinct_append disjoint_iff list.distinct(1)
          list.set_intros(1))
    moreover have "last (a # bs) \<in> dom (cells h)" using r(4) by simp
    ultimately obtain n where n: "cells h' (last (a # bs)) = Some n" using h'(2) by auto
    define h2 where "h2 = h'\<lparr>cells := (cells h')(last (a # bs) := None)\<rparr>"
    have "cells h2 x = None" for x
    proof (cases "x \<in> set (a # bs)")
      case True
      then show ?thesis using split h'(2) by (auto simp: h2_def)
    next
      case False
      then have "cells h x = None" using r(4) by (metis domIff)
      then show ?thesis using h'(2) by (auto simp: h2_def)
    qed
    then have "cells h2 = Map.empty" by blast
    moreover have "EventQueue_180_destroy s = Some h2"
      using r(2) h'(1) n by (simp add: s EventQueue_180_destroy_def delete_node_def h2_def)
    ultimately show ?thesis by blast
  qed
qed

subsection \<open>The contract of a bounded event queue\<close>

text \<open>What a user of a queue may do with it, and what the answers are.\<close>

datatype 'd qop = QEnqueue 'd | QDequeue
datatype 'd qres = Accepted bool | Got "'d option"

text \<open>A sequence of operations, run on an implementation and on a list with a bound.\<close>

fun run_ops ::
  "('d \<Rightarrow> 's \<Rightarrow> (bool \<times> 's) option) \<Rightarrow> ('s \<Rightarrow> ('d option \<times> 's) option) \<Rightarrow>
   'd qop list \<Rightarrow> 's \<Rightarrow> ('d qres list \<times> 's) option" where
  "run_ops enq deq [] s = Some ([], s)"
| "run_ops enq deq (QEnqueue d # ops) s = do {
     (b, s1) \<leftarrow> enq d s;
     (rs, s2) \<leftarrow> run_ops enq deq ops s1;
     Some (Accepted b # rs, s2)
   }"
| "run_ops enq deq (QDequeue # ops) s = do {
     (x, s1) \<leftarrow> deq s;
     (rs, s2) \<leftarrow> run_ops enq deq ops s1;
     Some (Got x # rs, s2)
   }"

fun fifo_ops :: "nat \<Rightarrow> 'd qop list \<Rightarrow> 'd list \<Rightarrow> 'd qres list \<times> 'd list" where
  "fifo_ops n [] xs = ([], xs)"
| "fifo_ops n (QEnqueue d # ops) xs =
     (if length xs < n
      then map_prod (\<lambda>rs. Accepted True # rs) id (fifo_ops n ops (xs @ [d]))
      else map_prod (\<lambda>rs. Accepted False # rs) id (fifo_ops n ops xs))"
| "fifo_ops n (QDequeue # ops) xs =
     (case xs of
        [] \<Rightarrow> map_prod (\<lambda>rs. Got None # rs) id (fifo_ops n ops [])
      | x # xs' \<Rightarrow> map_prod (\<lambda>rs. Got (Some x) # rs) id (fifo_ops n ops xs'))"

fun op_data :: "'d qop \<Rightarrow> 'd list" where
  "op_data (QEnqueue d) = [d]"
| "op_data QDequeue = []"

text \<open>What came out of a queue and what was let in, in order.\<close>

fun delivered :: "'d qres list \<Rightarrow> 'd list" where
  "delivered [] = []"
| "delivered (Got (Some d) # rs) = d # delivered rs"
| "delivered (r # rs) = delivered rs"

fun let_in :: "'d qop list \<Rightarrow> 'd qres list \<Rightarrow> 'd list" where
  "let_in (QEnqueue d # ops) (Accepted True # rs) = d # let_in ops rs"
| "let_in (op # ops) (r # rs) = let_in ops rs"
| "let_in ops rs = []"

lemma fifo_ops_order:
  "fifo_ops n ops xs = (rs, ys) \<Longrightarrow> delivered rs @ ys = xs @ let_in ops rs"
proof (induction n ops xs arbitrary: rs ys rule: fifo_ops.induct)
  case (3 n ops xs)
  then show ?case by (cases xs) (auto simp: map_prod_def split: prod.splits)
qed (auto simp: map_prod_def split: prod.splits if_splits)

lemma fifo_ops_bound:
  "length xs \<le> n \<Longrightarrow> length (snd (fifo_ops n ops xs)) \<le> n"
proof (induction n ops xs rule: fifo_ops.induct)
  case (3 n ops xs)
  then show ?case by (cases xs) auto
qed auto

locale event_fifo =
  fixes enq :: "'d \<Rightarrow> 's \<Rightarrow> (bool \<times> 's) option"
    and deq :: "'s \<Rightarrow> ('d option \<times> 's) option"
    and view :: "'s \<Rightarrow> 'd list"
    and inv :: "'s \<Rightarrow> bool"
    and ok :: "'d \<Rightarrow> bool"
    and cap :: "'s \<Rightarrow> nat"
  assumes enq_room: "inv s \<Longrightarrow> ok d \<Longrightarrow> length (view s) < cap s \<Longrightarrow>
      \<exists>s'. enq d s = Some (True, s') \<and> inv s' \<and> view s' = view s @ [d] \<and> cap s' = cap s"
    and enq_full: "inv s \<Longrightarrow> \<not> length (view s) < cap s \<Longrightarrow> enq d s = Some (False, s)"
    and deq_empty: "inv s \<Longrightarrow> view s = [] \<Longrightarrow> deq s = Some (None, s)"
    and deq_cons: "inv s \<Longrightarrow> view s = d # ds \<Longrightarrow>
      \<exists>s'. deq s = Some (Some d, s') \<and> inv s' \<and> view s' = ds \<and> cap s' = cap s"
    and view_ok: "inv s \<Longrightarrow> d \<in> set (view s) \<Longrightarrow> ok d"
    and view_cap: "inv s \<Longrightarrow> length (view s) \<le> cap s"
begin

lemma run_ops_fifo:
  assumes "inv s" "\<forall>op \<in> set ops. \<forall>d \<in> set (op_data op). ok d"
  shows "\<exists>s'. run_ops enq deq ops s = Some (fst (fifo_ops (cap s) ops (view s)), s') \<and>
           inv s' \<and> view s' = snd (fifo_ops (cap s) ops (view s)) \<and> cap s' = cap s"
  using assms
proof (induction ops arbitrary: s)
  case (Cons op ops)
  show ?case
  proof (cases op)
    case (QEnqueue d)
    show ?thesis
    proof (cases "length (view s) < cap s")
      case True
      then obtain s1 where s1: "enq d s = Some (True, s1)" "inv s1" "view s1 = view s @ [d]"
          "cap s1 = cap s"
        using enq_room [of s d] Cons.prems QEnqueue by auto
      from Cons.IH [OF s1(2)] Cons.prems(2) s1 True QEnqueue show ?thesis by auto
    next
      case False
      from Cons.IH [of s] Cons.prems False QEnqueue enq_full [of s d] show ?thesis by auto
    qed
  next
    case QDequeue
    show ?thesis
    proof (cases "view s")
      case Nil
      from Cons.IH [of s] Cons.prems Nil QDequeue deq_empty [of s] show ?thesis by auto
    next
      case (Cons d ds)
      then obtain s1 where s1: "deq s = Some (Some d, s1)" "inv s1" "view s1 = ds"
          "cap s1 = cap s"
        using deq_cons [of s d ds] Cons.prems by auto
      from Cons.IH [OF s1(2)] Cons.prems(2) s1 Cons QDequeue show ?thesis by auto
    qed
  qed
qed simp

end

interpretation evq: event_fifo Enqueue Dequeue q_view q_inv wf_data q_cap
proof unfold_locales
  fix s and d :: ReceivedData
  assume inv: "q_inv s"
  have len: "length (q_view s) \<le> q_cap s"
    and full: "\<not> length (q_view s) < q_cap s \<Longrightarrow> q_maxcount (snd s) \<le> q_count (snd s)"
    using inv by (cases s, auto simp: q_inv_def q_rep_def q_view_def q_cap_def)+
  show "length (q_view s) \<le> q_cap s" by (rule len)
  show "wf_data d" if "d \<in> set (q_view s)"
    using that inv by (cases s) (auto simp: q_inv_def q_rep_def q_view_def)
  show "Enqueue d s = Some (False, s)" if "\<not> length (q_view s) < q_cap s"
    using full that by (simp add: Enqueue_full)
qed (use Enqueue_room Dequeue_empty Dequeue_Cons in \<open>blast+\<close>)

subsection \<open>Properties of the queue\<close>

definition heap_empty :: heap where
  "heap_empty = \<lparr>cells = Map.empty, fresh = 0\<rparr>"

lemma new_queue:
  "0 \<le> n \<Longrightarrow> q_inv (heap_empty, EventQueue_180_new n) \<and>
     q_view (heap_empty, EventQueue_180_new n) = [] \<and>
     q_cap (heap_empty, EventQueue_180_new n) = nat n"
  by (auto simp: q_inv_def q_rep_def q_addrs_def q_view_def q_cap_def heap_empty_def
      EventQueue_180_new_def)

text \<open>
  C7: Whatever operations are run on a new queue of bound \<open>n\<close>, none of them follows a null or
  dangling pointer, their answers are those of a first-in first-out list bounded by \<open>n\<close>, the
  count is the number of messages inside, and the destructor then frees every node.
\<close>

theorem EventQueue_bounded_fifo:
  assumes "0 \<le> n" "\<forall>op \<in> set ops. \<forall>d \<in> set (op_data op). wf_data d"
  shows "\<exists>s h. run_ops Enqueue Dequeue ops (heap_empty, EventQueue_180_new n) =
             Some (fst (fifo_ops (nat n) ops []), s) \<and>
           q_view s = snd (fifo_ops (nat n) ops []) \<and> GetCount s = int (length (q_view s)) \<and>
           EventQueue_180_destroy s = Some h \<and> cells h = Map.empty"
proof -
  obtain s where s: "run_ops Enqueue Dequeue ops (heap_empty, EventQueue_180_new n) =
             Some (fst (fifo_ops (nat n) ops []), s)"
      "q_inv s" "q_view s = snd (fifo_ops (nat n) ops [])"
    using evq.run_ops_fifo [OF _ assms(2), of "(heap_empty, EventQueue_180_new n)"]
      new_queue [OF assms(1)] by auto
  moreover have "GetCount s = int (length (q_view s))"
    using s(2) by (cases s) (auto simp: GetCount_def q_inv_def q_rep_def q_view_def)
  ultimately show ?thesis using destroy_frees_all by blast
qed

theorem EventQueue_bounded_fifo_witness:
  "let d = (\<lambda>t. \<lparr>rd_Type = t, rd_Data = None, rd_Length = 0\<rparr>);
       ops = [QEnqueue (d 1), QEnqueue (d 2), QEnqueue (d 3), QDequeue, QDequeue, QDequeue] in
   \<exists>s h. run_ops Enqueue Dequeue ops (heap_empty, EventQueue_180_new 2) =
           Some ([Accepted True, Accepted True, Accepted False,
                  Got (Some (d 1)), Got (Some (d 2)), Got None], s) \<and>
         EventQueue_180_destroy s = Some h \<and> cells h = Map.empty"
  using EventQueue_bounded_fifo [of 2
      "[QEnqueue \<lparr>rd_Type = 1, rd_Data = None, rd_Length = 0\<rparr>,
        QEnqueue \<lparr>rd_Type = 2, rd_Data = None, rd_Length = 0\<rparr>,
        QEnqueue \<lparr>rd_Type = 3, rd_Data = None, rd_Length = 0\<rparr>, QDequeue, QDequeue, QDequeue]"]
  by (auto simp: Let_def wf_data_def)

end
