(* ===== verification/EventExecuter.thy ===== *)
theory EventExecuter
  imports EventQueue "HOL-Library.Sublist"
begin

text \<open>
  The executing thread (\<^verbatim>\<open>clientbase/eventexecuter.cpp\<close>): the receive thread posts messages
  with \<^verbatim>\<open>Execute\<close>, a second thread wakes up, takes them out one at a time and hands each to
  the client's \<^verbatim>\<open>OnReceived\<close>. The mutexes make \<open>Execute\<close>, \<open>DoEvent\<close> and the accesses to
  \<^verbatim>\<open>_keep_running_thread\<close> atomic, so the interleavings of the threads are the sequences of
  steps of the relation \<open>ex_step\<close>.
\<close>

subsection \<open>State and operations\<close>

definition MAX_EVENTS_IN_QUEUE :: int where
  "MAX_EVENTS_IN_QUEUE = 256"

text \<open>
  \<open>ex_raised\<close> is what \<^verbatim>\<open>RaiseRecievedEvent\<close> was given so far; \<open>ex_posted\<close> and \<open>ex_dropped\<close>
  record what \<^verbatim>\<open>Execute\<close> was given and what it reported with ``Event queue is full''.
\<close>

record EventExecuter =
  ex_queue :: queue_state
  ex_keep :: bool
  ex_thread :: bool
  ex_raised :: "ReceivedData list"
  ex_posted :: "ReceivedData list"
  ex_dropped :: "ReceivedData list"

definition EventExecuter_new :: "int \<Rightarrow> EventExecuter" where
  "EventExecuter_new pthread_create_ret =
     \<lparr>ex_queue = (heap_empty, EventQueue_180_new MAX_EVENTS_IN_QUEUE), ex_keep = True,
      ex_thread = (pthread_create_ret = 0), ex_raised = [], ex_posted = [], ex_dropped = []\<rparr>"

definition Executer_Execute :: "ReceivedData \<Rightarrow> EventExecuter \<Rightarrow> EventExecuter option" where
  "Executer_Execute data x = do {
     (ret, q) \<leftarrow> Enqueue data (ex_queue x);
     Some (x\<lparr>ex_queue := q, ex_posted := ex_posted x @ [data],
             ex_dropped := ex_dropped x @ (if \<not> ret then [data] else [])\<rparr>)
   }"

definition KeepExecuting :: "EventExecuter \<Rightarrow> bool" where
  "KeepExecuting x = ex_keep x"

definition SetKeepExecuting :: "bool \<Rightarrow> EventExecuter \<Rightarrow> EventExecuter" where
  "SetKeepExecuting v x = x\<lparr>ex_keep := v\<rparr>"

definition DoEvent :: "EventExecuter \<Rightarrow> (bool \<times> EventExecuter) option" where
  "DoEvent x = do {
     (data, q) \<leftarrow> Dequeue (ex_queue x);
     (case data of
        Some d \<Rightarrow> Some (True, x\<lparr>ex_queue := q, ex_raised := ex_raised x @ [d]\<rparr>)
      | None \<Rightarrow> Some (False, x\<lparr>ex_queue := q\<rparr>))
   }"

text \<open>\<^verbatim>\<open>do { ret = executer->DoEvent(); } while(ret);\<close>\<close>

partial_function (option) DoEvents :: "EventExecuter \<Rightarrow> EventExecuter option" where
  "DoEvents x =
     Option.bind (DoEvent x) (\<lambda>(ret, x'). if ret then DoEvents x' else Some x')"

text \<open>
  The destructor: \<^verbatim>\<open>SetKeepExecuting(false)\<close>, join the thread, \<^verbatim>\<open>delete _queue\<close>. What is
  still queued is freed with it.
\<close>

definition EventExecuter_destroy :: "EventExecuter \<Rightarrow> heap option" where
  "EventExecuter_destroy x = EventQueue_180_destroy (ex_queue (SetKeepExecuting False x))"

subsection \<open>The two threads\<close>

text \<open>The control points of \<^verbatim>\<open>ExcuteThread\<close>: the loop test, \<^verbatim>\<open>Wait\<close>, the inner loop, the end.\<close>

datatype ex_pc = Ex_Test | Ex_Wait | Ex_Do | Ex_Exit

inductive ex_step :: "ex_pc \<times> EventExecuter \<Rightarrow> ex_pc \<times> EventExecuter \<Rightarrow> bool" where
  test_go: "KeepExecuting x \<Longrightarrow> ex_step (Ex_Test, x) (Ex_Wait, x)"
| test_exit: "\<not> KeepExecuting x \<Longrightarrow> ex_step (Ex_Test, x) (Ex_Exit, x)"
| wake: "ex_step (Ex_Wait, x) (Ex_Do, x)"
| do_event: "DoEvent x = Some (True, x') \<Longrightarrow> ex_step (Ex_Do, x) (Ex_Do, x')"
| do_none: "DoEvent x = Some (False, x') \<Longrightarrow> ex_step (Ex_Do, x) (Ex_Test, x')"
| post: "wf_data d \<Longrightarrow> Executer_Execute d x = Some x' \<Longrightarrow> ex_step (pc, x) (pc, x')"
| stop: "ex_step (pc, x) (pc, SetKeepExecuting False x)"

inductive ex_reach :: "ex_pc \<times> EventExecuter \<Rightarrow> bool" where
  ex_init: "ex_reach (Ex_Test, EventExecuter_new 0)"
| ex_more: "ex_reach s \<Longrightarrow> ex_step s s' \<Longrightarrow> ex_reach s'"

inductive_cases ex_stepE: "ex_step (pc, x) s'"

subsection \<open>Invariant\<close>

text \<open>
  Nothing is invented, duplicated or reordered: what was handed over followed by what is
  queued is a subsequence of what was posted, and the rest is exactly what was dropped.
\<close>

definition ex_inv :: "EventExecuter \<Rightarrow> bool" where
  "ex_inv x \<longleftrightarrow> q_inv (ex_queue x) \<and> q_cap (ex_queue x) = 256 \<and>
     subseq (ex_raised x @ q_view (ex_queue x)) (ex_posted x) \<and>
     length (ex_posted x) =
       length (ex_raised x) + length (q_view (ex_queue x)) + length (ex_dropped x)"

lemma ex_inv_new: "ex_inv (EventExecuter_new r)"
  using new_queue [of 256] by (simp add: ex_inv_def EventExecuter_new_def MAX_EVENTS_IN_QUEUE_def)

lemma Execute_cases:
  assumes "q_inv (ex_queue x)" "wf_data d"
  obtains (room) q where "length (q_view (ex_queue x)) < q_cap (ex_queue x)"
      "Executer_Execute d x = Some (x\<lparr>ex_queue := q, ex_posted := ex_posted x @ [d]\<rparr>)"
      "q_inv q" "q_view q = q_view (ex_queue x) @ [d]" "q_cap q = q_cap (ex_queue x)"
    | (full) "\<not> length (q_view (ex_queue x)) < q_cap (ex_queue x)"
      "Executer_Execute d x =
         Some (x\<lparr>ex_posted := ex_posted x @ [d], ex_dropped := ex_dropped x @ [d]\<rparr>)"
proof (cases "length (q_view (ex_queue x)) < q_cap (ex_queue x)")
  case True
  then show ?thesis
    using evq.enq_room [OF assms True] room by (auto simp: Executer_Execute_def)
next
  case False
  then show ?thesis
    using evq.enq_full [OF assms(1) False, of d] full by (auto simp: Executer_Execute_def)
qed

lemma Execute_inv:
  assumes "ex_inv x" "wf_data d"
  shows "\<exists>x'. Executer_Execute d x = Some x' \<and> ex_inv x'"
proof -
  have "subseq (ex_raised x @ q_view (ex_queue x)) (ex_posted x)"
    using assms(1) by (simp add: ex_inv_def)
  then have "subseq ((ex_raised x @ q_view (ex_queue x)) @ [d]) (ex_posted x @ [d])"
    and "subseq (ex_raised x @ q_view (ex_queue x)) (ex_posted x @ [d])"
    by (simp only: list_emb_append_mono subseq_order.order_refl)
      (metis append_Nil2 list_emb_append_mono list_emb_Nil \<open>subseq _ (ex_posted x)\<close>)
  note sub = this
  have "q_inv (ex_queue x)" using assms(1) by (simp add: ex_inv_def)
  from this assms(2) show ?thesis
  proof (cases rule: Execute_cases)
    case (room q)
    then show ?thesis using assms(1) sub by (simp add: ex_inv_def)
  next
    case full
    then show ?thesis using assms(1) sub by (simp add: ex_inv_def)
  qed
qed

lemma DoEvent_cases:
  assumes "q_inv (ex_queue x)"
  obtains (event) d q where "DoEvent x = Some (True, x\<lparr>ex_queue := q, ex_raised := ex_raised x @ [d]\<rparr>)"
      "q_view (ex_queue x) = d # q_view q" "q_inv q" "q_cap q = q_cap (ex_queue x)"
    | (none) "DoEvent x = Some (False, x)" "q_view (ex_queue x) = []"
proof (cases "q_view (ex_queue x)")
  case Nil
  then show ?thesis using evq.deq_empty [OF assms Nil] none by (auto simp: DoEvent_def)
next
  case (Cons d ds)
  then show ?thesis using evq.deq_cons [OF assms Cons] event by (auto simp: DoEvent_def)
qed

lemma DoEvent_inv:
  "ex_inv x \<Longrightarrow> \<exists>r x'. DoEvent x = Some (r, x') \<and> ex_inv x'"
  by (rule DoEvent_cases [of x]) (auto simp: ex_inv_def)

lemma ex_step_inv: "ex_step (pc, x) (pc', x') \<Longrightarrow> ex_inv x \<Longrightarrow> ex_inv x'"
proof (erule ex_stepE)
  fix d x'' assume "(pc', x') = (pc, x'')" "wf_data d" "Executer_Execute d x = Some x''" "ex_inv x"
  then show "ex_inv x'" using Execute_inv [of x d] by auto
next
  fix x'' assume "(pc', x') = (Ex_Do, x'')" "DoEvent x = Some (True, x'')" "ex_inv x"
  then show "ex_inv x'" using DoEvent_inv [of x] by auto
next
  fix x'' assume "(pc', x') = (Ex_Test, x'')" "DoEvent x = Some (False, x'')" "ex_inv x"
  then show "ex_inv x'" using DoEvent_inv [of x] by auto
qed (auto simp: ex_inv_def SetKeepExecuting_def)

lemma ex_reach_inv: "ex_reach s \<Longrightarrow> ex_inv (snd s)"
proof (induction rule: ex_reach.induct)
  case ex_init
  then show ?case by (simp add: ex_inv_new)
next
  case (ex_more s s')
  then show ?case using ex_step_inv [of "fst s" "snd s" "fst s'" "snd s'"] by simp
qed

lemma subseq_full: "subseq xs ys \<Longrightarrow> length xs = length ys \<Longrightarrow> xs = ys"
  by (metis subseq_same_length)

lemma ex_inv_no_drop: "ex_inv x \<Longrightarrow> ex_dropped x = [] \<Longrightarrow>
    ex_raised x @ q_view (ex_queue x) = ex_posted x"
  unfolding ex_inv_def by (rule subseq_full) auto

lemma DoEvents_all:
  assumes "q_inv (ex_queue x)"
  shows "\<exists>q. DoEvents x = Some (x\<lparr>ex_queue := q, ex_raised := ex_raised x @ q_view (ex_queue x)\<rparr>) \<and>
           q_inv q \<and> q_view q = [] \<and> q_cap q = q_cap (ex_queue x)"
  using assms
proof (induction "length (q_view (ex_queue x))" arbitrary: x)
  case 0
  from 0(2) show ?case
  proof (cases rule: DoEvent_cases)
    case none
    then have "DoEvents x = Some x" by (subst DoEvents.simps) simp
    then show ?thesis using 0 none by (intro exI [of _ "ex_queue x"]) simp
  qed (use 0 in simp)
next
  case (Suc n)
  from Suc.prems show ?case
  proof (cases rule: DoEvent_cases)
    case (event d q)
    let ?x = "x\<lparr>ex_queue := q, ex_raised := ex_raised x @ [d]\<rparr>"
    have "n = length (q_view (ex_queue ?x))" using Suc.hyps(2) event by simp
    from Suc.hyps(1) [OF this] event show ?thesis
      by (subst DoEvents.simps) auto
  next
    case none
    then show ?thesis using Suc.hyps(2) by simp
  qed
qed

subsection \<open>Properties of the executer\<close>





end
