(* ===== verification/Md5.thy ===== *)
theory Md5
  imports Prelude
begin

text \<open>
  The message digest of the frames and of the option passwords
  (\<^verbatim>\<open>clientbase/md5checksum.h\<close>, \<^verbatim>\<open>clientbase/md5checksum.cpp\<close>). The macros are
  generic in the width of \<^verbatim>\<open>UINT4\<close>, which is \<^verbatim>\<open>unsigned long\<close>; everything after them is at
  the 32 bits the shipped i386 image has. Lengths are kept as the 32-bit words the code
  computes with. The second half states MD5 the way RFC 1321 does and shows that the
  unrolled, incremental code computes it.
\<close>

unbundle bit_operations_syntax

subsection \<open>The macros\<close>

abbreviation (input) S11 :: nat where "S11 \<equiv> 7"
abbreviation (input) S12 :: nat where "S12 \<equiv> 12"
abbreviation (input) S13 :: nat where "S13 \<equiv> 17"
abbreviation (input) S14 :: nat where "S14 \<equiv> 22"
abbreviation (input) S21 :: nat where "S21 \<equiv> 5"
abbreviation (input) S22 :: nat where "S22 \<equiv> 9"
abbreviation (input) S23 :: nat where "S23 \<equiv> 14"
abbreviation (input) S24 :: nat where "S24 \<equiv> 20"
abbreviation (input) S31 :: nat where "S31 \<equiv> 4"
abbreviation (input) S32 :: nat where "S32 \<equiv> 11"
abbreviation (input) S33 :: nat where "S33 \<equiv> 16"
abbreviation (input) S34 :: nat where "S34 \<equiv> 23"
abbreviation (input) S41 :: nat where "S41 \<equiv> 6"
abbreviation (input) S42 :: nat where "S42 \<equiv> 10"
abbreviation (input) S43 :: nat where "S43 \<equiv> 15"
abbreviation (input) S44 :: nat where "S44 \<equiv> 21"

definition F :: "'w::len word \<Rightarrow> 'w word \<Rightarrow> 'w word \<Rightarrow> 'w word" where
  "F x y z = (x AND y) OR (NOT x AND z)"

definition G :: "'w::len word \<Rightarrow> 'w word \<Rightarrow> 'w word \<Rightarrow> 'w word" where
  "G x y z = (x AND z) OR (y AND NOT z)"

definition H :: "'w::len word \<Rightarrow> 'w word \<Rightarrow> 'w word \<Rightarrow> 'w word" where
  "H x y z = x XOR y XOR z"

definition I :: "'w::len word \<Rightarrow> 'w word \<Rightarrow> 'w word \<Rightarrow> 'w word" where
  "I x y z = y XOR (x OR NOT z)"

definition ROTATE_LEFT :: "'w::len word \<Rightarrow> nat \<Rightarrow> 'w word" where
  "ROTATE_LEFT x n = push_bit n x OR drop_bit (32 - n) x"

definition FF :: "'w::len word \<Rightarrow> 'w word \<Rightarrow> 'w word \<Rightarrow> 'w word \<Rightarrow> 'w word \<Rightarrow> nat \<Rightarrow> 'w word \<Rightarrow> 'w word" where
  "FF a b c d x s ac = ROTATE_LEFT (a + (F b c d + x + ac)) s + b"

definition GG :: "'w::len word \<Rightarrow> 'w word \<Rightarrow> 'w word \<Rightarrow> 'w word \<Rightarrow> 'w word \<Rightarrow> nat \<Rightarrow> 'w word \<Rightarrow> 'w word" where
  "GG a b c d x s ac = ROTATE_LEFT (a + (G b c d + x + ac)) s + b"

definition HH :: "'w::len word \<Rightarrow> 'w word \<Rightarrow> 'w word \<Rightarrow> 'w word \<Rightarrow> 'w word \<Rightarrow> nat \<Rightarrow> 'w word \<Rightarrow> 'w word" where
  "HH a b c d x s ac = ROTATE_LEFT (a + (H b c d + x + ac)) s + b"

definition II :: "'w::len word \<Rightarrow> 'w word \<Rightarrow> 'w word \<Rightarrow> 'w word \<Rightarrow> 'w word \<Rightarrow> nat \<Rightarrow> 'w word \<Rightarrow> 'w word" where
  "II a b c d x s ac = ROTATE_LEFT (a + (I b c d + x + ac)) s + b"

subsection \<open>State\<close>

type_synonym UINT4 = "32 word"
type_synonym md5_state = "UINT4 \<times> UINT4 \<times> UINT4 \<times> UINT4"

record MD5_CTX =
  ctx_state :: md5_state
  ctx_count :: "UINT4 \<times> UINT4"
  ctx_buffer :: bytes

definition PADDING :: bytes where
  "PADDING = 0x80 # replicate 63 0"

subsection \<open>Byte loops\<close>

function MD5_memcpy_loop :: "bytes \<Rightarrow> nat \<Rightarrow> bytes \<Rightarrow> nat \<Rightarrow> nat \<Rightarrow> nat \<Rightarrow> bytes option" where
  "MD5_memcpy_loop out d inp s len i =
     (if i < len then do {
        v \<leftarrow> load inp (s + i);
        out' \<leftarrow> store out (d + i) v;
        MD5_memcpy_loop out' d inp s len (i + 1)
      } else Some out)"
  by pat_completeness auto
termination by (relation "measure (\<lambda>(out, d, inp, s, len, i). len - i)") auto

definition MD5_memcpy :: "bytes \<Rightarrow> nat \<Rightarrow> bytes \<Rightarrow> nat \<Rightarrow> nat \<Rightarrow> bytes option" where
  "MD5_memcpy out d inp s len = MD5_memcpy_loop out d inp s len 0"

function Encode_loop :: "UINT4 list \<Rightarrow> nat \<Rightarrow> nat \<Rightarrow> nat \<Rightarrow> bytes \<Rightarrow> bytes option" where
  "Encode_loop inp len i j out =
     (if j < len then do {
        w \<leftarrow> load inp i;
        Encode_loop inp len (i + 1) (j + 4)
          (out @ [ucast (w AND 0xff), ucast (drop_bit 8 w AND 0xff),
                  ucast (drop_bit 16 w AND 0xff), ucast (drop_bit 24 w AND 0xff)])
      } else Some out)"
  by pat_completeness auto
termination by (relation "measure (\<lambda>(inp, len, i, j, out). len - j)") auto

definition Encode :: "UINT4 list \<Rightarrow> nat \<Rightarrow> bytes option" where
  "Encode inp len = Encode_loop inp len 0 0 []"

function Decode_loop :: "bytes \<Rightarrow> nat \<Rightarrow> nat \<Rightarrow> UINT4 list \<Rightarrow> UINT4 list option" where
  "Decode_loop inp len j out =
     (if j < len then do {
        b0 \<leftarrow> load inp j;
        b1 \<leftarrow> load inp (j + 1);
        b2 \<leftarrow> load inp (j + 2);
        b3 \<leftarrow> load inp (j + 3);
        Decode_loop inp len (j + 4) (out @ [of_le32 b0 b1 b2 b3])
      } else Some out)"
  by pat_completeness auto
termination by (relation "measure (\<lambda>(inp, len, j, out). len - j)") auto

definition Decode :: "bytes \<Rightarrow> nat \<Rightarrow> UINT4 list option" where
  "Decode inp len = Decode_loop inp len 0 []"

declare MD5_memcpy_loop.simps [simp del] Encode_loop.simps [simp del] Decode_loop.simps [simp del]

subsection \<open>The transform, line by line\<close>

definition MD5_rounds :: "UINT4 list \<Rightarrow> md5_state \<Rightarrow> md5_state" where
  "MD5_rounds x st = (case st of (a, b, c, d) \<Rightarrow>
     let a = FF a b c d (x ! 0) S11 0xd76aa478 in
     let d = FF d a b c (x ! 1) S12 0xe8c7b756 in
     let c = FF c d a b (x ! 2) S13 0x242070db in
     let b = FF b c d a (x ! 3) S14 0xc1bdceee in
     let a = FF a b c d (x ! 4) S11 0xf57c0faf in
     let d = FF d a b c (x ! 5) S12 0x4787c62a in
     let c = FF c d a b (x ! 6) S13 0xa8304613 in
     let b = FF b c d a (x ! 7) S14 0xfd469501 in
     let a = FF a b c d (x ! 8) S11 0x698098d8 in
     let d = FF d a b c (x ! 9) S12 0x8b44f7af in
     let c = FF c d a b (x ! 10) S13 0xffff5bb1 in
     let b = FF b c d a (x ! 11) S14 0x895cd7be in
     let a = FF a b c d (x ! 12) S11 0x6b901122 in
     let d = FF d a b c (x ! 13) S12 0xfd987193 in
     let c = FF c d a b (x ! 14) S13 0xa679438e in
     let b = FF b c d a (x ! 15) S14 0x49b40821 in
     let a = GG a b c d (x ! 1) S21 0xf61e2562 in
     let d = GG d a b c (x ! 6) S22 0xc040b340 in
     let c = GG c d a b (x ! 11) S23 0x265e5a51 in
     let b = GG b c d a (x ! 0) S24 0xe9b6c7aa in
     let a = GG a b c d (x ! 5) S21 0xd62f105d in
     let d = GG d a b c (x ! 10) S22 0x2441453 in
     let c = GG c d a b (x ! 15) S23 0xd8a1e681 in
     let b = GG b c d a (x ! 4) S24 0xe7d3fbc8 in
     let a = GG a b c d (x ! 9) S21 0x21e1cde6 in
     let d = GG d a b c (x ! 14) S22 0xc33707d6 in
     let c = GG c d a b (x ! 3) S23 0xf4d50d87 in
     let b = GG b c d a (x ! 8) S24 0x455a14ed in
     let a = GG a b c d (x ! 13) S21 0xa9e3e905 in
     let d = GG d a b c (x ! 2) S22 0xfcefa3f8 in
     let c = GG c d a b (x ! 7) S23 0x676f02d9 in
     let b = GG b c d a (x ! 12) S24 0x8d2a4c8a in
     let a = HH a b c d (x ! 5) S31 0xfffa3942 in
     let d = HH d a b c (x ! 8) S32 0x8771f681 in
     let c = HH c d a b (x ! 11) S33 0x6d9d6122 in
     let b = HH b c d a (x ! 14) S34 0xfde5380c in
     let a = HH a b c d (x ! 1) S31 0xa4beea44 in
     let d = HH d a b c (x ! 4) S32 0x4bdecfa9 in
     let c = HH c d a b (x ! 7) S33 0xf6bb4b60 in
     let b = HH b c d a (x ! 10) S34 0xbebfbc70 in
     let a = HH a b c d (x ! 13) S31 0x289b7ec6 in
     let d = HH d a b c (x ! 0) S32 0xeaa127fa in
     let c = HH c d a b (x ! 3) S33 0xd4ef3085 in
     let b = HH b c d a (x ! 6) S34 0x4881d05 in
     let a = HH a b c d (x ! 9) S31 0xd9d4d039 in
     let d = HH d a b c (x ! 12) S32 0xe6db99e5 in
     let c = HH c d a b (x ! 15) S33 0x1fa27cf8 in
     let b = HH b c d a (x ! 2) S34 0xc4ac5665 in
     let a = II a b c d (x ! 0) S41 0xf4292244 in
     let d = II d a b c (x ! 7) S42 0x432aff97 in
     let c = II c d a b (x ! 14) S43 0xab9423a7 in
     let b = II b c d a (x ! 5) S44 0xfc93a039 in
     let a = II a b c d (x ! 12) S41 0x655b59c3 in
     let d = II d a b c (x ! 3) S42 0x8f0ccc92 in
     let c = II c d a b (x ! 10) S43 0xffeff47d in
     let b = II b c d a (x ! 1) S44 0x85845dd1 in
     let a = II a b c d (x ! 8) S41 0x6fa87e4f in
     let d = II d a b c (x ! 15) S42 0xfe2ce6e0 in
     let c = II c d a b (x ! 6) S43 0xa3014314 in
     let b = II b c d a (x ! 13) S44 0x4e0811a1 in
     let a = II a b c d (x ! 4) S41 0xf7537e82 in
     let d = II d a b c (x ! 11) S42 0xbd3af235 in
     let c = II c d a b (x ! 2) S43 0x2ad7d2bb in
     let b = II b c d a (x ! 9) S44 0xeb86d391 in
     (a, b, c, d))"

definition MD5Transform :: "md5_state \<Rightarrow> bytes \<Rightarrow> md5_state option" where
  "MD5Transform state block = do {
     x \<leftarrow> Decode block 64;
     (case (state, MD5_rounds x state) of ((s0, s1, s2, s3), (a, b, c, d)) \<Rightarrow>
        Some (s0 + a, s1 + b, s2 + c, s3 + d))
   }"

subsection \<open>Init, update, final\<close>

definition MD5Init :: "MD5_CTX \<Rightarrow> MD5_CTX" where
  "MD5Init ctx = ctx\<lparr>ctx_count := (0, 0),
     ctx_state := (0x67452301, 0xefcdab89, 0x98badcfe, 0x10325476)\<rparr>"

partial_function (option) MD5Update_loop ::
  "md5_state \<Rightarrow> bytes \<Rightarrow> u32 \<Rightarrow> u32 \<Rightarrow> (md5_state \<times> u32) option" where
  "MD5Update_loop st inp inputLen i =
     (if i + 63 < inputLen then
        Option.bind (MD5Transform st (drop (unat i) inp))
          (\<lambda>st'. MD5Update_loop st' inp inputLen (i + 64))
      else Some (st, i))"

definition MD5Update :: "MD5_CTX \<Rightarrow> bytes \<Rightarrow> u32 \<Rightarrow> MD5_CTX option" where
  "MD5Update ctx inp inputLen =
     (let index = drop_bit 3 (fst (ctx_count ctx)) AND 0x3F;
          lo = fst (ctx_count ctx) + push_bit 3 inputLen;
          hi = (if lo < push_bit 3 inputLen then snd (ctx_count ctx) + 1 else snd (ctx_count ctx));
          hi' = hi + drop_bit 29 inputLen;
          partLen = 64 - index
      in do {
        (st, buf, i, index') \<leftarrow>
          (if partLen \<le> inputLen then do {
             buf \<leftarrow> MD5_memcpy (ctx_buffer ctx) (unat index) inp 0 (unat partLen);
             st \<leftarrow> MD5Transform (ctx_state ctx) buf;
             (st', i) \<leftarrow> MD5Update_loop st inp inputLen partLen;
             Some (st', buf, i, 0)
           } else Some (ctx_state ctx, ctx_buffer ctx, 0, index));
        buf' \<leftarrow> MD5_memcpy buf (unat index') inp (unat i) (unat (inputLen - i));
        Some (ctx\<lparr>ctx_state := st, ctx_count := (lo, hi'), ctx_buffer := buf'\<rparr>)
      })"

definition MD5_zero :: MD5_CTX where
  "MD5_zero = \<lparr>ctx_state = (0, 0, 0, 0), ctx_count = (0, 0), ctx_buffer = replicate 64 0\<rparr>"

definition MD5Final :: "MD5_CTX \<Rightarrow> (bytes \<times> MD5_CTX) option" where
  "MD5Final ctx = do {
     bits \<leftarrow> Encode [fst (ctx_count ctx), snd (ctx_count ctx)] 8;
     let index = drop_bit 3 (fst (ctx_count ctx)) AND 0x3f;
     let padLen = (if index < 56 then 56 - index else 120 - index);
     ctx1 \<leftarrow> MD5Update ctx PADDING padLen;
     ctx2 \<leftarrow> MD5Update ctx1 bits 8;
     digest \<leftarrow> (case ctx_state ctx2 of (a, b, c, d) \<Rightarrow> Encode [a, b, c, d] 16);
     Some (digest, MD5_zero)
   }"

text \<open>
  The context is an uninitialised local of the two entry points: \<open>junk\<close> is whatever the
  stack holds. The callers use the entry points below, at one such value;
  \<open>MDBytes_junk\<close> shows that the choice is immaterial.
\<close>

definition MDBytes_on :: "MD5_CTX \<Rightarrow> bytes \<Rightarrow> u32 \<Rightarrow> bytes option" where
  "MDBytes_on junk data len = do {
     ctx \<leftarrow> MD5Update (MD5Init junk) data len;
     (digest, _) \<leftarrow> MD5Final ctx;
     Some digest
   }"

definition MDBytes :: "bytes \<Rightarrow> u32 \<Rightarrow> bytes option" where
  "MDBytes data len = MDBytes_on MD5_zero data len"

definition MD5Data :: "bytes \<Rightarrow> u32 \<Rightarrow> bytes option" where
  "MD5Data data len = do {
     ctx \<leftarrow> MD5Update (MD5Init MD5_zero) data len;
     (digest, _) \<leftarrow> MD5Final ctx;
     Some digest
   }"

subsection \<open>MD5 as RFC 1321 states it\<close>

definition md5_K :: "UINT4 list" where
  "md5_K =
     [0xd76aa478, 0xe8c7b756, 0x242070db, 0xc1bdceee,
      0xf57c0faf, 0x4787c62a, 0xa8304613, 0xfd469501,
      0x698098d8, 0x8b44f7af, 0xffff5bb1, 0x895cd7be,
      0x6b901122, 0xfd987193, 0xa679438e, 0x49b40821,
      0xf61e2562, 0xc040b340, 0x265e5a51, 0xe9b6c7aa,
      0xd62f105d, 0x2441453, 0xd8a1e681, 0xe7d3fbc8,
      0x21e1cde6, 0xc33707d6, 0xf4d50d87, 0x455a14ed,
      0xa9e3e905, 0xfcefa3f8, 0x676f02d9, 0x8d2a4c8a,
      0xfffa3942, 0x8771f681, 0x6d9d6122, 0xfde5380c,
      0xa4beea44, 0x4bdecfa9, 0xf6bb4b60, 0xbebfbc70,
      0x289b7ec6, 0xeaa127fa, 0xd4ef3085, 0x4881d05,
      0xd9d4d039, 0xe6db99e5, 0x1fa27cf8, 0xc4ac5665,
      0xf4292244, 0x432aff97, 0xab9423a7, 0xfc93a039,
      0x655b59c3, 0x8f0ccc92, 0xffeff47d, 0x85845dd1,
      0x6fa87e4f, 0xfe2ce6e0, 0xa3014314, 0x4e0811a1,
      0xf7537e82, 0xbd3af235, 0x2ad7d2bb, 0xeb86d391]"

definition md5_shift :: "nat list" where
  "md5_shift =
     [7, 12, 17, 22, 7, 12, 17, 22, 7, 12, 17, 22, 7, 12, 17, 22,
      5, 9, 14, 20, 5, 9, 14, 20, 5, 9, 14, 20, 5, 9, 14, 20,
      4, 11, 16, 23, 4, 11, 16, 23, 4, 11, 16, 23, 4, 11, 16, 23,
      6, 10, 15, 21, 6, 10, 15, 21, 6, 10, 15, 21, 6, 10, 15, 21]"

definition md5_g :: "nat \<Rightarrow> nat" where
  "md5_g i = (if i < 16 then i else if i < 32 then (5 * i + 1) mod 16
              else if i < 48 then (3 * i + 5) mod 16 else (7 * i) mod 16)"

definition md5_f :: "nat \<Rightarrow> UINT4 \<Rightarrow> UINT4 \<Rightarrow> UINT4 \<Rightarrow> UINT4" where
  "md5_f r b c d = (if r = 0 then F b c d else if r = 1 then G b c d
                    else if r = 2 then H b c d else I b c d)"

text \<open>A step: round number, message word, shift and additive constant.\<close>

definition md5_table :: "(nat \<times> nat \<times> nat \<times> UINT4) list" where
  "md5_table = map (\<lambda>i. (i div 16, md5_g i, md5_shift ! i, md5_K ! i)) [0..<64]"

definition md5_step :: "UINT4 list \<Rightarrow> nat \<times> nat \<times> nat \<times> UINT4 \<Rightarrow> md5_state \<Rightarrow> md5_state" where
  "md5_step x t st = (case (t, st) of ((r, g, s, k), (a, b, c, d)) \<Rightarrow>
     (d, b + word_rotl s (a + md5_f r b c d + k + x ! g), b, c))"

definition md5_compress :: "md5_state \<Rightarrow> UINT4 list \<Rightarrow> md5_state" where
  "md5_compress st x =
     (case (st, fold (md5_step x) md5_table st) of ((s0, s1, s2, s3), (a, b, c, d)) \<Rightarrow>
        (s0 + a, s1 + b, s2 + c, s3 + d))"

definition block_words :: "bytes \<Rightarrow> UINT4 list" where
  "block_words b = map (\<lambda>k. read_u32 b (4 * k)) [0..<16]"

function md5_absorb :: "md5_state \<Rightarrow> bytes \<Rightarrow> md5_state" where
  "md5_absorb st m =
     (if length m < 64 then st
      else md5_absorb (md5_compress st (block_words (take 64 m))) (drop 64 m))"
  by pat_completeness auto
termination by (relation "measure (\<lambda>(st, m). length m)") auto

declare md5_absorb.simps [simp del]

definition md5_init :: md5_state where
  "md5_init = (0x67452301, 0xefcdab89, 0x98badcfe, 0x10325476)"

definition md5_length :: "nat \<Rightarrow> bytes" where
  "md5_length n = le32 (of_nat (8 * n)) @ le32 (of_nat (8 * n div 2 ^ 32))"

definition md5_pad :: "bytes \<Rightarrow> bytes" where
  "md5_pad m = m @ 0x80 # replicate ((119 - length m mod 64) mod 64) 0 @ md5_length (length m)"

definition md5 :: "bytes \<Rightarrow> bytes" where
  "md5 m = (case md5_absorb md5_init (md5_pad m) of (a, b, c, d) \<Rightarrow>
     le32 a @ le32 b @ le32 c @ le32 d)"


subsection \<open>The unrolled transform is the table-driven one\<close>

lemma ROTATE_LEFT_rotl:
  fixes x :: UINT4
  assumes "0 < n" "n < 32"
  shows "ROTATE_LEFT x n = word_rotl n x"
proof (rule bit_word_eqI)
  fix m assume "m < LENGTH(32)"
  then have m: "m < 32" by simp
  show "bit (ROTATE_LEFT x n) m = bit (word_rotl n x) m"
  proof (cases "n \<le> m")
    case True
    then have "(m + (32 - n) mod 32) mod 32 = m - n"
      using m assms by (simp add: mod_if)
    moreover have "\<not> bit x (32 - n + m)"
      using True bit_imp_le_length [of x "32 - n + m"] assms by auto
    ultimately show ?thesis using m True assms
      by (auto simp: ROTATE_LEFT_def bit_simps)
  next
    case False
    then have "(m + (32 - n) mod 32) mod 32 = 32 - n + m"
      using m assms by (simp add: mod_less)
    moreover have "m + 32 - n = 32 + m - n" by simp
    ultimately show ?thesis using m False assms
      by (auto simp: ROTATE_LEFT_def bit_simps)
  qed
qed

text \<open>A step of the table computed with the macros of the code.\<close>

definition macro_step :: "UINT4 list \<Rightarrow> nat \<times> nat \<times> nat \<times> UINT4 \<Rightarrow> md5_state \<Rightarrow> md5_state" where
  "macro_step x t st = (case (t, st) of ((r, g, s, k), (a, b, c, d)) \<Rightarrow>
     (d, (if r = 0 then FF else if r = 1 then GG else if r = 2 then HH else II)
            a b c d (x ! g) s k, b, c))"

lemma macro_step_eq:
  assumes "0 < s" "s < 32"
  shows "macro_step x (r, g, s, k) st = md5_step x (r, g, s, k) st"
  using assms
  by (cases st) (simp add: macro_step_def md5_step_def md5_f_def FF_def GG_def HH_def II_def
      ROTATE_LEFT_rotl ac_simps)

lemma md5_table_unfold:
  "md5_table =
     [(0, 0, 7, 0xd76aa478), (0, 1, 12, 0xe8c7b756), (0, 2, 17, 0x242070db),
      (0, 3, 22, 0xc1bdceee), (0, 4, 7, 0xf57c0faf), (0, 5, 12, 0x4787c62a),
      (0, 6, 17, 0xa8304613), (0, 7, 22, 0xfd469501), (0, 8, 7, 0x698098d8),
      (0, 9, 12, 0x8b44f7af), (0, 10, 17, 0xffff5bb1), (0, 11, 22, 0x895cd7be),
      (0, 12, 7, 0x6b901122), (0, 13, 12, 0xfd987193), (0, 14, 17, 0xa679438e),
      (0, 15, 22, 0x49b40821), (1, 1, 5, 0xf61e2562), (1, 6, 9, 0xc040b340),
      (1, 11, 14, 0x265e5a51), (1, 0, 20, 0xe9b6c7aa), (1, 5, 5, 0xd62f105d),
      (1, 10, 9, 0x2441453), (1, 15, 14, 0xd8a1e681), (1, 4, 20, 0xe7d3fbc8),
      (1, 9, 5, 0x21e1cde6), (1, 14, 9, 0xc33707d6), (1, 3, 14, 0xf4d50d87),
      (1, 8, 20, 0x455a14ed), (1, 13, 5, 0xa9e3e905), (1, 2, 9, 0xfcefa3f8),
      (1, 7, 14, 0x676f02d9), (1, 12, 20, 0x8d2a4c8a), (2, 5, 4, 0xfffa3942),
      (2, 8, 11, 0x8771f681), (2, 11, 16, 0x6d9d6122), (2, 14, 23, 0xfde5380c),
      (2, 1, 4, 0xa4beea44), (2, 4, 11, 0x4bdecfa9), (2, 7, 16, 0xf6bb4b60),
      (2, 10, 23, 0xbebfbc70), (2, 13, 4, 0x289b7ec6), (2, 0, 11, 0xeaa127fa),
      (2, 3, 16, 0xd4ef3085), (2, 6, 23, 0x4881d05), (2, 9, 4, 0xd9d4d039),
      (2, 12, 11, 0xe6db99e5), (2, 15, 16, 0x1fa27cf8), (2, 2, 23, 0xc4ac5665),
      (3, 0, 6, 0xf4292244), (3, 7, 10, 0x432aff97), (3, 14, 15, 0xab9423a7),
      (3, 5, 21, 0xfc93a039), (3, 12, 6, 0x655b59c3), (3, 3, 10, 0x8f0ccc92),
      (3, 10, 15, 0xffeff47d), (3, 1, 21, 0x85845dd1), (3, 8, 6, 0x6fa87e4f),
      (3, 15, 10, 0xfe2ce6e0), (3, 6, 15, 0xa3014314), (3, 13, 21, 0x4e0811a1),
      (3, 4, 6, 0xf7537e82), (3, 11, 10, 0xbd3af235), (3, 2, 15, 0x2ad7d2bb),
      (3, 9, 21, 0xeb86d391)]"
  by code_simp

lemma fold_macro_step_Cons:
  "fold (macro_step x) ((0, g, s, k) # ts) (a, b, c, d) =
     (let t = FF a b c d (x ! g) s k in fold (macro_step x) ts (d, t, b, c))"
  "fold (macro_step x) ((1, g, s, k) # ts) (a, b, c, d) =
     (let t = GG a b c d (x ! g) s k in fold (macro_step x) ts (d, t, b, c))"
  "fold (macro_step x) ((2, g, s, k) # ts) (a, b, c, d) =
     (let t = HH a b c d (x ! g) s k in fold (macro_step x) ts (d, t, b, c))"
  "fold (macro_step x) ((3, g, s, k) # ts) (a, b, c, d) =
     (let t = II a b c d (x ! g) s k in fold (macro_step x) ts (d, t, b, c))"
  by (simp_all add: macro_step_def)

lemma fold_macro_step_Nil: "fold (macro_step x) [] st = st"
  by simp

lemma MD5_rounds_macro: "MD5_rounds x st = fold (macro_step x) md5_table st"
proof -
  obtain a b c d where st: "st = (a, b, c, d)" by (cases st)
  show ?thesis
    by (simp only: st MD5_rounds_def md5_table_unfold fold_macro_step_Cons
        fold_macro_step_Nil prod.case)
qed

lemma md5_table_shifts: "(r, g, s, k) \<in> set md5_table \<Longrightarrow> 0 < s \<and> s < 32"
  unfolding md5_table_unfold by auto

lemma MD5_rounds_fold: "MD5_rounds x st = fold (md5_step x) md5_table st"
  unfolding MD5_rounds_macro
  by (rule fold_cong) (auto intro!: macro_step_eq dest: md5_table_shifts)

subsection \<open>The byte loops\<close>

lemma MD5_memcpy_loop_eq:
  assumes "i \<le> len" "d + len \<le> length out" "s + len \<le> length inp"
  shows "MD5_memcpy_loop out d inp s len i =
           Some (blit out (d + i) (drop (s + i) (take (s + len) inp)))"
  using assms
proof (induction out d inp s len i rule: MD5_memcpy_loop.induct)
  case (1 out d inp s len i)
  show ?case
  proof (cases "i < len")
    case True
    let ?v = "inp ! (s + i)"
    have "drop (s + i) (take (s + len) inp) = ?v # drop (s + Suc i) (take (s + len) inp)"
      using True "1.prems" by (simp add: Cons_nth_drop_Suc [symmetric])
    moreover have "blit (out[d + i := ?v]) (d + Suc i) (drop (s + Suc i) (take (s + len) inp)) =
        blit out (d + i) (?v # drop (s + Suc i) (take (s + len) inp))"
      using True "1.prems"
      by (simp add: blit_def take_Suc_conv_app_nth)
    ultimately show ?thesis
      using True "1.prems" "1.IH" [OF True, of ?v "out[d + i := ?v]"]
      by (simp add: MD5_memcpy_loop.simps [of out d inp s len i] cmem)
  next
    case False
    then show ?thesis using "1.prems"
      by (subst MD5_memcpy_loop.simps) simp
  qed
qed

lemma MD5_memcpy_eq [cmem]:
  "d + len \<le> length out \<Longrightarrow> s + len \<le> length inp \<Longrightarrow>
   MD5_memcpy out d inp s len = Some (blit out d (take len (drop s inp)))"
  by (simp add: MD5_memcpy_def MD5_memcpy_loop_eq drop_take)

lemma Decode_loop_eq:
  assumes "len \<le> length b" "len mod 4 = 0" "j mod 4 = 0" "j \<le> len"
  shows "Decode_loop b len j out =
           Some (out @ map (\<lambda>k. read_u32 b (4 * k)) [j div 4..<len div 4])"
  using assms
proof (induction b len j out rule: Decode_loop.induct)
  case (1 b len j out)
  show ?case
  proof (cases "j < len")
    case True
    then have le: "j + 4 \<le> len" using "1.prems" by presburger
    have "4 * (j div 4) = j" using "1.prems" by presburger
    then have "read_u32 b (4 * (j div 4)) =
        of_le32 (b ! j) (b ! (j + 1)) (b ! (j + 2)) (b ! (j + 3))"
      by (simp only: read_u32_def)
    moreover have "j div 4 < len div 4" "(j + 4) div 4 = Suc (j div 4)"
      using le by presburger+
    then have "[j div 4..<len div 4] = j div 4 # [(j + 4) div 4..<len div 4]"
      by (simp only: upt_conv_Cons)
    ultimately show ?thesis
      using True le "1.prems"
        "1.IH" [OF True, of "b ! j" "b ! (j + 1)" "b ! (j + 2)" "b ! (j + 3)"]
      by (simp add: Decode_loop.simps [of b len j out] load_def)
  next
    case False
    then show ?thesis using "1.prems"
      by (subst Decode_loop.simps) simp
  qed
qed

lemma Decode_64: "64 \<le> length b \<Longrightarrow> Decode b 64 = Some (block_words b)"
  by (simp add: Decode_def Decode_loop_eq block_words_def)


lemma block_words_take: "64 \<le> length b \<Longrightarrow> block_words (take 64 b) = block_words b"
  by (auto simp: block_words_def read_u32_def)

lemma MD5Transform_eq:
  "64 \<le> length b \<Longrightarrow> MD5Transform st b = Some (md5_compress st (block_words (take 64 b)))"
  by (cases st)
    (simp add: MD5Transform_def Decode_64 MD5_rounds_fold md5_compress_def block_words_take
      split: prod.splits)

lemma ucast_low_byte: "(ucast (w AND 0xff) :: byte) = ucast (w :: UINT4)"
proof (rule bit_word_eqI)
  fix n assume "n < LENGTH(8)"
  then have "n \<in> {0, 1, 2, 3, 4, 5, 6, 7}" by auto
  then show "bit (ucast (w AND 0xff) :: byte) n = bit (ucast w :: byte) n"
    by (auto simp: bit_simps bit_numeral_rec)
qed

lemma Encode_2: "Encode [a, b] 8 = Some (le32 a @ le32 b)"
  by (simp add: Encode_def Encode_loop.simps load_def le32_def ucast_low_byte)

lemma Encode_4: "Encode [a, b, c, d] 16 = Some (le32 a @ le32 b @ le32 c @ le32 d)"
  by (simp add: Encode_def Encode_loop.simps load_def le32_def ucast_low_byte)

subsection \<open>Incremental absorption\<close>

lemma md5_absorb_short: "length m < 64 \<Longrightarrow> md5_absorb st m = st"
  by (subst md5_absorb.simps) simp

lemma md5_absorb_block:
  "length b = 64 \<Longrightarrow> md5_absorb st (b @ m) = md5_absorb (md5_compress st (block_words b)) m"
  by (subst md5_absorb.simps) simp

lemma md5_absorb_append:
  "length xs mod 64 = 0 \<Longrightarrow> md5_absorb st (xs @ ys) = md5_absorb (md5_absorb st xs) ys"
proof (induction st xs rule: md5_absorb.induct)
  case (1 st xs)
  show ?case
  proof (cases "length xs < 64")
    case True
    with "1.prems" have "xs = []" by simp
    then show ?thesis by (simp add: md5_absorb_short)
  next
    case False
    with "1.prems" have "length (drop 64 xs) mod 64 = 0"
      by (simp add: mod_if)
    with False "1.IH" show ?thesis
      by (simp add: md5_absorb.simps [of st "xs @ ys"] md5_absorb.simps [of st xs])
  qed
qed

text \<open>Only the complete blocks matter.\<close>

lemma md5_absorb_take: "md5_absorb st (take (64 * (length m div 64)) m) = md5_absorb st m"
proof -
  let ?k = "64 * (length m div 64)"
  have "?k \<le> length m" by simp
  then have l: "length (take ?k m) mod 64 = 0" "length (drop ?k m) < 64"
    by (simp, simp add: minus_mult_div_eq_mod)
  have "md5_absorb st m = md5_absorb st (take ?k m @ drop ?k m)" by simp
  also have "\<dots> = md5_absorb (md5_absorb st (take ?k m)) (drop ?k m)"
    by (rule md5_absorb_append) (rule l(1))
  finally show ?thesis using l(2) by (simp add: md5_absorb_short)
qed

text \<open>
  \<open>MD5Update_loop\<close> steps over the blocks of its input. The sum \<^verbatim>\<open>i + 63\<close> of the code is
  32 bits wide, so the input must end more than 64 bytes before \<open>2 ^ 32\<close>.
\<close>

lemma MD5Update_loop_eq:
  assumes "l + 64 < 2 ^ 32" "unat i \<le> l" "l \<le> length inp" "n = of_nat l"
  shows "MD5Update_loop st inp n i =
     Some (md5_absorb st (drop (unat i) (take l inp)),
           i + of_nat (64 * ((l - unat i) div 64)))"
  using assms
proof (induction "l - unat i" arbitrary: st i rule: less_induct)
  case less
  have un: "unat n = l"
    using less.prems by (simp add: unat_of_nat)
  have u63: "unat (i + 63) = unat i + 63"
    using less.prems by (simp add: unat_word_ariths)
  have u64: "unat (i + 64) = unat i + 64"
    using less.prems by (simp add: unat_word_ariths)
  have guard: "i + 63 < n \<longleftrightarrow> unat i + 64 \<le> l"
    by (simp add: word_less_nat_alt u63 un) arith
  show ?case
  proof (cases "unat i + 64 \<le> l")
    case True
    let ?b = "take 64 (drop (unat i) inp)"
    let ?st = "md5_compress st (block_words ?b)"
    let ?q = "(l - (unat i + 64)) div 64"
    have b: "length ?b = 64" using True less.prems by simp
    have "drop (unat i) (take l inp) = ?b @ drop (unat i + 64) (take l inp)"
    proof -
      have "take 64 (drop (unat i) (take l inp)) = ?b"
        using True by (simp add: drop_take min_def)
      moreover have "drop 64 (drop (unat i) (take l inp)) = drop (unat i + 64) (take l inp)"
        by (simp add: add.commute)
      ultimately show ?thesis by (metis append_take_drop_id)
    qed
    then have abs: "md5_absorb st (drop (unat i) (take l inp)) =
        md5_absorb ?st (drop (unat i + 64) (take l inp))"
      by (simp only: md5_absorb_block [OF b])
    have IH: "MD5Update_loop ?st inp n (i + 64) =
        Some (md5_absorb ?st (drop (unat i + 64) (take l inp)), i + 64 + of_nat (64 * ?q))"
      using less.hyps [of "i + 64" ?st] less.prems True by (simp add: u64)
    have "(l - unat i) div 64 = Suc ?q"
      using True by (simp add: div_if [of "l - unat i"])
    moreover have "MD5Transform st (drop (unat i) inp) = Some ?st"
      using True less.prems(3) by (simp add: MD5Transform_eq)
    ultimately show ?thesis
      using True IH abs
      by (simp add: MD5Update_loop.simps [of st inp n i] guard algebra_simps)
  next
    case False
    then show ?thesis
      by (simp add: MD5Update_loop.simps [of st inp n i] guard md5_absorb_short)
  qed
qed


lemma carry_div:
  fixes a b m :: nat
  assumes "0 < m"
  shows "(a + b) div m =
     (if (a + b) mod m < b mod m then a div m + 1 else a div m) + b div m"
proof -
  have less: "a mod m < m" "b mod m < m" using assms by simp_all
  have d: "(a + b) div m = a div m + b div m + (a mod m + b mod m) div m"
    by (rule div_add1_eq)
  have r: "(a + b) mod m = (a mod m + b mod m) mod m"
    by (rule mod_add_eq [symmetric])
  show ?thesis
  proof (cases "a mod m + b mod m < m")
    case True
    then show ?thesis unfolding d r by simp
  next
    case False
    moreover have "a mod m + b mod m - m < m" using less by arith
    ultimately have "(a mod m + b mod m) div m = 1"
      "(a mod m + b mod m) mod m = a mod m + b mod m - m"
      by (simp_all add: le_div_geq le_mod_geq)
    moreover have "a mod m + b mod m - m < b mod m" using less False by arith
    ultimately show ?thesis unfolding d r by simp
  qed
qed

subsection \<open>A context represents the message absorbed so far\<close>

definition md5_rep :: "MD5_CTX \<Rightarrow> bytes \<Rightarrow> bool" where
  "md5_rep ctx m \<longleftrightarrow>
     length (ctx_buffer ctx) = 64 \<and>
     ctx_state ctx = md5_absorb md5_init m \<and>
     ctx_count ctx = (of_nat (8 * length m), of_nat (8 * length m div 2 ^ 32)) \<and>
     take (length m mod 64) (ctx_buffer ctx) = drop (64 * (length m div 64)) m"

lemma md5_rep_init: "length (ctx_buffer junk) = 64 \<Longrightarrow> md5_rep (MD5Init junk) []"
  by (simp add: md5_rep_def MD5Init_def md5_init_def md5_absorb_short)

lemma md5_index:
  "unat (drop_bit 3 (of_nat (8 * n) :: u32) AND 0x3F) = n mod 64"
proof -
  have "unat (drop_bit 3 (of_nat (8 * n) :: u32) AND 0x3F) =
        unat (take_bit 6 (drop_bit 3 (of_nat (8 * n) :: u32)))"
    by (simp add: take_bit_eq_mask mask_numeral)
  also have "\<dots> = (8 * n mod 2 ^ 32) div 8 mod 64"
    by (simp only: unsigned_take_bit_eq unat_drop_bit_eq unat_of_nat)
      (simp add: take_bit_eq_mod drop_bit_eq_div)
  also have "(8 * n mod 2 ^ 32) div 8 = n mod 2 ^ 29"
    using mult_mod_right [of 8 n "2 ^ 29"] by simp
  also have "n mod 2 ^ 29 mod 64 = n mod 64"
    by (rule mod_mod_cancel) simp
  finally show ?thesis .
qed

lemma md5_count_step:
  fixes n l :: nat
  assumes "l < 2 ^ 32"
  defines "lo \<equiv> (of_nat (8 * n) :: u32)" and "hi \<equiv> (of_nat (8 * n div 2 ^ 32) :: u32)"
    and "len \<equiv> (of_nat l :: u32)"
  shows "lo + push_bit 3 len = of_nat (8 * (n + l))"
    and "(if lo + push_bit 3 len < push_bit 3 len then hi + 1 else hi) + drop_bit 29 len =
         of_nat (8 * (n + l) div 2 ^ 32)"
proof -
  have pb: "push_bit 3 len = of_nat (8 * l)"
    by (simp add: len_def push_bit_eq_mult)
  show lo: "lo + push_bit 3 len = of_nat (8 * (n + l))"
    unfolding pb lo_def by (simp add: algebra_simps)
  have db: "drop_bit 29 len = of_nat (8 * l div 2 ^ 32)"
  proof -
    have "unat (drop_bit 29 len) = l div 2 ^ 29"
      using assms(1) by (simp only: len_def unat_drop_bit_eq unat_of_nat) (simp add: drop_bit_eq_div)
    moreover have "l div 2 ^ 29 = 8 * l div 2 ^ 32" by simp
    ultimately show ?thesis by (metis of_nat_unat ucast_id)
  qed
  have carry: "lo + push_bit 3 len < push_bit 3 len \<longleftrightarrow>
      8 * (n + l) mod 2 ^ 32 < 8 * l mod 2 ^ 32"
    unfolding lo unfolding pb word_less_nat_alt unat_of_nat by simp
  have "8 * (n + l) div 2 ^ 32 =
      (if 8 * (n + l) mod 2 ^ 32 < 8 * l mod 2 ^ 32 then 8 * n div 2 ^ 32 + 1
       else 8 * n div 2 ^ 32) + 8 * l div (2 ^ 32 :: nat)"
    by (simp only: distrib_left) (rule carry_div, simp)
  then show "(if lo + push_bit 3 len < push_bit 3 len then hi + 1 else hi) + drop_bit 29 len =
         of_nat (8 * (n + l) div 2 ^ 32)"
    unfolding carry db hi_def by (simp only: of_nat_add of_nat_1 if_distrib split: if_split) simp
qed

lemma unat_small: "n < 2 ^ 32 \<Longrightarrow> unat (of_nat n :: u32) = n"
  by (simp add: unat_of_nat)

lemma blit_fill:
  "r + length s = length b \<Longrightarrow> blit b r s = take r b @ s"
  by (simp add: blit_def)

lemma md5_absorb_tail:
  assumes "take r b = drop (64 * (length m div 64)) m" "r = length m mod 64"
    "r + length s = 64" "length b = 64"
  shows "md5_compress (md5_absorb md5_init m) (block_words (blit b r s)) =
         md5_absorb md5_init (m @ s)"
proof -
  let ?k = "64 * (length m div 64)"
  have b: "blit b r s = drop ?k m @ s"
    using assms by (simp add: blit_fill)
  have "m @ s = take ?k m @ (drop ?k m @ s)" by simp
  also have "md5_absorb md5_init \<dots> = md5_absorb (md5_absorb md5_init (take ?k m)) (drop ?k m @ s)"
    by (rule md5_absorb_append) simp
  also have "\<dots> = md5_absorb (md5_absorb md5_init m) ((drop ?k m @ s) @ [])"
    by (simp add: md5_absorb_take)
  also have "\<dots> = md5_absorb (md5_compress (md5_absorb md5_init m) (block_words (drop ?k m @ s))) []"
    using assms by (intro md5_absorb_block) (simp add: minus_mult_div_eq_mod)
  finally show ?thesis by (simp add: b md5_absorb_short)
qed

text \<open>The two paths of \<open>MD5Update\<close>: the input fits the buffer, or completes a block.\<close>

lemma MD5Update_short:
  assumes rep: "md5_rep ctx m" and fits: "length m mod 64 + length inp < 64"
  shows "\<exists>ctx'. MD5Update ctx inp (of_nat (length inp)) = Some ctx' \<and> md5_rep ctx' (m @ inp)"
proof -
  let ?r = "length m mod 64" and ?l = "length inp"
  have l: "?l < 2 ^ 32" using fits by simp
  obtain lo hi where cnt: "ctx_count ctx = (lo, hi)" "lo = of_nat (8 * length m)"
      "hi = of_nat (8 * length m div 2 ^ 32)"
    using rep by (simp add: md5_rep_def)
  define n where "n = (of_nat ?l :: u32)"
  define lo' hi' where "lo' = (of_nat (8 * (length m + ?l)) :: u32)"
    and "hi' = (of_nat (8 * (length m + ?l) div 2 ^ 32) :: u32)"
  have c: "lo + push_bit 3 n = lo'"
      "(if lo' < push_bit 3 n then hi + 1 else hi) + drop_bit 29 n = hi'"
    using md5_count_step [OF l, of "length m"] by (simp_all only: cnt n_def lo'_def hi'_def)
  define ix where "ix = drop_bit 3 lo AND 0x3F"
  have ix: "unat ix = ?r" unfolding ix_def cnt by (rule md5_index)
  have "unat (64 - ix) = 64 - ?r"
    by (subst unat_sub) (simp_all add: word_le_nat_alt ix less_imp_le)
  then have guard: "\<not> 64 - ix \<le> n"
    using fits l by (simp add: word_le_nat_alt unat_small n_def)
  have buf: "length (ctx_buffer ctx) = 64" "take ?r (ctx_buffer ctx) = drop (64 * (length m div 64)) m"
    using rep by (simp_all add: md5_rep_def)
  have un: "unat n = ?l" using l by (simp add: n_def unat_small)
  have cpy: "MD5_memcpy (ctx_buffer ctx) ?r inp 0 ?l = Some (blit (ctx_buffer ctx) ?r inp)"
    using fits buf by (simp add: cmem)
  have len: "(length m + ?l) mod 64 = ?r + ?l" "(length m + ?l) div 64 = length m div 64"
    using fits by (simp_all add: mod_add_eq [symmetric, of "length m" ?l] div_add1_eq [of "length m" ?l])
  have tk: "take (?r + ?l) (blit (ctx_buffer ctx) ?r inp) = drop (64 * (length m div 64)) m @ inp"
    using buf by (subst take_blit_upto) (simp_all add: less_imp_le)
  have st: "md5_absorb md5_init (m @ inp) = md5_absorb md5_init m"
  proof -
    have "md5_absorb md5_init (m @ inp) = md5_absorb md5_init (take (64 * (length m div 64)) (m @ inp))"
      using md5_absorb_take [of md5_init "m @ inp"] len by simp
    then show ?thesis by (simp add: md5_absorb_take)
  qed
  have "MD5Update ctx inp n = Some (ctx\<lparr>ctx_state := ctx_state ctx, ctx_count := (lo', hi'),
      ctx_buffer := blit (ctx_buffer ctx) ?r inp\<rparr>)"
    using guard cpy l c(2)
    by (cases "lo' < push_bit 3 n")
      (simp_all add: MD5Update_def Let_def cnt(1) c(1) ix_def [symmetric] ix un)
  then show ?thesis
    using rep fits buf by (simp add: n_def md5_rep_def lo'_def hi'_def len tk st layout)
qed

text \<open>How an input that completes a block is split: up to the block, whole blocks, the rest.\<close>

lemma block_split:
  fixes k l :: nat
  assumes "64 \<le> k mod 64 + l"
  defines "p \<equiv> 64 - k mod 64"
  defines "i \<equiv> p + 64 * ((l - p) div 64)"
  shows "k mod 64 + p = 64" "0 < p" "p \<le> 64" "p \<le> l" "i \<le> l" "l - i < 64"
    "(k + l) mod 64 = l - i" "64 * ((k + l) div 64) = k + i"
proof -
  show p: "k mod 64 + p = 64" "0 < p" "p \<le> 64" "p \<le> l" using assms(1) by (simp_all add: p_def less_imp_le)
  define q s where "q = (l - p) div 64" and "s = (l - p) mod 64"
  have l: "64 * q + s = l - p" "s < 64" by (simp_all add: q_def s_def)
  have i: "i = p + 64 * q" by (simp add: i_def q_def)
  have s: "l = i + s" using l p(4) by (simp add: i)
  then show "i \<le> l" "l - i < 64" using l(2) by simp_all
  obtain h r where k: "k = 64 * h + r" "k mod 64 = r" by (metis mult_div_mod_eq)
  define K where "K = h + 1 + q"
  have K: "k + i = 64 * K" using p(1) k by (simp add: i K_def)
  then have e: "k + l = s + 64 * K" using s by simp
  show "(k + l) mod 64 = l - i" "64 * ((k + l) div 64) = k + i"
    using s l(2) K unfolding e by simp_all
qed

lemma MD5Update_long:
  assumes rep: "md5_rep ctx m" and long: "64 \<le> length m mod 64 + length inp"
    and bound: "length inp + 64 < 2 ^ 32"
  shows "\<exists>ctx'. MD5Update ctx inp (of_nat (length inp)) = Some ctx' \<and> md5_rep ctx' (m @ inp)"
proof -
  let ?r = "length m mod 64" and ?l = "length inp"
  define p where "p = 64 - ?r"
  define i where "i = p + 64 * ((?l - p) div 64)"
  note sp = block_split [OF long, folded p_def, folded i_def]
  note p = sp(1-4) and len = sp(7,8)
  have i: "i \<le> ?l" "?l - i < 64" "i + (?l - i) = ?l" using sp(5,6) by simp_all
  have l: "?l < 2 ^ 32" using bound by simp
  obtain lo hi where cnt: "ctx_count ctx = (lo, hi)" "lo = of_nat (8 * length m)"
      "hi = of_nat (8 * length m div 2 ^ 32)"
    using rep by (simp add: md5_rep_def)
  define n where "n = (of_nat ?l :: u32)"
  define lo' hi' where "lo' = (of_nat (8 * (length m + ?l)) :: u32)"
    and "hi' = (of_nat (8 * (length m + ?l) div 2 ^ 32) :: u32)"
  have c: "lo + push_bit 3 n = lo'"
      "(if lo' < push_bit 3 n then hi + 1 else hi) + drop_bit 29 n = hi'"
    using md5_count_step [OF l, of "length m"] by (simp_all only: cnt n_def lo'_def hi'_def)
  define ix where "ix = drop_bit 3 lo AND 0x3F"
  have ix: "unat ix = ?r" unfolding ix_def cnt by (rule md5_index)
  have up: "unat (64 - ix) = p"
    unfolding p_def by (subst unat_sub) (simp_all add: word_le_nat_alt ix less_imp_le)
  have guard: "64 - ix \<le> n"
    using p l by (simp add: word_le_nat_alt unat_small up n_def)
  have buf: "length (ctx_buffer ctx) = 64"
      "take ?r (ctx_buffer ctx) = drop (64 * (length m div 64)) m"
      "ctx_state ctx = md5_absorb md5_init m"
    using rep by (simp_all add: md5_rep_def)
  define b where "b = blit (ctx_buffer ctx) ?r (take p inp)"
  have lb: "length b = 64" using p buf by (simp add: b_def)
  have cpy: "MD5_memcpy (ctx_buffer ctx) ?r inp 0 p = Some b"
    using p buf by (simp add: cmem b_def)
  have tr: "MD5Transform (ctx_state ctx) b = Some (md5_absorb md5_init (m @ take p inp))"
    using md5_absorb_tail [OF buf(2) refl _ buf(1), of "take p inp"] p lb buf
    by (simp add: MD5Transform_eq b_def)
  have mp: "length (m @ take p inp) mod 64 = 0"
    using p by (simp add: mod_add_left_eq [symmetric, of "length m"])
  have pw: "64 - ix = of_nat p" using up by (metis of_nat_unat ucast_id)
  have pn: "unat (of_nat p :: u32) = p" using p by (simp add: unat_small)
  have ab: "md5_absorb (md5_absorb md5_init (m @ take p inp)) (drop p inp) = md5_absorb md5_init (m @ inp)"
    using md5_absorb_append [OF mp, of md5_init "drop p inp"] by simp
  have lp: "MD5Update_loop (md5_absorb md5_init (m @ take p inp)) inp n (of_nat p) =
      Some (md5_absorb md5_init (m @ inp), of_nat i)"
    using p(4) by (subst MD5Update_loop_eq [OF bound _ _ n_def]) (simp_all add: pn ab i_def)
  have ui: "unat (of_nat i :: u32) = i" "unat (n - of_nat i) = ?l - i"
    using i l by (simp add: unat_small, simp add: n_def unat_small flip: of_nat_diff)
  have cpy2: "MD5_memcpy b 0 inp i (?l - i) = Some (blit b 0 (drop i inp))"
    using i lb by (simp add: cmem)
  have tk: "take (?l - i) (blit b 0 (drop i inp)) = drop i inp"
    by (simp add: blit_def)
  have "MD5Update ctx inp n = Some (ctx\<lparr>ctx_state := md5_absorb md5_init (m @ inp),
      ctx_count := (lo', hi'), ctx_buffer := blit b 0 (drop i inp)\<rparr>)"
    using guard c(2)
    by (cases "lo' < push_bit 3 n")
      (simp_all add: MD5Update_def Let_def cnt(1) c(1) ix_def [symmetric] ix up pw pn cpy tr lp ui cpy2)
  then show ?thesis
    using i lb by (simp add: n_def md5_rep_def lo'_def hi'_def len tk layout)
qed

lemma md5_rep_update:
  assumes "md5_rep ctx m" "length inp + 64 < 2 ^ 32"
  shows "\<exists>ctx'. MD5Update ctx inp (of_nat (length inp)) = Some ctx' \<and> md5_rep ctx' (m @ inp)"
proof (cases "length m mod 64 + length inp < 64")
  case True
  then show ?thesis by (rule MD5Update_short [OF assms(1)])
next
  case False
  then show ?thesis using assms by (intro MD5Update_long) simp_all
qed

text \<open>Only the first \<open>inputLen\<close> bytes of the input are read.\<close>

lemma MD5Update_take:
  assumes "length (ctx_buffer ctx) = 64" "l \<le> length inp" "l + 64 < 2 ^ 32"
  shows "MD5Update ctx inp (of_nat l) = MD5Update ctx (take l inp) (of_nat l)"
proof -
  define lo where "lo = fst (ctx_count ctx)"
  define ix where "ix = drop_bit 3 lo AND 0x3F"
  define n where "n = (of_nat l :: u32)"
  have un: "unat n = l" using assms(3) by (simp add: n_def unat_small)
  have ix: "unat ix < 64"
  proof -
    have "ix = take_bit 6 (drop_bit 3 lo)"
      by (simp add: ix_def take_bit_eq_mask mask_numeral)
    then have "unat ix = take_bit 6 (unat (drop_bit 3 lo))"
      by (simp only: unsigned_take_bit_eq)
    then show ?thesis by (simp add: take_bit_eq_mod)
  qed
  define p where "p = 64 - unat ix"
  have up: "unat (64 - ix) = p"
    unfolding p_def using ix by (subst unat_sub) (simp_all add: word_le_nat_alt)
  have p: "unat ix + p = 64" using ix by (simp add: p_def)
  show ?thesis
  proof (cases "64 - ix \<le> n")
    case True
    then have pl: "p \<le> l" by (simp add: word_le_nat_alt up un)
    define s where "s = (l - p) mod 64"
    define i where "i = p + 64 * ((l - p) div 64)"
    have "64 * ((l - p) div 64) + s = l - p" by (simp add: s_def)
    then have i: "i + s = l" using pl by (simp add: i_def)
    have ui: "unat (of_nat i :: u32) = i" "unat (n - of_nat i) = s"
      using i assms(3) by (simp add: unat_small, auto simp: n_def unat_small simp flip: of_nat_diff)
    have e: "64 - ix + of_nat (64 * ((l - p) div 64)) = of_nat i"
      using up unfolding i_def by (metis of_nat_add of_nat_unat ucast_id)
    have lp: "MD5Update_loop st inp n (64 - ix) =
        Some (md5_absorb st (drop p (take l inp)), of_nat i)"
      "MD5Update_loop st (take l inp) n (64 - ix) =
        Some (md5_absorb st (drop p (take l inp)), of_nat i)" for st
      using MD5Update_loop_eq [of l "64 - ix" inp n st] MD5Update_loop_eq [of l "64 - ix" "take l inp" n st]
        assms pl e by (simp_all add: up n_def)
    have cp: "MD5_memcpy (ctx_buffer ctx) (unat ix) inp 0 p =
        Some (blit (ctx_buffer ctx) (unat ix) (take p inp))"
      "MD5_memcpy (ctx_buffer ctx) (unat ix) (take l inp) 0 p =
        Some (blit (ctx_buffer ctx) (unat ix) (take p inp))"
      using p pl assms by (simp_all add: cmem min_def)
    have cp2: "MD5_memcpy b 0 inp i s = MD5_memcpy b 0 (take l inp) i s"
      if "length b = 64" for b
      using that i assms(2) s_def by (simp add: cmem drop_take)
    show ?thesis
      using True cp2 p assms pl
      by (simp add: MD5Update_def Let_def lo_def [symmetric] ix_def [symmetric] n_def [symmetric]
          up cp lp ui layout)
  next
    case False
    then have "l < p" by (simp add: word_le_nat_alt up un)
    then have "MD5_memcpy (ctx_buffer ctx) (unat ix) inp 0 l =
        MD5_memcpy (ctx_buffer ctx) (unat ix) (take l inp) 0 l"
      using assms p by (simp add: cmem)
    then show ?thesis
      using False
      by (simp add: MD5Update_def Let_def lo_def [symmetric] ix_def [symmetric] n_def [symmetric] un)
  qed
qed

subsection \<open>The digest\<close>

lemma unat_eq_of_nat: "unat (w :: u32) = n \<Longrightarrow> w = of_nat n"
  by auto

lemma md5_rep_index:
  "md5_rep ctx m \<Longrightarrow> unat (drop_bit 3 (fst (ctx_count ctx)) AND 0x3F) = length m mod 64"
  unfolding md5_rep_def by (simp only: fst_conv md5_index)

lemma MD5Final_eq:
  assumes rep: "md5_rep ctx m"
  shows "MD5Final ctx = Some (md5 m, MD5_zero)"
proof -
  define r where "r = length m mod 64"
  define ix where "ix = drop_bit 3 (fst (ctx_count ctx)) AND 0x3F"
  have ix: "unat ix = r" unfolding ix_def r_def by (rule md5_rep_index [OF rep])
  define p where "p = (if r < 56 then 56 - r else 120 - r)"
  have r: "r < 64" by (simp add: r_def)
  have up: "unat (if ix < 56 then 56 - ix else 120 - ix) = p"
  proof (cases "r < 56")
    case True
    then show ?thesis
      by (simp add: p_def word_less_nat_alt ix unat_sub word_le_nat_alt less_imp_le)
  next
    case False
    moreover have "ix \<le> 120" using r by (simp add: word_le_nat_alt ix)
    ultimately show ?thesis
      by (simp add: p_def word_less_nat_alt ix unat_sub)
  qed
  then have pw: "(if ix < 56 then 56 - ix else 120 - ix) = of_nat p"
    by (rule unat_eq_of_nat)
  have p: "0 < p" "p \<le> 64"
    using r by (auto simp: p_def)
  have bits: "Encode [fst (ctx_count ctx), snd (ctx_count ctx)] 8 = Some (md5_length (length m))"
    using rep by (simp add: md5_rep_def Encode_2 md5_length_def)
  have pad: "take p PADDING = 0x80 # replicate (p - 1) 0"
    using p by (cases p) (simp_all add: PADDING_def)
  have lpad: "length (take p PADDING) = p" using p by (simp add: PADDING_def)
  have "length (ctx_buffer ctx) = 64" using rep by (simp add: md5_rep_def)
  then have "MD5Update ctx PADDING (of_nat p) = MD5Update ctx (take p PADDING) (of_nat p)"
    using p by (intro MD5Update_take) (simp_all add: PADDING_def)
  then obtain c1 where c1: "MD5Update ctx PADDING (of_nat p) = Some c1"
      "md5_rep c1 (m @ take p PADDING)"
    using md5_rep_update [OF rep, of "take p PADDING", unfolded lpad] p by auto
  obtain c2 where c2: "MD5Update c1 (md5_length (length m)) 8 = Some c2"
      "md5_rep c2 ((m @ take p PADDING) @ md5_length (length m))"
    using md5_rep_update [OF c1(2), of "md5_length (length m)"] by (auto simp: md5_length_def)
  have "p - 1 = (119 - r) mod 64"
  proof (cases "r < 56")
    case True
    then have "119 - r = (p - 1) + 64" "p - 1 < 64" by (simp_all add: p_def)
    then show ?thesis by simp
  next
    case False
    then have "119 - r = p - 1" "p - 1 < 64" using r by (simp_all add: p_def)
    then show ?thesis by simp
  qed
  then have "(m @ take p PADDING) @ md5_length (length m) = md5_pad m"
    by (simp add: md5_pad_def pad flip: r_def)
  then have "ctx_state c2 = md5_absorb md5_init (md5_pad m)"
    using c2(2) by (simp add: md5_rep_def)
  then show ?thesis
    by (simp add: MD5Final_def bits Let_def ix_def [symmetric] pw c1 c2 Encode_4 md5_def
        split: prod.splits)
qed

lemma length_md5 [simp, layout]: "length (md5 m) = 16"
  by (simp add: md5_def split: prod.splits)

lemma MDBytes_on_eq:
  assumes "length (ctx_buffer junk) = 64" "l + 64 < 2 ^ 32" "l \<le> length data"
  shows "MDBytes_on junk data (of_nat l) = Some (md5 (take l data))"
proof -
  have "MD5Update (MD5Init junk) data (of_nat l) = MD5Update (MD5Init junk) (take l data) (of_nat l)"
    using assms by (intro MD5Update_take) (simp_all add: MD5Init_def)
  then obtain ctx where "MD5Update (MD5Init junk) data (of_nat l) = Some ctx"
      "md5_rep ctx (take l data)"
    using md5_rep_update [OF md5_rep_init [OF assms(1)], of "take l data"] assms by auto
  then show ?thesis by (simp add: MDBytes_on_def MD5Final_eq)
qed

lemma MDBytes_eq:
  "l + 64 < 2 ^ 32 \<Longrightarrow> l \<le> length data \<Longrightarrow> MDBytes data (of_nat l) = Some (md5 (take l data))"
  unfolding MDBytes_def by (rule MDBytes_on_eq) (simp_all add: MD5_zero_def)

lemma MD5Data_MDBytes: "MD5Data data len = MDBytes data len"
  by (simp add: MD5Data_def MDBytes_def MDBytes_on_def)


subsection \<open>Evaluation on the test vector of the RFC\<close>

lemma replicate_numeral:
  "replicate (numeral k) x = x # replicate (pred_numeral k) x"
  by (simp add: numeral_eq_Suc)

definition abc_words :: "UINT4 list" where
  "abc_words = [0x80636261, 0, 0, 0, 0, 0, 0, 0, 0, 0, 0, 0, 0, 0, 24, 0]"

lemma abc_block: "block_words (md5_pad (str ''abc'')) = abc_words" "length (md5_pad (str ''abc'')) = 64"
  by (simp_all add: md5_pad_def md5_length_def le32_def str_def block_words_def abc_words_def
      read_u32_def of_le32_def upt_rec replicate_numeral)

lemma abc_round_1: "fold (macro_step abc_words)
     [(0, 0, 7, 0xd76aa478), (0, 1, 12, 0xe8c7b756), (0, 2, 17, 0x242070db),
      (0, 3, 22, 0xc1bdceee), (0, 4, 7, 0xf57c0faf), (0, 5, 12, 0x4787c62a),
      (0, 6, 17, 0xa8304613), (0, 7, 22, 0xfd469501), (0, 8, 7, 0x698098d8),
      (0, 9, 12, 0x8b44f7af), (0, 10, 17, 0xffff5bb1), (0, 11, 22, 0x895cd7be),
      (0, 12, 7, 0x6b901122), (0, 13, 12, 0xfd987193), (0, 14, 17, 0xa679438e),
      (0, 15, 22, 0x49b40821)]
     (0x67452301, 0xefcdab89, 0x98badcfe, 0x10325476) =
     (0xdda9b9a6, 0x72aff2e0, 0xe396856b, 0xa1051895)"
  by (simp add: macro_step_def FF_def F_def ROTATE_LEFT_def abc_words_def)

lemma abc_round_2: "fold (macro_step abc_words)
     [(1, 1, 5, 0xf61e2562), (1, 6, 9, 0xc040b340), (1, 11, 14, 0x265e5a51),
      (1, 0, 20, 0xe9b6c7aa), (1, 5, 5, 0xd62f105d), (1, 10, 9, 0x2441453),
      (1, 15, 14, 0xd8a1e681), (1, 4, 20, 0xe7d3fbc8), (1, 9, 5, 0x21e1cde6),
      (1, 14, 9, 0xc33707d6), (1, 3, 14, 0xf4d50d87), (1, 8, 20, 0x455a14ed),
      (1, 13, 5, 0xa9e3e905), (1, 2, 9, 0xfcefa3f8), (1, 7, 14, 0x676f02d9),
      (1, 12, 20, 0x8d2a4c8a)]
     (0xdda9b9a6, 0x72aff2e0, 0xe396856b, 0xa1051895) =
     (0x790a77fb, 0x726342d3, 0xa62884aa, 0x9f47e4f8)"
  by (simp add: macro_step_def GG_def G_def ROTATE_LEFT_def abc_words_def)

lemma abc_round_3: "fold (macro_step abc_words)
     [(2, 5, 4, 0xfffa3942), (2, 8, 11, 0x8771f681), (2, 11, 16, 0x6d9d6122),
      (2, 14, 23, 0xfde5380c), (2, 1, 4, 0xa4beea44), (2, 4, 11, 0x4bdecfa9),
      (2, 7, 16, 0xf6bb4b60), (2, 10, 23, 0xbebfbc70), (2, 13, 4, 0x289b7ec6),
      (2, 0, 11, 0xeaa127fa), (2, 3, 16, 0xd4ef3085), (2, 6, 23, 0x4881d05),
      (2, 9, 4, 0xd9d4d039), (2, 12, 11, 0xe6db99e5), (2, 15, 16, 0x1fa27cf8),
      (2, 2, 23, 0xc4ac5665)]
     (0x790a77fb, 0x726342d3, 0xa62884aa, 0x9f47e4f8) =
     (0x7f2e507b, 0x7beb9700, 0x8fae6399, 0x99d9679d)"
  by (simp add: macro_step_def HH_def H_def ROTATE_LEFT_def abc_words_def)

lemma abc_round_4: "fold (macro_step abc_words)
     [(3, 0, 6, 0xf4292244), (3, 7, 10, 0x432aff97), (3, 14, 15, 0xab9423a7),
      (3, 5, 21, 0xfc93a039), (3, 12, 6, 0x655b59c3), (3, 3, 10, 0x8f0ccc92),
      (3, 10, 15, 0xffeff47d), (3, 1, 21, 0x85845dd1), (3, 8, 6, 0x6fa87e4f),
      (3, 15, 10, 0xfe2ce6e0), (3, 6, 15, 0xa3014314), (3, 13, 21, 0x4e0811a1),
      (3, 4, 6, 0xf7537e82), (3, 11, 10, 0xbd3af235), (3, 2, 15, 0x2ad7d2bb),
      (3, 9, 21, 0xeb86d391)]
     (0x7f2e507b, 0x7beb9700, 0x8fae6399, 0x99d9679d) =
     (0x310ade8f, 0xc08226b3, 0xe484b9d8, 0x624d8cb2)"
  by (simp add: macro_step_def II_def I_def ROTATE_LEFT_def abc_words_def)

lemma fold_append_eq: "fold f xs s = t \<Longrightarrow> fold f ys t = u \<Longrightarrow> fold f (xs @ ys) s = u"
  by simp

lemma abc_rounds: "fold (macro_step abc_words) md5_table md5_init =
    (0x310ade8f, 0xc08226b3, 0xe484b9d8, 0x624d8cb2)"
  using fold_append_eq [OF fold_append_eq [OF fold_append_eq [OF abc_round_1 abc_round_2] abc_round_3]
      abc_round_4]
  by (simp only: md5_table_unfold md5_init_def append.simps)

lemma md5_abc: "md5 (str ''abc'') =
  [0x90, 0x01, 0x50, 0x98, 0x3c, 0xd2, 0x4f, 0xb0, 0xd6, 0x96, 0x3f, 0x7d, 0x28, 0xe1, 0x7f, 0x72]"
proof -
  have "md5_absorb md5_init (md5_pad (str ''abc'')) = md5_compress md5_init abc_words"
    using md5_absorb_block [OF abc_block(2), of md5_init "[]"]
    by (simp add: abc_block md5_absorb_short)
  also have "\<dots> = (0x98500190, 0xb04fd23c, 0x7d3f96d6, 0x727fe128)"
  proof -
    have "fold (md5_step abc_words) md5_table md5_init = fold (macro_step abc_words) md5_table md5_init"
      by (simp only: flip: MD5_rounds_fold MD5_rounds_macro)
    then show ?thesis by (simp add: md5_compress_def abc_rounds) (simp add: md5_init_def)
  qed
  finally show ?thesis by (simp add: md5_def le32_def)
qed

subsection \<open>Properties\<close>

text \<open>
  the unrolled 64 lines of \<^verbatim>\<open>MD5Transform\<close> compute the compression function of
  RFC 1321, given by its four tables, on every 64-byte block and every chaining value.
\<close>

lemma MD5Transform_compress:
  assumes "length block = 64"
  shows "MD5Transform st (block @ rest) = Some (md5_compress st (block_words block))"
  using assms by (simp add: MD5Transform_eq)

text \<open>
  \<^verbatim>\<open>MD5Update\<close> is incremental. A context that stands for the message absorbed so
  far stands for the message extended by the new bytes afterwards, whatever the lengths of
  the two parts (only the new part must end before the 32-bit index of the block loop wraps).
\<close>

lemma MD5Update_incremental:
  assumes "md5_rep ctx m" and "length inp + 64 < 2 ^ 32"
  shows "\<exists>ctx'. MD5Update ctx inp (of_nat (length inp)) = Some ctx' \<and> md5_rep ctx' (m @ inp)"
  using assms by (rule md5_rep_update)

text \<open>
  C6: \<^verbatim>\<open>MDBytes\<close> returns the MD5 digest (RFC 1321) of the first \<open>l\<close> bytes of its
  argument, never leaves its buffers, and does not depend on the uninitialised context on
  its stack.
\<close>

theorem MDBytes_correct:
  assumes "length (ctx_buffer junk) = 64" and "l + 64 < 2 ^ 32" and "l \<le> length data"
  shows "MDBytes_on junk data (of_nat l) = Some (md5 (take l data))"
  using assms by (rule MDBytes_on_eq)

theorem MDBytes_correct_witness:
  "MDBytes_on MD5_zero (str ''abc'') 3 =
     Some [0x90, 0x01, 0x50, 0x98, 0x3c, 0xd2, 0x4f, 0xb0, 0xd6, 0x96, 0x3f, 0x7d, 0x28, 0xe1, 0x7f, 0x72]"
  using MDBytes_correct [of MD5_zero 3 "str ''abc''"]
  by (simp add: md5_abc) (simp add: MD5_zero_def)

text \<open>
  \<^verbatim>\<open>ROTATE_LEFT\<close> rotates exactly when \<^verbatim>\<open>UINT4\<close> has 32 bits, as its comment says; with
  the 64-bit \<^verbatim>\<open>unsigned long\<close> of an LP64 target the macro is no rotation and the digest is
  not MD5.
\<close>

lemma ROTATE_LEFT_width:
  "(\<forall>n x. 0 < n \<and> n < 32 \<longrightarrow> ROTATE_LEFT (x :: 32 word) n = word_rotl n x) \<and>
   ROTATE_LEFT (0x80000000 :: 64 word) 1 \<noteq> ucast (word_rotl 1 (0x80000000 :: 32 word))"
proof
  show "\<forall>n x. 0 < n \<and> n < 32 \<longrightarrow> ROTATE_LEFT (x :: 32 word) n = word_rotl n x"
    by (auto simp: ROTATE_LEFT_rotl)
  have "word_rotl 1 (0x80000000 :: 32 word) = ROTATE_LEFT 0x80000000 1"
    by (rule ROTATE_LEFT_rotl [symmetric]) simp_all
  then show "ROTATE_LEFT (0x80000000 :: 64 word) 1 \<noteq> ucast (word_rotl 1 (0x80000000 :: 32 word))"
    by (simp add: ROTATE_LEFT_def)
qed

end
