(* ===== verification/Frame.thy ===== *)
theory Frame
  imports Md5
begin

text \<open>
  The frame of the wire protocol: \<^verbatim>\<open>FrameHeader\<close> of \<^verbatim>\<open>clientbase/clientcommon.h\<close> as it lies in
  memory (16 bytes of hash, 8 bytes of application flag, two little-endian 32-bit fields)
  and \<^verbatim>\<open>ClientBase::CreateFrame\<close>. \<open>frame\<close> is the abstract layout; the receiver's checks on
  a frame are stated against it.
\<close>

definition APP_FLAG :: bytes where
  "APP_FLAG = str ''CX180'' @ [0]"

record FrameHeader =
  MD5Hash :: bytes
  AppFlag :: bytes
  DataLength :: u32
  Type :: u32

text \<open>The constructor leaves the two integers as they are in the allocated memory.\<close>

definition FrameHeader_new :: "u32 \<Rightarrow> u32 \<Rightarrow> FrameHeader" where
  "FrameHeader_new junk1 junk2 =
     \<lparr>MD5Hash = replicate 16 0, AppFlag = replicate 8 0, DataLength = junk1, Type = junk2\<rparr>"

definition header_bytes :: "FrameHeader \<Rightarrow> bytes" where
  "header_bytes fh = MD5Hash fh @ AppFlag fh @ le32 (DataLength fh) @ le32 (Type fh)"

definition header_at :: "bytes \<Rightarrow> FrameHeader" where
  "header_at b = \<lparr>MD5Hash = take 16 b, AppFlag = take 8 (drop 16 b),
     DataLength = read_u32 b 24, Type = read_u32 b 28\<rparr>"

text \<open>
  The result is \<open>Some None\<close> for the null pointer. \<^verbatim>\<open>sizeof(FrameHeader) + length\<close> and
  \<^verbatim>\<open>length + 16\<close> are 32-bit sums; the test \<^verbatim>\<open>length < 0\<close> on an unsigned is never true.
\<close>

definition CreateFrame ::
  "bytes \<Rightarrow> bytes option \<Rightarrow> u32 \<Rightarrow> u32 \<Rightarrow> bytes option option" where
  "CreateFrame appFlag data len type =
     (if data = None \<and> len \<noteq> 0 then Some None
      else do {
        let fh = FrameHeader_new 0 0;
        let buffer = replicate (unat (32 + len)) 0;
        flag \<leftarrow> strncpy (AppFlag fh) APP_FLAG (strlen APP_FLAG);
        let fh = fh\<lparr>AppFlag := flag, DataLength := len, Type := type\<rparr>;
        buffer \<leftarrow> memcpy buffer 0 (header_bytes fh) 0 32;
        buffer \<leftarrow> (case data of
                    Some d \<Rightarrow> if 0 < len then memcpy buffer 32 d 0 (unat len) else Some buffer
                  | None \<Rightarrow> Some buffer);
        md5hash \<leftarrow> MDBytes (drop 16 buffer) (len + 16);
        buffer \<leftarrow> memcpy buffer 0 md5hash 0 16;
        Some (Some buffer)
      })"

subsection \<open>The layout of a frame\<close>

definition frame_body :: "u32 \<Rightarrow> bytes \<Rightarrow> bytes" where
  "frame_body type data =
     str ''CX180'' @ [0, 0, 0] @ le32 (of_nat (length data)) @ le32 type @ data"

definition frame_hash :: "u32 \<Rightarrow> bytes \<Rightarrow> bytes" where
  "frame_hash type data = md5 (frame_body type data)"

definition frame :: "u32 \<Rightarrow> bytes \<Rightarrow> bytes" where
  "frame type data = frame_hash type data @ frame_body type data"

text \<open>A header-only frame that carries a given hash: what \<^verbatim>\<open>Reply\<close> sends.\<close>

definition reply_frame :: "bytes \<Rightarrow> u32 \<Rightarrow> bytes" where
  "reply_frame hash type = hash @ str ''CX180'' @ [0, 0, 0] @ le32 0 @ le32 type"

lemma length_frame_body [simp, layout]: "length (frame_body t d) = 16 + length d"
  by (simp add: frame_body_def)

lemma length_frame_hash [simp, layout]: "length (frame_hash t d) = 16"
  by (simp add: frame_hash_def)

lemma length_frame [simp, layout]: "length (frame t d) = 32 + length d"
  by (simp add: frame_def)

lemma length_reply_frame [simp, layout]: "length h = 16 \<Longrightarrow> length (reply_frame h t) = 32"
  by (simp add: reply_frame_def)

lemma APP_FLAG_len [simp]: "strlen APP_FLAG = 5"
  by (simp add: APP_FLAG_def strlen_def cstr_def str_def)

lemma cstr_APP_FLAG: "cstr APP_FLAG = str ''CX180''"
  by (simp add: APP_FLAG_def cstr_def str_def)

lemma strncpy_APP_FLAG:
  "strncpy (replicate 8 0) APP_FLAG 5 = Some (str ''CX180'' @ [0, 0, 0])"
  unfolding strncpy_def cstr_APP_FLAG
  by (simp add: APP_FLAG_def blit_def str_def numeral_eq_Suc)

lemma length_header_bytes [layout]:
  "length (MD5Hash fh) = 16 \<Longrightarrow> length (AppFlag fh) = 8 \<Longrightarrow> length (header_bytes fh) = 32"
  by (simp add: header_bytes_def)

lemma header_at_layout [layout]:
  assumes "length h = 16" "length a = 8"
  shows "header_at (h @ a @ le32 l @ le32 t @ d) =
           \<lparr>MD5Hash = h, AppFlag = a, DataLength = l, Type = t\<rparr>"
proof -
  have "read_u32 (h @ a @ le32 l @ le32 t @ d) 24 = l"
    using read_u32_append [of "h @ a" 24 l] assms by simp
  moreover have "read_u32 (h @ a @ le32 l @ le32 t @ d) 28 = t"
    using read_u32_append [of "h @ a @ le32 l" 28 t] assms by simp
  ultimately show ?thesis using assms by (simp add: header_at_def)
qed

lemma CreateFrame_eq:
  assumes "length d + 96 < 2 ^ 32"
  shows "CreateFrame flag (Some d) (of_nat (length d)) t = Some (Some (frame t d))"
proof -
  let ?n = "length d"
  let ?l = "of_nat (length d) :: u32"
  have un: "unat ?l = ?n" using assms by (simp add: unat_of_nat)
  have un32: "unat (32 + ?l) = 32 + ?n" using assms un by (simp add: unat_word_ariths)
  define h where "h = replicate 16 (0::byte) @ (str ''CX180'' @ [0, 0, 0]) @ le32 ?l @ le32 t"
  have lh: "length h = 32" by (simp add: h_def)
  have b0: "memcpy (replicate (32 + ?n) 0) 0 h 0 32 = Some (h @ replicate ?n 0)"
    using lh by (simp add: memcpy_def blit_def)
  have b1: "(if 0 < ?l then memcpy (h @ replicate ?n 0) 32 d 0 ?n else Some (h @ replicate ?n 0))
      = Some (h @ d)"
    using lh un by (auto simp: memcpy_def blit_def word_less_nat_alt)
  have body: "drop 16 (h @ d) = frame_body t d"
    by (simp add: h_def frame_body_def)
  have l16: "?l + 16 = of_nat (16 + ?n)" by simp
  have md: "MDBytes (drop 16 (h @ d)) (?l + 16) = Some (frame_hash t d)"
    unfolding body l16 using assms
    by (subst MDBytes_eq) (simp_all add: frame_hash_def)
  have b2: "memcpy (h @ d) 0 (frame_hash t d) 0 16 = Some (frame t d)"
    using lh body by (simp add: memcpy_def blit_def frame_def)
  have hb: "header_bytes (FrameHeader_new 0 0\<lparr>AppFlag := str ''CX180'' @ [0, 0, 0],
      DataLength := ?l, Type := t\<rparr>) = h"
    by (simp add: header_bytes_def FrameHeader_new_def h_def)
  show ?thesis
    unfolding CreateFrame_def Let_def un un32 option.case APP_FLAG_len
    by (simp add: FrameHeader_new_def strncpy_APP_FLAG b1 md b2 un
        hb [unfolded FrameHeader_new_def, simplified] b0 del: drop_append)
qed

lemma CreateFrame_empty:
  "CreateFrame flag None 0 t = Some (Some (frame t []))"
proof -
  have "CreateFrame flag None 0 t = CreateFrame flag (Some []) (of_nat (length ([] :: bytes))) t"
    by (simp add: CreateFrame_def)
  also have "\<dots> = Some (Some (frame t []))" by (rule CreateFrame_eq) simp
  finally show ?thesis .
qed

lemma header_frame:
  "header_at (frame t d @ r) = \<lparr>MD5Hash = frame_hash t d, AppFlag = str ''CX180'' @ [0, 0, 0],
     DataLength = of_nat (length d), Type = t\<rparr>"
  using header_at_layout [of "frame_hash t d" "str ''CX180'' @ [0, 0, 0]" "of_nat (length d)" t "d @ r"]
  by (simp add: frame_def frame_body_def)

lemma header_reply:
  "length h = 16 \<Longrightarrow> header_at (reply_frame h t @ r) = \<lparr>MD5Hash = h,
     AppFlag = str ''CX180'' @ [0, 0, 0], DataLength = 0, Type = t\<rparr>"
  using header_at_layout [of h "str ''CX180'' @ [0, 0, 0]" 0 t r]
  by (simp add: reply_frame_def)

lemma strncmp_flag: "strncmp APP_FLAG (str ''CX180'' @ r) 5 = Some 0"
  by (simp add: APP_FLAG_def str_def numeral_eq_Suc)

subsection \<open>What the receiver checks\<close>

text \<open>The checks of \<^verbatim>\<open>ReceiveThread\<close> on a complete frame in its buffer.\<close>

definition frame_accepted :: "bytes \<Rightarrow> bool option" where
  "frame_accepted buffer = do {
     let header = header_at buffer;
     c \<leftarrow> strncmp APP_FLAG (AppFlag header) (strlen APP_FLAG);
     md5hashcode \<leftarrow> MDBytes (drop 16 buffer) (DataLength header + 16);
     same \<leftarrow> memcmp0 md5hashcode (MD5Hash header) 16;
     Some (c = 0 \<and> same)
   }"

text \<open>
  A frame that \<^verbatim>\<open>CreateFrame\<close> builds is 32 bytes longer than its data; the receiver reads
  back the type, the length and the data, and accepts the hash.
\<close>

lemma CreateFrame_roundtrip:
  assumes "length d + 96 < 2 ^ 32"
  shows "\<exists>f. CreateFrame APP_FLAG (Some d) (of_nat (length d)) t = Some (Some f) \<and>
           length f = 32 + length d \<and> Type (header_at f) = t \<and>
           unat (DataLength (header_at f)) = length d \<and> drop 32 f = d \<and>
           frame_accepted f = Some True"
proof -
  have 1: "CreateFrame APP_FLAG (Some d) (of_nat (length d)) t = Some (Some (frame t d))"
    by (rule CreateFrame_eq [OF assms])
  have h: "header_at (frame t d) = \<lparr>MD5Hash = frame_hash t d, AppFlag = str ''CX180'' @ [0, 0, 0],
     DataLength = of_nat (length d), Type = t\<rparr>"
    using header_frame [of t d "[]"] by simp
  have l: "(of_nat (length d) :: u32) + 16 = of_nat (16 + length d)" by simp
  have "MDBytes (drop 16 (frame t d)) (of_nat (length d) + 16) = Some (frame_hash t d)"
    unfolding l using assms by (subst MDBytes_eq) (simp_all add: frame_hash_def frame_def)
  then have "frame_accepted (frame t d) = Some True"
    by (simp add: frame_accepted_def h strncmp_flag memcmp0_def)
  moreover have "unat (of_nat (length d) :: u32) = length d"
    using assms by (simp add: unat_of_nat)
  moreover have "drop 32 (frame t d) = d"
    by (simp add: frame_def frame_body_def)
  ultimately show ?thesis using 1 h by auto
qed

text \<open>
  The receiver accepts sixteen bytes in front of the rest of a frame exactly when they are
  the MD5 of that rest, so every corruption of the hash field alone is refused.
\<close>

lemma frame_hash_checked:
  assumes "length h = 16" "length d + 96 < 2 ^ 32"
  shows "frame_accepted (h @ frame_body t d) = Some (h = frame_hash t d)"
proof -
  have e: "h @ frame_body t d = h @ (str ''CX180'' @ [0, 0, 0]) @ le32 (of_nat (length d)) @ le32 t @ d"
    by (simp add: frame_body_def)
  have hd: "header_at (h @ frame_body t d) = \<lparr>MD5Hash = h, AppFlag = str ''CX180'' @ [0, 0, 0],
     DataLength = of_nat (length d), Type = t\<rparr>"
    unfolding e by (rule header_at_layout) (simp_all add: assms(1))
  have l: "(of_nat (length d) :: u32) + 16 = of_nat (16 + length d)" by simp
  have "MDBytes (drop 16 (h @ frame_body t d)) (of_nat (length d) + 16) = Some (frame_hash t d)"
    unfolding l using assms by (subst MDBytes_eq) (simp_all add: frame_hash_def)
  then show ?thesis
    using assms(1) by (auto simp: frame_accepted_def hd strncmp_flag memcmp0_def)
qed

end
