(* ===== verification/ClientBase.thy ===== *)
theory ClientBase
  imports EventExecuter Frame
begin

text \<open>
  One end of a connection (\<^verbatim>\<open>class ClientBase\<close> of \<^verbatim>\<open>clientbase/clientbase.cpp\<close>): its fields,
  the operations on them, sending with acknowledgement, connecting and disconnecting. Every
  access to a field is under a mutex of its own in the source, so the operations are atomic
  at the grain of the setters and getters modelled here.

  Two things come from outside: the results of system calls, which are arguments (\<open>net\<close> gives
  the result of \<^verbatim>\<open>send\<close> from everything done so far and the bytes handed to it; records of
  results stand for the others), and what the other threads do while an operation waits on a
  condition variable, which is a function on the client's state.
\<close>

subsection \<open>State\<close>

definition INVALID_SOCKET :: int where "INVALID_SOCKET = -1"
definition SOCKET_ERROR :: int where "SOCKET_ERROR = -1"
definition DISCONNECT_FAILED :: int where "DISCONNECT_FAILED = 1"
definition CREATE_THREAD_FAILED :: int where "CREATE_THREAD_FAILED = 2"
definition SET_SOCKET_OPT_FAILED :: int where "SET_SOCKET_OPT_FAILED = 3"
definition SEND_TIMEOUT_SECONDS :: int where "SEND_TIMEOUT_SECONDS = 30"
definition MAX_SIZE_OF_PACKET :: nat where "MAX_SIZE_OF_PACKET = 32768"

definition MSG_DATA_CORRECT :: u32 where "MSG_DATA_CORRECT = 0"
definition MSG_DATA_ERROR :: u32 where "MSG_DATA_ERROR = 1"
definition MSG_CONNECT :: u32 where "MSG_CONNECT = 2"

lemmas msg_defs = MSG_DATA_CORRECT_def MSG_DATA_ERROR_def MSG_CONNECT_def

text \<open>What a client does that others can see, in order.\<close>

datatype cond = Cond_Send | Cond_Exit | Cond_Connect | Cond_Receive

datatype action =
    Sent bytes          \<comment> \<open>bytes the kernel took\<close>
  | SendFailed
  | Broadcast cond
  | Closed int          \<comment> \<open>\<^verbatim>\<open>close\<close> on the descriptor\<close>
  | OnServerClose
  | OnSocketError

record ClientBase =
  cb_executer :: EventExecuter
  cb_reply_hashcode :: "bytes option"
  cb_last_sent_bytes :: "bytes option"
  cb_last_sent_length :: u32
  cb_last_sent_time :: int
  cb_send_succeeded :: bool
  cb_socket :: int
  cb_isconnecting :: bool
  cb_received_type :: u32
  cb_received_data :: "bytes option"
  cb_received_length :: u32
  cb_keep :: bool
  cb_receive_thread :: bool
  cb_log :: "action list"

type_synonym net = "action list \<Rightarrow> bytes \<Rightarrow> int"

definition ClientBase_new :: "int \<Rightarrow> int \<Rightarrow> ClientBase" where
  "ClientBase_new pthread_create_ret now =
     \<lparr>cb_executer = EventExecuter_new pthread_create_ret, cb_reply_hashcode = None,
      cb_last_sent_bytes = None, cb_last_sent_length = 0, cb_last_sent_time = now,
      cb_send_succeeded = True, cb_socket = INVALID_SOCKET, cb_isconnecting = False,
      cb_received_type = 0, cb_received_data = None, cb_received_length = 0,
      cb_keep = False, cb_receive_thread = False, cb_log = []\<rparr>"

definition emit :: "action \<Rightarrow> ClientBase \<Rightarrow> ClientBase" where
  "emit a c = c\<lparr>cb_log := cb_log c @ [a]\<rparr>"

subsection \<open>Setters and getters\<close>

definition GetSocket :: "ClientBase \<Rightarrow> int" where
  "GetSocket c = cb_socket c"

definition IsSendSucceeded :: "ClientBase \<Rightarrow> bool" where
  "IsSendSucceeded c = (if INVALID_SOCKET = cb_socket c then False else cb_send_succeeded c)"

definition SetIsSendSucceeded :: "bool \<Rightarrow> ClientBase \<Rightarrow> ClientBase" where
  "SetIsSendSucceeded v c = c\<lparr>cb_send_succeeded := v\<rparr>"

definition KeepReceiving :: "ClientBase \<Rightarrow> bool" where
  "KeepReceiving c = (if INVALID_SOCKET = cb_socket c then False else cb_keep c)"

definition SetKeepReceiving :: "bool \<Rightarrow> ClientBase \<Rightarrow> ClientBase" where
  "SetKeepReceiving v c = c\<lparr>cb_keep := v\<rparr>"

definition SetIsConnecting :: "bool \<Rightarrow> ClientBase \<Rightarrow> ClientBase" where
  "SetIsConnecting v c = c\<lparr>cb_isconnecting := v\<rparr>"

definition GetIsConnecting :: "ClientBase \<Rightarrow> bool" where
  "GetIsConnecting c = cb_isconnecting c"

text \<open>\<open>new_copy p n\<close> is \<^verbatim>\<open>q = new unsigned char[n]; memcpy(q, p, n)\<close>.\<close>

definition new_copy :: "bytes \<Rightarrow> nat \<Rightarrow> bytes option" where
  "new_copy p n = memcpy (replicate n 0) 0 p 0 n"

definition GetLastSentBytes :: "ClientBase \<Rightarrow> (bytes option \<times> u32) option" where
  "GetLastSentBytes c =
     (case cb_last_sent_bytes c of
        None \<Rightarrow> Some (None, 0)
      | Some b \<Rightarrow> do {
          data \<leftarrow> new_copy b (unat (cb_last_sent_length c));
          Some (Some data, cb_last_sent_length c)
        })"

text \<open>\<^verbatim>\<open>_last_sent_length\<close> is an \<^verbatim>\<open>int\<close>: a length with the top bit set makes \<^verbatim>\<open>new\<close> throw.\<close>

definition SetLastSentBytes :: "bytes option \<Rightarrow> u32 \<Rightarrow> ClientBase \<Rightarrow> ClientBase option" where
  "SetLastSentBytes data len c =
     (case data of
        Some d \<Rightarrow>
          (if sint len < 0 then None
           else do {
             b \<leftarrow> new_copy d (unat len);
             Some (c\<lparr>cb_last_sent_length := len, cb_last_sent_bytes := Some b\<rparr>)
           })
      | None \<Rightarrow> Some (c\<lparr>cb_last_sent_length := 0, cb_last_sent_bytes := None\<rparr>))"

definition GetReplyHashcode :: "ClientBase \<Rightarrow> bytes option option" where
  "GetReplyHashcode c =
     (case cb_reply_hashcode c of
        None \<Rightarrow> Some None
      | Some h \<Rightarrow> do { data \<leftarrow> new_copy h 16; Some (Some data) })"

definition SetReplyHashcode :: "bytes option \<Rightarrow> ClientBase \<Rightarrow> ClientBase option" where
  "SetReplyHashcode data c =
     (case data of
        Some d \<Rightarrow> do {
          h \<leftarrow> memcpy (case cb_reply_hashcode c of None \<Rightarrow> replicate 16 0 | Some h \<Rightarrow> h) 0 d 0 16;
          Some (c\<lparr>cb_reply_hashcode := Some h\<rparr>)
        }
      | None \<Rightarrow> Some (c\<lparr>cb_reply_hashcode := None\<rparr>))"

definition InitReceiveDataAndType :: "u32 \<Rightarrow> ClientBase \<Rightarrow> ClientBase" where
  "InitReceiveDataAndType type c =
     c\<lparr>cb_received_type := type, cb_received_data := None, cb_received_length := 0\<rparr>"

definition SetReceivedDataAndType :: "bytes option \<Rightarrow> u32 \<Rightarrow> ClientBase \<Rightarrow> ClientBase option" where
  "SetReceivedDataAndType data len c = do {
     let c1 = c\<lparr>cb_received_type := 0, cb_received_data := None\<rparr>;
     c2 \<leftarrow> (case data of
              Some d \<Rightarrow>
                (if 0 < len
                 then do {
                   b \<leftarrow> new_copy d (unat len);
                   Some (c1\<lparr>cb_received_data := Some b, cb_received_length := len\<rparr>)
                 }
                 else Some (c1\<lparr>cb_received_length := 0\<rparr>))
            | None \<Rightarrow> Some (c1\<lparr>cb_received_length := 0\<rparr>));
     Some (emit (Broadcast Cond_Receive) c2)
   }"

definition GetReceivedData :: "ClientBase \<Rightarrow> (bytes option \<times> u32) option" where
  "GetReceivedData c =
     (case cb_received_data c of
        None \<Rightarrow> Some (None, 0)
      | Some b \<Rightarrow>
          (if cb_received_length c = 0 then Some (None, 0)
           else do {
             data \<leftarrow> new_copy b (unat (cb_received_length c));
             Some (Some data, cb_received_length c)
           }))"

definition GetReceiveType :: "ClientBase \<Rightarrow> u32" where
  "GetReceiveType c = cb_received_type c"

definition StopSendWaiting :: "ClientBase \<Rightarrow> ClientBase" where
  "StopSendWaiting = emit (Broadcast Cond_Send)"

definition StopDisconnectWaiting :: "ClientBase \<Rightarrow> ClientBase" where
  "StopDisconnectWaiting = emit (Broadcast Cond_Exit)"

definition StopConnectWaiting :: "ClientBase \<Rightarrow> ClientBase" where
  "StopConnectWaiting = emit (Broadcast Cond_Connect)"

definition RaiseServerCloseEvent :: "ClientBase \<Rightarrow> ClientBase" where
  "RaiseServerCloseEvent c = (if \<not> GetIsConnecting c then emit OnServerClose c else c)"

definition RaiseSocketErrorEvent :: "ClientBase \<Rightarrow> ClientBase" where
  "RaiseSocketErrorEvent c = (if \<not> GetIsConnecting c then emit OnSocketError c else c)"

text \<open>\<^verbatim>\<open>ClientBase::Execute\<close>: a copy of the message goes to the executer.\<close>

definition Client_Execute :: "u32 \<Rightarrow> bytes option \<Rightarrow> u32 \<Rightarrow> ClientBase \<Rightarrow> ClientBase option" where
  "Client_Execute type data len c = do {
     d \<leftarrow> (case data of
             Some p \<Rightarrow> if 0 < len then do { b \<leftarrow> new_copy p (unat len); Some (Some b) } else Some None
           | None \<Rightarrow> Some None);
     x \<leftarrow> Executer_Execute \<lparr>rd_Type = type, rd_Data = d, rd_Length = len\<rparr> (cb_executer c);
     Some (c\<lparr>cb_executer := x\<rparr>)
   }"

subsection \<open>Sending\<close>

definition CoreSend :: "net \<Rightarrow> int \<Rightarrow> bytes \<Rightarrow> u32 \<Rightarrow> ClientBase \<Rightarrow> (int \<times> ClientBase) option" where
  "CoreSend net socket data len c =
     (if unat len \<le> length data
      then (let msg = take (unat len) data; ret = net (cb_log c) msg in
            Some (ret, emit (if ret < 0 then SendFailed else Sent (take (nat ret) msg)) c))
      else None)"

text \<open>\<^verbatim>\<open>Reply\<close>: answer the last received frame once, by its hash.\<close>

definition Reply :: "net \<Rightarrow> bool \<Rightarrow> ClientBase \<Rightarrow> ClientBase option" where
  "Reply net successful c =
     (if INVALID_SOCKET = cb_socket c then Some c
      else do {
        tmpdata \<leftarrow> GetReplyHashcode c;
        (case tmpdata of
           None \<Rightarrow> Some c
         | Some hash \<Rightarrow> do {
             let fh = FrameHeader_new 0 0;
             flag \<leftarrow> strncpy (AppFlag fh) APP_FLAG (strlen APP_FLAG);
             let fh = fh\<lparr>AppFlag := flag, DataLength := 0,
                         Type := (if successful then MSG_DATA_CORRECT else MSG_DATA_ERROR)\<rparr>;
             md5 \<leftarrow> memcpy (MD5Hash fh) 0 hash 0 16;
             (bytesSent, c1) \<leftarrow> CoreSend net (cb_socket c) (header_bytes (fh\<lparr>MD5Hash := md5\<rparr>)) 32 c;
             SetReplyHashcode None c1
           })
      })"

text \<open>\<^verbatim>\<open>DealReplyMessage\<close>: an acknowledgement by hash ends the sending, a refusal re-sends.\<close>

definition DealReplyMessage :: "net \<Rightarrow> bytes \<Rightarrow> bool \<Rightarrow> ClientBase \<Rightarrow> ClientBase option" where
  "DealReplyMessage net md5Hash isSucceeded c = do {
     (tmpdata, tmplength) \<leftarrow> GetLastSentBytes c;
     (case tmpdata of
        None \<Rightarrow> Some c
      | Some d \<Rightarrow> do {
          same \<leftarrow> memcmp0 md5Hash d 16;
          (if isSucceeded then
             Some (if same then StopSendWaiting (SetIsSendSucceeded True c) else c)
           else if same then do {
             (bytesSent, c1) \<leftarrow> CoreSend net (cb_socket c) d tmplength c;
             Some c1
           }
           else Some c)
        })
   }"

definition DisconnectForcibly :: "net \<Rightarrow> ClientBase \<Rightarrow> (bool \<times> ClientBase) option" where
  "DisconnectForcibly net c =
     (if INVALID_SOCKET = cb_socket c then Some (False, c)
      else do {
        let c1 = StopSendWaiting c;
        let c2 = (if cb_receive_thread c1 then SetKeepReceiving False c1 else c1);
        c3 \<leftarrow> Reply net True c2;
        Some (True, (emit (Closed (cb_socket c3)) c3)\<lparr>cb_socket := INVALID_SOCKET\<rparr>)
      })"

text \<open>
  \<^verbatim>\<open>Disconnect\<close> waits until the receive thread says it left. The environment gives the
  clock and what happens until the wait is over, with the result of the wait.
\<close>

type_synonym waiting = "ClientBase \<Rightarrow> (int \<times> ClientBase) option"

definition Disconnect :: "net \<Rightarrow> int \<Rightarrow> waiting \<Rightarrow> ClientBase \<Rightarrow> (bool \<times> ClientBase) option" where
  "Disconnect net now wait_exit c =
     (if INVALID_SOCKET = cb_socket c then Some (False, c)
      else do {
        let c1 = StopSendWaiting c;
        (failed, c2) \<leftarrow>
          (if cb_receive_thread c1 then
             (if now = -1 then Some (True, c1)
              else do {
                (ret, c2) \<leftarrow> wait_exit (SetKeepReceiving False c1);
                Some (ret \<noteq> 0, c2)
              })
           else Some (False, c1));
        (if failed then Some (False, c2)
         else do {
           c3 \<leftarrow> Reply net True c2;
           Some (True, (emit (Closed (cb_socket c3)) c3)\<lparr>cb_socket := INVALID_SOCKET\<rparr>)
         })
      })"

definition SimpleSend :: "net \<Rightarrow> u32 \<Rightarrow> ClientBase \<Rightarrow> (bool \<times> ClientBase) option" where
  "SimpleSend net type c =
     (if INVALID_SOCKET = cb_socket c then Some (False, c)
      else do {
        buffer \<leftarrow> CreateFrame APP_FLAG None 0 type;
        (case buffer of
           None \<Rightarrow> Some (False, c)
         | Some b \<Rightarrow> do {
             (bytesSent, c1) \<leftarrow> CoreSend net (cb_socket c) b 32 c;
             Some (\<not> bytesSent < 0, c1)
           })
      })"

text \<open>
  \<^verbatim>\<open>Send\<close>: \<open>se_now0\<close>, \<open>se_sent_time\<close> and \<open>se_now\<close> are the three readings of the clock;
  \<open>se_race\<close> is what the receive thread does between the sending and the test for an early
  reply, \<open>se_wait\<close> what happens until the wait ends and the flag is read again.
\<close>

record send_env =
  se_now0 :: int
  se_sent_time :: int
  se_now :: int
  se_race :: "ClientBase \<Rightarrow> ClientBase option"
  se_wait :: waiting

definition Send ::
  "net \<Rightarrow> send_env \<Rightarrow> u32 \<Rightarrow> bytes option \<Rightarrow> u32 \<Rightarrow> int \<Rightarrow> ClientBase \<Rightarrow> (bool \<times> ClientBase) option"
where
  "Send net e type data len secondsTimeout c =
     (if INVALID_SOCKET = cb_socket c then Some (False, c)
      else if \<not> IsSendSucceeded c then
        (if SEND_TIMEOUT_SECONDS < se_now0 e - cb_last_sent_time c
         then do {
           (_, c1) \<leftarrow> DisconnectForcibly net c;
           Some (False, RaiseSocketErrorEvent c1)
         }
         else Some (False, c))
      else do {
        buffer \<leftarrow> CreateFrame APP_FLAG data len type;
        (case buffer of
           None \<Rightarrow> Some (False, c)
         | Some tmpdata \<Rightarrow> do {
             c1 \<leftarrow> SetLastSentBytes (Some tmpdata) (len + 32) c;
             let c2 = SetIsSendSucceeded False c1;
             (bytesSent, c3) \<leftarrow> CoreSend net (cb_socket c2) tmpdata (len + 32) c2;
             let c4 = c3\<lparr>cb_last_sent_time := se_sent_time e\<rparr>;
             (if bytesSent < 0 then Some (False, c4)
              else if 0 < secondsTimeout then
                (if se_now e = -1 then Some (False, c4)
                 else do {
                   c5 \<leftarrow> se_race e c4;
                   (if IsSendSucceeded c5 then Some (True, c5)
                    else do {
                      (_, c6) \<leftarrow> se_wait e c5;
                      Some (IsSendSucceeded c6, c6)
                    })
                 })
              else do {
                c5 \<leftarrow> se_race e c4;
                (if IsSendSucceeded c5 then Some (True, c5)
                 else do {
                   (ret, c6) \<leftarrow> se_wait e c5;
                   (if ret \<noteq> 0 then Some (False, c6) else Some (IsSendSucceeded c6, c6))
                 })
              })
           })
      })"

text \<open>The overloads: without data, without a timeout.\<close>

definition Send_type where
  "Send_type net e type c = Send net e type None 0 (-1) c"

definition Send_type_timeout where
  "Send_type_timeout net e type secondsTimeout c = Send net e type None 0 secondsTimeout c"

definition Send_data where
  "Send_data net e type data len c = Send net e type data len (-1) c"

subsection \<open>Waiting for a message of one type\<close>

text \<open>
  \<^verbatim>\<open>Receive\<close>: \<open>buf\<close> and \<open>len0\<close> are the caller's buffer and length variable before the call.
\<close>

definition take_received :: "bytes \<Rightarrow> ClientBase \<Rightarrow> (bool \<times> bytes \<times> u32 \<times> ClientBase) option" where
  "take_received buf c = do {
     (tmpdata, len) \<leftarrow> GetReceivedData c;
     buf' \<leftarrow> (if 0 < len then do { t \<leftarrow> tmpdata; memcpy buf 0 t 0 (unat len) } else Some buf);
     Some (True, buf', len, c)
   }"

definition Receive ::
  "int \<Rightarrow> waiting \<Rightarrow> u32 \<Rightarrow> bytes \<Rightarrow> u32 \<Rightarrow> ClientBase \<Rightarrow> (bool \<times> bytes \<times> u32 \<times> ClientBase) option"
where
  "Receive now wait type buf len0 c = do {
     let c1 = InitReceiveDataAndType type c;
     (if now = -1 then Some (False, buf, len0, c1)
      else if GetReceiveType c1 = 0 then take_received buf c1
      else do {
        (ret, c2) \<leftarrow> wait c1;
        (if ret \<noteq> 0 then
           (if GetReceiveType c2 = 0 then take_received buf c2
            else Some (False, buf, 0, c2))
         else take_received buf c2)
      })
   }"

subsection \<open>Connecting\<close>

text \<open>Results of the system calls of \<^verbatim>\<open>SetSocket\<close> and \<^verbatim>\<open>Connect\<close>, in the order of the calls.\<close>

record conn_env =
  ce_socket :: int
  ce_rcvbuf :: int
  ce_sndbuf :: int
  ce_device :: int
  ce_keepalive :: int
  ce_getfl :: int
  ce_setfl :: int
  ce_connect :: int
  ce_inprogress :: bool
  ce_select :: int
  ce_getfl2 :: int
  ce_setfl2 :: int
  ce_thread :: int
  ce_now :: int
  ce_wait :: waiting
  ce_exit_now :: int
  ce_exit_wait :: waiting

definition SetSocket :: "net \<Rightarrow> conn_env \<Rightarrow> int \<Rightarrow> ClientBase \<Rightarrow> (int \<times> ClientBase) option" where
  "SetSocket net e hNewSocket c = do {
     (ret, c1) \<leftarrow>
       (if INVALID_SOCKET \<noteq> cb_socket c then Disconnect net (ce_exit_now e) (ce_exit_wait e) c
        else Some (True, c));
     (if \<not> ret then Some (DISCONNECT_FAILED, c1)
      else do {
        let c2 = c1\<lparr>cb_socket := hNewSocket\<rparr>;
        (if ce_rcvbuf e \<noteq> 0 \<or> ce_sndbuf e \<noteq> 0 \<or> ce_keepalive e \<noteq> 0 \<or>
            ce_getfl e < 0 \<or> ce_setfl e < 0
         then Some (SET_SOCKET_OPT_FAILED, c2)
         else do {
           let c3 = SetKeepReceiving True c2;
           (if ce_thread e \<noteq> 0
            then Some (CREATE_THREAD_FAILED,
                       c3\<lparr>cb_receive_thread := False, cb_socket := INVALID_SOCKET\<rparr>)
            else Some (0, c3\<lparr>cb_receive_thread := True\<rparr>))
         })
      })
   }"

text \<open>The error path shared by the steps of \<^verbatim>\<open>Connect\<close>: close, forget the socket, clear the flag.\<close>

definition connect_fail :: "ClientBase \<Rightarrow> bool \<times> ClientBase" where
  "connect_fail c =
     (False, SetIsConnecting False ((emit (Closed (cb_socket c)) c)\<lparr>cb_socket := INVALID_SOCKET\<rparr>))"

text \<open>The end of \<^verbatim>\<open>Connect\<close>, on a connected socket: the receive thread is started and has to see the server's message.\<close>

definition connect_start :: "net \<Rightarrow> conn_env \<Rightarrow> ClientBase \<Rightarrow> (bool \<times> ClientBase) option" where
  "connect_start net e c =
     (if ce_getfl2 e < 0 then Some (connect_fail c)
      else if ce_setfl2 e < 0 then Some (connect_fail c)
      else if ce_thread e \<noteq> 0 then do {
        (_, c) \<leftarrow> Disconnect net (ce_exit_now e) (ce_exit_wait e) (c\<lparr>cb_receive_thread := False\<rparr>);
        Some (False, SetIsConnecting False c)
      }
      else do {
        let c = c\<lparr>cb_receive_thread := True\<rparr>;
        (if ce_now e = -1 then do {
           (_, c) \<leftarrow> DisconnectForcibly net c;
           Some (False, SetIsConnecting False c)
         }
         else do {
           (ret, c) \<leftarrow> ce_wait e c;
           (if ret \<noteq> 0 then do {
              (_, c) \<leftarrow> DisconnectForcibly net c;
              Some (False, SetIsConnecting False c)
            }
            else Some (True, SetIsConnecting False c))
         })
      })"

definition Connect :: "net \<Rightarrow> conn_env \<Rightarrow> ClientBase \<Rightarrow> (bool \<times> ClientBase) option" where
  "Connect net e c = do {
     let c = SetIsConnecting True c;
     (if INVALID_SOCKET \<noteq> cb_socket c then Some (False, SetIsConnecting False c)
      else do {
        c \<leftarrow> SetLastSentBytes None 0 c;
        let c = SetIsSendSucceeded True c;
        c \<leftarrow> SetReplyHashcode None c;
        let c = SetKeepReceiving True c;
        let c = c\<lparr>cb_socket := ce_socket e\<rparr>;
        (if cb_socket c = INVALID_SOCKET then Some (False, SetIsConnecting False c)
         else if ce_rcvbuf e \<noteq> 0 then Some (connect_fail c)
         else if ce_sndbuf e \<noteq> 0 then Some (connect_fail c)
         else if ce_device e \<noteq> 0 then Some (connect_fail c)
         else if ce_keepalive e \<noteq> 0 then Some (connect_fail c)
         else if ce_getfl e < 0 then Some (connect_fail c)
         else if ce_setfl e < 0 then Some (connect_fail c)
         else if ce_connect e = SOCKET_ERROR \<and> \<not> ce_inprogress e then Some (connect_fail c)
         else if ce_connect e = SOCKET_ERROR \<and> ce_select e \<le> 0 then Some (connect_fail c)
         else connect_start net e c)
      })
   }"

definition ClientBase_destroy :: "net \<Rightarrow> int \<Rightarrow> waiting \<Rightarrow> ClientBase \<Rightarrow> (heap \<times> ClientBase) option" where
  "ClientBase_destroy net now wait_exit c = do {
     (_, c1) \<leftarrow> Disconnect net now wait_exit c;
     h \<leftarrow> EventExecuter_destroy (cb_executer c1);
     Some (h, c1)
   }"

subsection \<open>Invariant of the fields\<close>

text \<open>
  The lengths agree with the arrays, so that no getter reads outside one; what was last sent
  is a frame at least as long as a header.
\<close>

definition cb_inv :: "ClientBase \<Rightarrow> bool" where
  "cb_inv c \<longleftrightarrow> ex_inv (cb_executer c) \<and>
     (\<forall>h. cb_reply_hashcode c = Some h \<longrightarrow> length h = 16) \<and>
     (\<forall>b. cb_last_sent_bytes c = Some b \<longrightarrow> 32 \<le> length b \<and> length b = unat (cb_last_sent_length c)) \<and>
     (\<forall>b. cb_received_data c = Some b \<longrightarrow>
        0 < cb_received_length c \<and> length b = unat (cb_received_length c))"

text \<open>The fields that say whether the connection is alive.\<close>

definition same_conn :: "ClientBase \<Rightarrow> ClientBase \<Rightarrow> bool" where
  "same_conn c c' \<longleftrightarrow> cb_socket c' = cb_socket c \<and> cb_keep c' = cb_keep c \<and>
     cb_isconnecting c' = cb_isconnecting c \<and> cb_receive_thread c' = cb_receive_thread c"

lemma same_conn_refl [simp]: "same_conn c c"
  by (simp add: same_conn_def)

lemma same_conn_trans: "same_conn a b \<Longrightarrow> same_conn b c \<Longrightarrow> same_conn a c"
  by (simp add: same_conn_def)

lemma same_conn_keep: "same_conn c c' \<Longrightarrow> KeepReceiving c' = KeepReceiving c"
  by (simp add: same_conn_def KeepReceiving_def)

text \<open>What a call of \<^verbatim>\<open>send\<close> leaves in the log.\<close>

definition tx :: "net \<Rightarrow> ClientBase \<Rightarrow> bytes \<Rightarrow> action" where
  "tx net c msg = (let ret = net (cb_log c) msg in
     if ret < 0 then SendFailed else Sent (take (nat ret) msg))"

lemma emit_simps [simp]:
  "cb_executer (emit a c) = cb_executer c" "cb_reply_hashcode (emit a c) = cb_reply_hashcode c"
  "cb_last_sent_bytes (emit a c) = cb_last_sent_bytes c"
  "cb_last_sent_length (emit a c) = cb_last_sent_length c"
  "cb_send_succeeded (emit a c) = cb_send_succeeded c" "cb_socket (emit a c) = cb_socket c"
  "cb_isconnecting (emit a c) = cb_isconnecting c" "cb_received_type (emit a c) = cb_received_type c"
  "cb_received_data (emit a c) = cb_received_data c"
  "cb_received_length (emit a c) = cb_received_length c" "cb_keep (emit a c) = cb_keep c"
  "cb_receive_thread (emit a c) = cb_receive_thread c" "cb_log (emit a c) = cb_log c @ [a]"
  "cb_last_sent_time (emit a c) = cb_last_sent_time c"
  by (simp_all add: emit_def)

lemma same_conn_emit [simp]: "same_conn c (emit a c)"
  by (simp add: same_conn_def)

lemma cb_inv_emit [simp]: "cb_inv (emit a c) = cb_inv c"
  by (simp add: cb_inv_def)

lemma new_copy_Some [cmem]: "n \<le> length p \<Longrightarrow> new_copy p n = Some (take n p)"
  by (simp add: new_copy_def memcpy_def blit_def)

lemma CoreSend_eq [cmem]:
  "unat len \<le> length d \<Longrightarrow> CoreSend net s d len c =
     Some (net (cb_log c) (take (unat len) d), emit (tx net c (take (unat len) d)) c)"
  by (simp add: CoreSend_def tx_def Let_def)

lemma GetLastSentBytes_eq:
  "cb_inv c \<Longrightarrow> GetLastSentBytes c =
     Some (cb_last_sent_bytes c,
           case cb_last_sent_bytes c of None \<Rightarrow> 0 | Some _ \<Rightarrow> cb_last_sent_length c)"
  by (auto simp: GetLastSentBytes_def cb_inv_def cmem split: option.splits)

lemma GetReplyHashcode_eq: "cb_inv c \<Longrightarrow> GetReplyHashcode c = Some (cb_reply_hashcode c)"
  by (auto simp: GetReplyHashcode_def cb_inv_def cmem split: option.splits)

lemma GetReceivedData_eq:
  "cb_inv c \<Longrightarrow> GetReceivedData c =
     Some (cb_received_data c,
           case cb_received_data c of None \<Rightarrow> 0 | Some _ \<Rightarrow> cb_received_length c)"
  by (auto simp: GetReceivedData_def cb_inv_def cmem split: option.splits)

lemma SetReplyHashcode_Some:
  "cb_inv c \<Longrightarrow> length h = 16 \<Longrightarrow> SetReplyHashcode (Some h) c = Some (c\<lparr>cb_reply_hashcode := Some h\<rparr>)"
  by (auto simp: SetReplyHashcode_def cb_inv_def cmem blit_whole split: option.splits)

lemma SetReplyHashcode_None: "SetReplyHashcode None c = Some (c\<lparr>cb_reply_hashcode := None\<rparr>)"
  by (simp add: SetReplyHashcode_def)

lemma SetLastSentBytes_Some:
  assumes "length d = unat len" "length d < 2 ^ 31"
  shows "SetLastSentBytes (Some d) len c =
           Some (c\<lparr>cb_last_sent_length := len, cb_last_sent_bytes := Some d\<rparr>)"
proof -
  have u: "uint len = int (length d)" using assms(1) by simp
  have "sint len = int (length d)"
    unfolding sint_uint u using assms(2) by (intro signed_take_bit_int_eq_self) auto
  then show ?thesis using assms(1) by (simp add: SetLastSentBytes_def cmem)
qed

lemma SetReceived_eq:
  assumes "unat len \<le> length d"
  shows "SetReceivedDataAndType (Some d) len c =
     Some (emit (Broadcast Cond_Receive) (c\<lparr>cb_received_type := 0, cb_received_length := len,
       cb_received_data := (if 0 < len then Some (take (unat len) d) else None)\<rparr>))"
proof (cases "0 < len")
  case False
  then have "len = 0" by (simp add: word_gt_0)
  then show ?thesis by (simp add: SetReceivedDataAndType_def)
qed (use assms in \<open>simp add: SetReceivedDataAndType_def cmem\<close>)

text \<open>The message that \<^verbatim>\<open>Execute\<close> makes of a type and \<open>len\<close> bytes.\<close>

definition message :: "u32 \<Rightarrow> bytes \<Rightarrow> u32 \<Rightarrow> ReceivedData" where
  "message t d len = \<lparr>rd_Type = t,
     rd_Data = (if 0 < len then Some (take (unat len) d) else None), rd_Length = len\<rparr>"

lemma wf_message: "unat len \<le> length d \<Longrightarrow> wf_data (message t d len)"
  by (simp add: message_def wf_data_def)

lemma Client_Execute_eq:
  "unat len \<le> length d \<Longrightarrow> Client_Execute t (Some d) len c =
     map_option (\<lambda>x. c\<lparr>cb_executer := x\<rparr>) (Executer_Execute (message t d len) (cb_executer c))"
  by (cases "Executer_Execute (message t d len) (cb_executer c)")
    (auto simp: Client_Execute_def cmem message_def)

lemma Client_Execute_inv:
  assumes "cb_inv c" "unat len \<le> length d"
  shows "\<exists>x. Client_Execute t (Some d) len c = Some (c\<lparr>cb_executer := x\<rparr>) \<and>
           cb_inv (c\<lparr>cb_executer := x\<rparr>)"
proof -
  obtain x where "Executer_Execute (message t d len) (cb_executer c) = Some x" "ex_inv x"
    using Execute_inv [OF _ wf_message [OF assms(2), of t], of "cb_executer c"] assms(1)
    by (auto simp: cb_inv_def)
  then show ?thesis
    using assms(1) by (intro exI [of _ x]) (auto simp: Client_Execute_eq [OF assms(2)] cb_inv_def)
qed

subsection \<open>Replies\<close>

definition reply_type :: "bool \<Rightarrow> u32" where
  "reply_type ok = (if ok then MSG_DATA_CORRECT else MSG_DATA_ERROR)"

lemma Reply_send:
  assumes "cb_inv c" "cb_socket c \<noteq> INVALID_SOCKET" "cb_reply_hashcode c = Some h"
  shows "Reply net ok c =
     Some ((emit (tx net c (reply_frame h (reply_type ok))) c)\<lparr>cb_reply_hashcode := None\<rparr>)"
proof -
  have h: "length h = 16" using assms(1,3) by (simp add: cb_inv_def)
  have "MD5Hash (FrameHeader_new 0 0) = replicate 16 0" by (simp add: FrameHeader_new_def)
  then have b: "memcpy (MD5Hash (FrameHeader_new 0 0)) 0 h 0 16 = Some h"
    using h by (simp add: cmem blit_whole)
  have e: "header_bytes (FrameHeader_new 0 0\<lparr>AppFlag := str ''CX180'' @ [0, 0, 0], DataLength := 0,
      Type := reply_type ok, MD5Hash := h\<rparr>) = reply_frame h (reply_type ok)"
    by (simp add: header_bytes_def FrameHeader_new_def reply_frame_def)
  have l: "CoreSend net s (reply_frame h t) 32 c =
      Some (net (cb_log c) (reply_frame h t), emit (tx net c (reply_frame h t)) c)" for s t
    by (subst CoreSend_eq) (simp_all add: h)
  show ?thesis
    using assms(2,3) b
    by (simp add: Reply_def GetReplyHashcode_eq [OF assms(1)] SetReplyHashcode_None
        strncpy_APP_FLAG [folded replicate_numeral] FrameHeader_new_def reply_type_def
        e [unfolded FrameHeader_new_def reply_type_def, simplified] l)
qed

lemma Reply_none:
  "cb_inv c \<Longrightarrow> cb_socket c = INVALID_SOCKET \<or> cb_reply_hashcode c = None \<Longrightarrow> Reply net ok c = Some c"
  by (auto simp: Reply_def GetReplyHashcode_eq)

lemma Reply_inv:
  assumes "cb_inv c"
  shows "\<exists>c'. Reply net ok c = Some c' \<and> cb_inv c' \<and> same_conn c c'"
proof (cases "cb_socket c = INVALID_SOCKET \<or> cb_reply_hashcode c = None")
  case True
  then show ?thesis using Reply_none [OF assms] assms by auto
next
  case False
  then obtain h where "cb_reply_hashcode c = Some h" "cb_socket c \<noteq> INVALID_SOCKET" by auto
  then show ?thesis
    using Reply_send [OF assms] assms by (auto simp: cb_inv_def same_conn_def)
qed

text \<open>The effect of a reply with hash \<open>h\<close>: only one that names the last sent frame counts.\<close>

definition deal_reply :: "net \<Rightarrow> bytes \<Rightarrow> bool \<Rightarrow> ClientBase \<Rightarrow> ClientBase" where
  "deal_reply net h ok c =
     (case cb_last_sent_bytes c of
        None \<Rightarrow> c
      | Some b \<Rightarrow>
          if h \<noteq> take 16 b then c
          else if ok then StopSendWaiting (SetIsSendSucceeded True c)
          else emit (tx net c b) c)"

lemma DealReplyMessage_eq:
  assumes "cb_inv c" "length h = 16"
  shows "DealReplyMessage net h ok c = Some (deal_reply net h ok c)"
proof (cases "cb_last_sent_bytes c")
  case None
  then show ?thesis
    by (simp add: DealReplyMessage_def GetLastSentBytes_eq [OF assms(1)] deal_reply_def)
next
  case (Some b)
  have b: "16 \<le> length b" "length b = unat (cb_last_sent_length c)"
    using assms(1) Some by (auto simp: cb_inv_def)
  then show ?thesis
    using Some assms(2)
    by (simp add: DealReplyMessage_def GetLastSentBytes_eq [OF assms(1)] deal_reply_def cmem)
qed

lemma deal_reply_inv:
  "cb_inv c \<Longrightarrow> cb_inv (deal_reply net h ok c)"
  "same_conn c (deal_reply net h ok c)"
  by (auto simp: deal_reply_def cb_inv_def same_conn_def StopSendWaiting_def SetIsSendSucceeded_def
      split: option.splits)

end
