(* ===== verification/ReceiveThread.thy ===== *)
theory ReceiveThread
  imports ClientBase
begin

text \<open>
  The receive thread (\<^verbatim>\<open>ReceiveThread\<close> of \<^verbatim>\<open>clientbase/clientbase.cpp\<close>) as a machine that makes
  one pass of an inner loop per step: test \<^verbatim>\<open>KeepReceiving\<close>, \<^verbatim>\<open>select\<close>, \<^verbatim>\<open>recv\<close>. A step
  that completes the header or the frame also does what follows the loop, up to the next
  test. The socket is the list of bytes that have arrived and are not read yet.
\<close>

subsection \<open>State\<close>

datatype rt_phase = Rt_Header | Rt_Body | Rt_Exit

record rthread =
  rt_phase :: rt_phase
  rt_buffer :: bytes
  rt_readlength :: u32
  rt_datalength :: u32
  rt_type :: u32

text \<open>The local array has \<^verbatim>\<open>MAX_SIZE_OF_PACKET * 2\<close> bytes of whatever was on the stack.\<close>

definition rthread_new :: "bytes \<Rightarrow> rthread" where
  "rthread_new junk = \<lparr>rt_phase = Rt_Header, rt_buffer = junk, rt_readlength = 0,
     rt_datalength = 0, rt_type = 0\<rparr>"

definition rt_restart :: "rthread \<Rightarrow> rthread" where
  "rt_restart th = th\<lparr>rt_phase := Rt_Header, rt_readlength := 0\<rparr>"

definition rt_leave :: "rthread \<times> ClientBase \<Rightarrow> rthread \<times> ClientBase" where
  "rt_leave = (\<lambda>(th, c). (th\<lparr>rt_phase := Rt_Exit\<rparr>, StopDisconnectWaiting c))"

subsection \<open>What follows the loops\<close>

text \<open>All the data of a frame is in the buffer: check the hash, hand over, reply.\<close>

definition rt_frame_done :: "net \<Rightarrow> rthread \<times> ClientBase \<Rightarrow> (rthread \<times> ClientBase) option" where
  "rt_frame_done net = (\<lambda>(th, c). do {
     let buffer = rt_buffer th;
     let header = header_at buffer;
     let datalength = rt_datalength th;
     md5hashcode \<leftarrow> MDBytes (drop 16 buffer) (datalength + 16);
     c1 \<leftarrow> SetReplyHashcode (Some (MD5Hash header)) c;
     same \<leftarrow> memcmp0 md5hashcode (MD5Hash header) 16;
     c2 \<leftarrow> (if same then do {
              c2 \<leftarrow> (if rt_type th = GetReceiveType c1
                      then SetReceivedDataAndType (Some (drop 32 buffer)) datalength c1
                      else Client_Execute (rt_type th) (Some (drop 32 buffer)) datalength c1);
              Reply net True c2
            }
            else Reply net False c1);
     Some (rt_restart th, c2)
   })"

text \<open>A header is complete: replies and the connect message end here, others have data to read.\<close>

definition rt_header_done :: "net \<Rightarrow> rthread \<times> ClientBase \<Rightarrow> (rthread \<times> ClientBase) option" where
  "rt_header_done net = (\<lambda>(th, c). do {
     let header = header_at (rt_buffer th);
     cmp \<leftarrow> strncmp APP_FLAG (AppFlag header) (strlen APP_FLAG);
     (if cmp \<noteq> 0 then Some (rt_restart th, c)
      else do {
        let datalength = DataLength header;
        let type = Type header;
        (if type = MSG_DATA_CORRECT then do {
           c1 \<leftarrow> DealReplyMessage net (MD5Hash header) True c;
           Some (rt_restart th, c1)
         }
         else if type = MSG_DATA_ERROR then do {
           c1 \<leftarrow> DealReplyMessage net (MD5Hash header) False c;
           Some (rt_restart th, c1)
         }
         else if type = MSG_CONNECT then Some (rt_restart th, StopConnectWaiting c)
         else do {
           let th1 = th\<lparr>rt_phase := Rt_Body, rt_readlength := 0,
                        rt_datalength := datalength, rt_type := type\<rparr>;
           (if 0 < datalength then Some (th1, c) else rt_frame_done net (th1, c))
         })
      })
   })"

subsection \<open>One pass\<close>

definition rt_limit :: "rthread \<Rightarrow> u32" where
  "rt_limit th = (case rt_phase th of Rt_Header \<Rightarrow> 32 | _ \<Rightarrow> rt_datalength th)"

definition rt_offset :: "rthread \<Rightarrow> nat" where
  "rt_offset th = (case rt_phase th of Rt_Header \<Rightarrow> 0 | _ \<Rightarrow> 32) + unat (rt_readlength th)"

text \<open>\<^verbatim>\<open>recv\<close> put \<open>bs\<close> into the buffer, which has no test of its own for its end.\<close>

definition rt_recv :: "net \<Rightarrow> bytes \<Rightarrow> rthread \<times> ClientBase \<Rightarrow> (rthread \<times> ClientBase) option" where
  "rt_recv net bs = (\<lambda>(th, c). do {
     buffer \<leftarrow> memcpy (rt_buffer th) (rt_offset th) bs 0 (length bs);
     let th1 = th\<lparr>rt_buffer := buffer, rt_readlength := rt_readlength th + of_nat (length bs)\<rparr>;
     (if rt_readlength th1 < rt_limit th1 then Some (th1, c)
      else case rt_phase th1 of
             Rt_Header \<Rightarrow> rt_header_done net (th1, c)
           | _ \<Rightarrow> rt_frame_done net (th1, c))
   })"

text \<open>
  What the socket may do in a pass: nothing for a second, an error of \<^verbatim>\<open>select\<close>, the end of
  the stream, an error of \<^verbatim>\<open>recv\<close>, or \<open>n + 1\<close> bytes at most.
\<close>

datatype sock_event = SelectTimeout | SelectError | PeerClosed | RecvError | Readable nat

type_synonym rt_state = "bytes \<times> rthread \<times> ClientBase"

definition rt_step :: "net \<Rightarrow> sock_event \<Rightarrow> rt_state \<Rightarrow> rt_state option" where
  "rt_step net ev = (\<lambda>(rx, th, c).
     if rt_phase th = Rt_Exit then Some (rx, th, c)
     else if \<not> KeepReceiving c then Some (rx, rt_leave (th, c))
     else case ev of
       SelectTimeout \<Rightarrow> Some (rx, th, c)
     | SelectError \<Rightarrow> do {
         (_, c1) \<leftarrow> DisconnectForcibly net c;
         Some (rx, rt_leave (th, RaiseServerCloseEvent c1))
       }
     | PeerClosed \<Rightarrow> do {
         (_, c1) \<leftarrow> DisconnectForcibly net c;
         Some (rx, rt_leave (th, RaiseServerCloseEvent c1))
       }
     | RecvError \<Rightarrow> do {
         (_, c1) \<leftarrow> DisconnectForcibly net c;
         Some (rx, rt_leave (th, RaiseSocketErrorEvent c1))
       }
     | Readable n \<Rightarrow>
         (let k = min (Suc n) (min (unat (rt_limit th - rt_readlength th)) (length rx)) in
          if k = 0 then Some (rx, th, c)
          else do {
            (th1, c1) \<leftarrow> rt_recv net (take k rx) (th, c);
            Some (drop k rx, th1, c1)
          }))"

fun rt_run :: "net \<Rightarrow> sock_event list \<Rightarrow> rt_state \<Rightarrow> rt_state option" where
  "rt_run net [] s = Some s"
| "rt_run net (ev # evs) s = do { s1 \<leftarrow> rt_step net ev s; rt_run net evs s1 }"

text \<open>The same thread fed with one byte at a time.\<close>

fun rt_feed :: "net \<Rightarrow> bytes \<Rightarrow> rthread \<times> ClientBase \<Rightarrow> (rthread \<times> ClientBase) option" where
  "rt_feed net [] s = Some s"
| "rt_feed net (b # bs) s = do { s1 \<leftarrow> rt_recv net [b] s; rt_feed net bs s1 }"

subsection \<open>Well-formed threads and frames in the buffer\<close>

text \<open>Between two passes: something is still missing, and it fits into the buffer.\<close>

definition rt_wf :: "rthread \<Rightarrow> bool" where
  "rt_wf th \<longleftrightarrow> length (rt_buffer th) = 65536 \<and>
     rt_phase th \<noteq> Rt_Exit \<and> rt_readlength th < rt_limit th"

definition rt_fits :: "rthread \<Rightarrow> bool" where
  "rt_fits th \<longleftrightarrow> (case rt_phase th of Rt_Body \<Rightarrow> 32 + unat (rt_datalength th) \<le> 65536 | _ \<Rightarrow> True)"

lemma rt_wf_restart [simp]: "rt_wf (rt_restart th) \<longleftrightarrow> length (rt_buffer th) = 65536"
  by (simp add: rt_wf_def rt_restart_def rt_limit_def)

lemma rt_wf_body [simp]:
  "rt_wf (th\<lparr>rt_phase := Rt_Body, rt_readlength := 0, rt_datalength := l, rt_type := t\<rparr>) \<longleftrightarrow>
     length (rt_buffer th) = 65536 \<and> 0 < l"
  by (simp add: rt_wf_def rt_limit_def)

text \<open>The effect on the client of a whole frame whose hash is right.\<close>

definition hand_over :: "u32 \<Rightarrow> bytes \<Rightarrow> ClientBase \<Rightarrow> ClientBase option" where
  "hand_over t d c =
     (if t = GetReceiveType c then SetReceivedDataAndType (Some d) (of_nat (length d)) c
      else Client_Execute t (Some d) (of_nat (length d)) c)"

definition answer :: "net \<Rightarrow> bytes \<Rightarrow> bool \<Rightarrow> ClientBase \<Rightarrow> ClientBase" where
  "answer net h ok c =
     (if cb_socket c = INVALID_SOCKET then c\<lparr>cb_reply_hashcode := Some h\<rparr>
      else (emit (tx net c (reply_frame h (reply_type ok))) c)\<lparr>cb_reply_hashcode := None\<rparr>)"

lemma SetReceived_take:
  "unat len \<le> length d \<Longrightarrow> SetReceivedDataAndType (Some d) len c =
     SetReceivedDataAndType (Some (take (unat len) d)) len c"
  by (simp add: SetReceived_eq)

lemma Client_Execute_take:
  "unat len \<le> length d \<Longrightarrow> Client_Execute t (Some d) len c =
     Client_Execute t (Some (take (unat len) d)) len c"
  by (simp add: Client_Execute_eq message_def)

lemma hand_over_inv:
  assumes "cb_inv c" "length d < 2 ^ 32"
  shows "\<exists>c'. hand_over t d c = Some c' \<and> cb_inv c' \<and> same_conn c c' \<and>
           cb_reply_hashcode c' = cb_reply_hashcode c \<and>
           cb_last_sent_bytes c' = cb_last_sent_bytes c \<and>
           cb_send_succeeded c' = cb_send_succeeded c"
proof (cases "t = GetReceiveType c")
  case True
  have "unat (of_nat (length d) :: u32) = length d" using assms(2) by (simp add: unat_of_nat)
  then show ?thesis
    using True assms
    by (auto simp: hand_over_def SetReceived_eq cb_inv_def same_conn_def split: if_splits)
next
  case False
  have "unat (of_nat (length d) :: u32) = length d" using assms(2) by (simp add: unat_of_nat)
  then show ?thesis
    using False Client_Execute_inv [OF assms(1), of "of_nat (length d)" d t]
    by (auto simp: hand_over_def same_conn_def)
qed

lemma hand_over_hash:
  "hand_over t d (c\<lparr>cb_reply_hashcode := h\<rparr>) =
     map_option (\<lambda>c'. c'\<lparr>cb_reply_hashcode := h\<rparr>) (hand_over t d c)"
proof (cases "t = GetReceiveType c")
  case True
  have "unat (of_nat (length d) :: u32) \<le> length d" by (simp add: unat_of_nat)
  with True show ?thesis
    by (simp add: hand_over_def GetReceiveType_def SetReceived_eq emit_def)
next
  case False
  then show ?thesis
    by (auto simp: hand_over_def GetReceiveType_def Client_Execute_def split: bind_splits option.splits)
qed

text \<open>
  The hash in a complete buffer decides: right, the data is handed over and acknowledged;
  wrong, nothing is handed over and the frame is refused.
\<close>

lemma rt_frame_done_eq:
  assumes "cb_inv c" "length (rt_buffer th) = 65536" "32 + unat (rt_datalength th) \<le> 65536"
  defines "body \<equiv> take (16 + unat (rt_datalength th)) (drop 16 (rt_buffer th))"
  defines "d \<equiv> take (unat (rt_datalength th)) (drop 32 (rt_buffer th))"
  defines "h \<equiv> take 16 (rt_buffer th)"
  shows "rt_frame_done net (th, c) =
     (if md5 body = h
      then map_option (\<lambda>c'. (rt_restart th, answer net h True c')) (hand_over (rt_type th) d c)
      else Some (rt_restart th, answer net h False c))"
proof -
  let ?n = "unat (rt_datalength th)"
  have dl: "rt_datalength th + 16 = of_nat (16 + ?n)" by simp
  have md: "MDBytes (drop 16 (rt_buffer th)) (rt_datalength th + 16) = Some (md5 body)"
    unfolding dl using assms(2,3) by (subst MDBytes_eq) (simp_all add: body_def)
  have lh: "length h = 16" using assms(2) by (simp add: h_def)
  have hh: "MD5Hash (header_at (rt_buffer th)) = h" by (simp add: header_at_def h_def)
  let ?c = "c\<lparr>cb_reply_hashcode := Some h\<rparr>"
  have set: "SetReplyHashcode (Some h) c = Some ?c"
    using SetReplyHashcode_Some [OF assms(1) lh] .
  have inv: "cb_inv ?c" using assms(1) lh by (auto simp: cb_inv_def)
  have ld: "length d = ?n" using assms(2,3) by (simp add: d_def)
  have un: "of_nat (length d) = rt_datalength th" by (simp add: ld)
  have le: "?n \<le> length (drop 32 (rt_buffer th))" using assms(2,3) by simp
  have ho: "(if rt_type th = GetReceiveType ?c
      then SetReceivedDataAndType (Some (drop 32 (rt_buffer th))) (rt_datalength th) ?c
      else Client_Execute (rt_type th) (Some (drop 32 (rt_buffer th))) (rt_datalength th) ?c) =
    hand_over (rt_type th) d ?c"
    unfolding hand_over_def un
    using SetReceived_take [OF le] Client_Execute_take [OF le] by (simp add: d_def)
  have rep: "Reply net ok c' = Some (answer net h ok c')"
    if "cb_inv c'" "cb_reply_hashcode c' = Some h" for c' ok
  proof (cases "cb_socket c' = INVALID_SOCKET")
    case True
    then show ?thesis using Reply_none [OF that(1)] that(2) by (simp add: answer_def)
  next
    case False
    then show ?thesis using Reply_send [OF that(1) False that(2)] by (simp add: answer_def)
  qed
  have ans: "answer net h ok (c'\<lparr>cb_reply_hashcode := Some h\<rparr>) = answer net h ok c'" for c' ok
    by (simp add: answer_def emit_def tx_def)
  obtain c' where c': "hand_over (rt_type th) d ?c = Some c'" "cb_inv c'"
      "cb_reply_hashcode c' = Some h"
    using hand_over_inv [OF inv, of d "rt_type th"] ld assms(3) by auto
  obtain c0 where c0: "hand_over (rt_type th) d c = Some c0" "c' = c0\<lparr>cb_reply_hashcode := Some h\<rparr>"
    using hand_over_hash [of "rt_type th" d "Some h" c] c'(1)
    by (cases "hand_over (rt_type th) d c") simp_all
  have mem: "memcmp0 (md5 body) h 16 = Some (md5 body = h)"
    using lh by (simp add: memcmp0_def)
  show ?thesis
    using rep [OF inv, of False] rep [OF c'(2,3), of True]
    by (simp add: rt_frame_done_def Let_def md hh set mem ho c' c0(1))
      (simp add: c0(2) ans ans [of False c])
qed

subsection \<open>Bytes may arrive in any pieces\<close>

lemma rt_limit_update [simp]:
  "rt_limit (th\<lparr>rt_buffer := b\<rparr>) = rt_limit th"
  "rt_limit (th\<lparr>rt_readlength := r\<rparr>) = rt_limit th"
  by (simp_all add: rt_limit_def split: rt_phase.split)

lemma unat_lt32: "unat (l :: u32) < 4294967296"
  by (rule order_less_le_trans [OF unsigned_less]) simp

lemma unat_add_small:
  fixes r l :: u32
  assumes "unat r + n \<le> unat l"
  shows "unat (r + of_nat n) = unat r + n"
proof -
  have "unat r + n < 2 ^ 32" using assms unat_lt32 [of l] by simp
  then show ?thesis by (simp add: unat_word_ariths unat_of_nat)
qed

lemma rt_recv_step:
  fixes x :: byte
  assumes "rt_offset th < length (rt_buffer th)" "unat (rt_readlength th) + 1 < unat (rt_limit th)"
  defines "th1 \<equiv> th\<lparr>rt_buffer := blit (rt_buffer th) (rt_offset th) [x],
                    rt_readlength := rt_readlength th + 1\<rparr>"
  shows "rt_recv net [x] (th, c) = Some (th1, c)"
    "unat (rt_readlength th1) = unat (rt_readlength th) + 1" "rt_offset th1 = Suc (rt_offset th)"
    "rt_limit th1 = rt_limit th" "rt_phase th1 = rt_phase th"
proof -
  show u: "unat (rt_readlength th1) = unat (rt_readlength th) + 1"
    using unat_add_small [of "rt_readlength th" 1 "rt_limit th"] assms(2) by (simp add: th1_def)
  show "rt_offset th1 = Suc (rt_offset th)"
    using u by (simp add: rt_offset_def th1_def)
  show "rt_limit th1 = rt_limit th" "rt_phase th1 = rt_phase th"
    by (simp_all add: th1_def)
  show "rt_recv net [x] (th, c) = Some (th1, c)"
    using assms(1,2) u by (simp add: rt_recv_def cmem th1_def word_less_nat_alt)
qed

lemma rt_recv_split:
  assumes "unat (rt_readlength th) + length (x # xs) \<le> unat (rt_limit th)" "xs \<noteq> []"
  shows "rt_recv net (x # xs) (th, c) = Option.bind (rt_recv net [x] (th, c)) (rt_recv net xs)"
proof (cases "rt_offset th < length (rt_buffer th)")
  case False
  then show ?thesis by (simp add: rt_recv_def memcpy_def)
next
  case True
  let ?o = "rt_offset th" and ?r = "rt_readlength th"
  have more: "unat ?r + 1 < unat (rt_limit th)" using assms by (cases xs) auto
  define th1 where "th1 = th\<lparr>rt_buffer := blit (rt_buffer th) ?o [x], rt_readlength := ?r + 1\<rparr>"
  note s = rt_recv_step [OF True more, where x = x, folded th1_def]
  have "memcpy (rt_buffer th1) (rt_offset th1) xs 0 (length xs) =
        memcpy (rt_buffer th) ?o (x # xs) 0 (length (x # xs))"
    unfolding s(3) using True by (simp add: memcpy_def blit_Cons) (simp add: th1_def blit_Cons)
  moreover have "rt_readlength th1 + of_nat (length xs) = ?r + of_nat (length (x # xs))"
    by (simp add: th1_def)
  ultimately show ?thesis
    unfolding s(1) by (simp add: rt_recv_def th1_def add.assoc)
qed

lemma rt_recv_feed:
  assumes "unat (rt_readlength th) + length bs \<le> unat (rt_limit th)" "bs \<noteq> []"
  shows "rt_recv net bs (th, c) = rt_feed net bs (th, c)"
  using assms
proof (induction bs arbitrary: th)
  case (Cons x xs)
  show ?case
  proof (cases "xs = []")
    case False
    show ?thesis
    proof (cases "rt_offset th < length (rt_buffer th)")
      case True
      have more: "unat (rt_readlength th) + 1 < unat (rt_limit th)"
        using Cons.prems(1) False by (cases xs) auto
      note s = rt_recv_step [OF True more, where x = x]
      show ?thesis
        using Cons.IH [of "th\<lparr>rt_buffer := blit (rt_buffer th) (rt_offset th) [x],
            rt_readlength := rt_readlength th + 1\<rparr>"] Cons.prems(1) s False
        unfolding rt_recv_split [OF Cons.prems(1) False] by simp
    qed (simp add: rt_recv_def memcpy_def)
  qed (cases "rt_recv net [x] (th, c)"; simp)
qed simp

lemma rt_feed_append: "rt_feed net (xs @ ys) s = Option.bind (rt_feed net xs s) (rt_feed net ys)"
proof (induction xs arbitrary: s)
  case (Cons x xs)
  then show ?case by (cases "rt_recv net [x] s") auto
qed simp

subsection \<open>Whole headers and whole frames\<close>

lemma rt_header_done_eq:
  assumes "cb_inv c" "length h = 16" "length (rt_buffer th) = 65536"
    "take 32 (rt_buffer th) = h @ str ''CX180'' @ [0, 0, 0] @ le32 l @ le32 t"
  shows "rt_header_done net (th, c) =
     (if t = MSG_DATA_CORRECT then Some (rt_restart th, deal_reply net h True c)
      else if t = MSG_DATA_ERROR then Some (rt_restart th, deal_reply net h False c)
      else if t = MSG_CONNECT then Some (rt_restart th, StopConnectWaiting c)
      else (let th1 = th\<lparr>rt_phase := Rt_Body, rt_readlength := 0, rt_datalength := l, rt_type := t\<rparr> in
            if 0 < l then Some (th1, c) else rt_frame_done net (th1, c)))"
proof -
  have b: "rt_buffer th = h @ (str ''CX180'' @ [0, 0, 0]) @ le32 l @ le32 t @ drop 32 (rt_buffer th)"
    using append_take_drop_id [of 32 "rt_buffer th", symmetric] unfolding assms(4) by simp
  have "header_at (rt_buffer th) =
      \<lparr>MD5Hash = h, AppFlag = str ''CX180'' @ [0, 0, 0], DataLength = l, Type = t\<rparr>"
    by (subst b, rule header_at_layout) (simp_all add: assms(2))
  then show ?thesis
    by (simp add: rt_header_done_def Let_def strncmp_flag DealReplyMessage_eq [OF assms(1,2)])
qed

text \<open>The thread after \<open>bs\<close> came in from the start of the buffer.\<close>

definition rt_got :: "bytes \<Rightarrow> rthread \<Rightarrow> rthread" where
  "rt_got bs th = th\<lparr>rt_buffer := blit (rt_buffer th) 0 bs\<rparr>"

definition rt_idle :: "rthread \<Rightarrow> bool" where
  "rt_idle th \<longleftrightarrow> rt_phase th = Rt_Header \<and> rt_readlength th = 0 \<and> length (rt_buffer th) = 65536"

lemma rt_idle_wf: "rt_idle th \<Longrightarrow> rt_wf th"
  by (simp add: rt_idle_def rt_wf_def rt_limit_def)

lemma rt_idle_restart [simp]: "length (rt_buffer th) = 65536 \<Longrightarrow> rt_idle (rt_restart th)"
  by (simp add: rt_idle_def rt_restart_def)

lemma rt_feed_header:
  assumes "rt_idle th" "length hdr = 32"
  shows "rt_feed net hdr (th, c) = rt_header_done net ((rt_got hdr th)\<lparr>rt_readlength := 32\<rparr>, c)"
proof -
  have "rt_recv net hdr (th, c) = rt_header_done net ((rt_got hdr th)\<lparr>rt_readlength := 32\<rparr>, c)"
    using assms by (simp add: rt_idle_def rt_recv_def rt_offset_def rt_limit_def rt_got_def cmem)
  moreover have "rt_recv net hdr (th, c) = rt_feed net hdr (th, c)"
    by (rule rt_recv_feed) (use assms in \<open>auto simp: rt_idle_def rt_limit_def\<close>)
  ultimately show ?thesis by simp
qed

text \<open>A reply or the connect message.\<close>

lemma rt_feed_reply:
  assumes "cb_inv c" "rt_idle th" "length h = 16"
  shows "rt_feed net (reply_frame h (reply_type ok)) (th, c) =
     Some (rt_got (reply_frame h (reply_type ok)) th, deal_reply net h ok c)"
proof -
  let ?f = "reply_frame h (reply_type ok)"
  let ?th = "(rt_got ?f th)\<lparr>rt_readlength := 32\<rparr>"
  have "rt_feed net ?f (th, c) = rt_header_done net (?th, c)"
    by (rule rt_feed_header) (use assms in simp_all)
  moreover have "rt_restart ?th = rt_got ?f th"
    using assms(2) by (simp add: rt_restart_def rt_got_def rt_idle_def)
  moreover have tk: "take 32 (rt_buffer ?th) =
      h @ str ''CX180'' @ [0, 0, 0] @ le32 0 @ le32 (reply_type ok)"
    using assms(3) by (simp add: rt_got_def blit_def) (simp add: reply_frame_def)
  moreover have len: "length (rt_buffer ?th) = 65536"
    using assms(2,3) by (simp add: rt_got_def rt_idle_def)
  moreover have "rt_header_done net (?th, c) = Some (rt_restart ?th, deal_reply net h ok c)"
    unfolding rt_header_done_eq [OF assms(1,3) len tk]
    by (cases ok) (simp_all add: reply_type_def msg_defs)
  ultimately show ?thesis by simp
qed

text \<open>
  Sixteen bytes and the rest of a frame of a type that is not one of the three messages of the
  protocol itself.
\<close>

lemma rt_feed_frame:
  assumes "cb_inv c" "rt_idle th" "length h = 16" "length d \<le> 65504"
    "t \<noteq> MSG_DATA_CORRECT" "t \<noteq> MSG_DATA_ERROR" "t \<noteq> MSG_CONNECT"
  defines "th' \<equiv> (rt_got (h @ frame_body t d) th)\<lparr>rt_datalength := of_nat (length d), rt_type := t\<rparr>"
  shows "rt_feed net (h @ frame_body t d) (th, c) =
     (if frame_hash t d = h
      then map_option (\<lambda>c'. (th', answer net h True c')) (hand_over t d c)
      else Some (th', answer net h False c))"
proof -
  define hdr where "hdr = h @ str ''CX180'' @ [0, 0, 0] @ le32 (of_nat (length d)) @ le32 t"
  let ?l = "of_nat (length d) :: u32"
  have lh: "length hdr = 32" using assms(3) by (simp add: hdr_def)
  have un: "unat ?l = length d" using assms(4) by (simp add: unat_of_nat)
  have f: "h @ frame_body t d = hdr @ d" by (simp add: hdr_def frame_body_def)
  have lb: "length (rt_buffer th) = 65536" using assms(2) by (simp add: rt_idle_def)
  let ?th = "(rt_got hdr th)\<lparr>rt_readlength := 32\<rparr>"
  let ?th1 = "?th\<lparr>rt_phase := Rt_Body, rt_readlength := 0, rt_datalength := ?l, rt_type := t\<rparr>"
  have lt: "length (rt_buffer ?th) = 65536" using lb lh by (simp add: rt_got_def)
  have tk: "take 32 (rt_buffer ?th) = h @ str ''CX180'' @ [0, 0, 0] @ le32 ?l @ le32 t"
    using lh by (simp add: rt_got_def blit_def) (simp add: hdr_def)
  have hd: "rt_feed net hdr (th, c) = (if 0 < ?l then Some (?th1, c) else rt_frame_done net (?th1, c))"
    unfolding rt_feed_header [OF assms(2) lh] rt_header_done_eq [OF assms(1,3) lt tk]
    using assms(5-7) by simp
  define th2 where "th2 = (rt_got (hdr @ d) th)\<lparr>rt_phase := Rt_Body, rt_readlength := ?l,
      rt_datalength := ?l, rt_type := t\<rparr>"
  have body: "rt_feed net (hdr @ d) (th, c) = rt_frame_done net (th2, c)"
  proof (cases "d = []")
    case True
    then show ?thesis using hd by (simp add: th2_def)
  next
    case False
    then have "0 < ?l" using un by (simp add: word_less_nat_alt)
    then have "rt_feed net (hdr @ d) (th, c) = rt_feed net d (?th1, c)"
      by (simp add: rt_feed_append hd)
    also have "\<dots> = rt_recv net d (?th1, c)"
      by (rule rt_recv_feed [symmetric]) (use False un in \<open>simp_all add: rt_limit_def\<close>)
    also have "\<dots> = rt_frame_done net (th2, c)"
      using lb lh assms(4) blit_blit [of 0 hdr "rt_buffer th" d]
      by (cases th) (simp add: rt_recv_def rt_offset_def rt_limit_def rt_got_def cmem th2_def)
    finally show ?thesis .
  qed
  have len: "length (rt_buffer th2) = 65536" "32 + unat (rt_datalength th2) \<le> 65536"
    using lb lh un assms(4) by (simp_all add: th2_def rt_got_def)
  have parts: "take 16 (rt_buffer th2) = h" "rt_type th2 = t" "unat (rt_datalength th2) = length d"
      "take (16 + length d) (drop 16 (rt_buffer th2)) = frame_body t d"
      "take (length d) (drop 32 (rt_buffer th2)) = d"
    using lh assms(3) un f by (simp_all add: th2_def rt_got_def blit_def flip: f)
      (simp_all add: frame_body_def)
  have "rt_restart th2 = th'"
    using assms(2) f by (simp add: th2_def th'_def rt_restart_def rt_got_def rt_idle_def)
  then show ?thesis
    using rt_frame_done_eq [OF assms(1) len, of net] unfolding f body parts
    by (simp add: frame_hash_def)
qed

subsection \<open>Runs\<close>

lemma bind_SomeE:
  assumes "Option.bind m f = Some y" obtains x where "m = Some x" "f x = Some y"
  using assms by (cases m) auto

lemma CoreSend_same: "CoreSend net s d l c = Some (r, c') \<Longrightarrow> same_conn c c'"
  by (auto simp: CoreSend_def Let_def split: if_splits)

lemma SetReplyHashcode_same: "SetReplyHashcode h c = Some c' \<Longrightarrow> same_conn c c'"
  by (auto simp: SetReplyHashcode_def same_conn_def split: option.splits elim!: bind_SomeE)

lemma Reply_same: "Reply net ok c = Some c' \<Longrightarrow> same_conn c c'"
  by (auto simp: Reply_def Let_def split: if_splits option.splits elim!: bind_SomeE
      dest!: CoreSend_same SetReplyHashcode_same intro: same_conn_trans)

lemma SetReceived_same: "SetReceivedDataAndType d l c = Some c' \<Longrightarrow> same_conn c c'"
  by (auto simp: SetReceivedDataAndType_def Let_def same_conn_def split: if_splits option.splits
      elim!: bind_SomeE)

lemma Client_Execute_same: "Client_Execute t d l c = Some c' \<Longrightarrow> same_conn c c'"
  by (auto simp: Client_Execute_def same_conn_def elim!: bind_SomeE)

lemma DealReplyMessage_same: "DealReplyMessage net h ok c = Some c' \<Longrightarrow> same_conn c c'"
  by (auto simp: DealReplyMessage_def StopSendWaiting_def SetIsSendSucceeded_def same_conn_def
      split: if_splits option.splits elim!: bind_SomeE dest!: CoreSend_same)

lemma rt_frame_done_same:
  assumes "rt_frame_done net (th, c) = Some (th', c')"
  shows "th' = rt_restart th \<and> same_conn c c'"
  using assms unfolding rt_frame_done_def Let_def prod.case
  by (elim bind_SomeE)
    (auto split: if_splits elim!: bind_SomeE dest!: SetReplyHashcode_same SetReceived_same
      Client_Execute_same Reply_same intro: same_conn_trans)

lemma rt_header_done_same:
  assumes "rt_header_done net (th, c) = Some (th', c')" "length (rt_buffer th) = 65536"
  shows "rt_wf th' \<and> same_conn c c'"
proof -
  obtain cmp where cmp: "strncmp APP_FLAG (AppFlag (header_at (rt_buffer th))) (strlen APP_FLAG) = Some cmp"
    using assms(1) unfolding rt_header_done_def Let_def prod.case by (elim bind_SomeE)
  show ?thesis
    using assms cmp
    by (auto simp: rt_header_done_def Let_def rt_limit_def
        StopConnectWaiting_def
        split: if_splits elim!: bind_SomeE dest!: DealReplyMessage_same rt_frame_done_same)
qed

lemma rt_recv_same:
  assumes "rt_recv net bs (th, c) = Some (th', c')" "rt_wf th"
  shows "rt_wf th' \<and> same_conn c c'"
proof -
  obtain b where b: "memcpy (rt_buffer th) (rt_offset th) bs 0 (length bs) = Some b"
      and r0: "(let th1 = th\<lparr>rt_buffer := b, rt_readlength := rt_readlength th + of_nat (length bs)\<rparr> in
        if rt_readlength th1 < rt_limit th1 then Some (th1, c)
        else case rt_phase th1 of Rt_Header \<Rightarrow> rt_header_done net (th1, c)
             | _ \<Rightarrow> rt_frame_done net (th1, c)) = Some (th', c')"
    using assms(1) unfolding rt_recv_def prod.case by (elim bind_SomeE)
  then have l: "length b = 65536" using assms(2) by (auto simp: rt_wf_def dest: memcpy_length)
  define th1 where "th1 = th\<lparr>rt_buffer := b, rt_readlength := rt_readlength th + of_nat (length bs)\<rparr>"
  have l1: "length (rt_buffer th1) = 65536" "rt_phase th1 = rt_phase th" using l by (simp_all add: th1_def)
  have r: "(if rt_readlength th1 < rt_limit th1 then Some (th1, c)
      else case rt_phase th1 of Rt_Header \<Rightarrow> rt_header_done net (th1, c)
           | _ \<Rightarrow> rt_frame_done net (th1, c)) = Some (th', c')"
    using r0 unfolding Let_def th1_def .
  show ?thesis
  proof (cases "rt_readlength th1 < rt_limit th1")
    case True
    then show ?thesis using r l1 assms(2) by (auto simp: rt_wf_def)
  next
    case False
    then show ?thesis
      using r l1 rt_header_done_same [of net th1 c th' c'] rt_frame_done_same [of net th1 c th' c']
      by (auto split: rt_phase.splits)
  qed
qed

definition quiet :: "sock_event \<Rightarrow> bool" where
  "quiet ev = (case ev of SelectTimeout \<Rightarrow> True | Readable n \<Rightarrow> True | _ \<Rightarrow> False)"

definition readable :: "sock_event \<Rightarrow> bool" where
  "readable ev = (case ev of Readable n \<Rightarrow> True | _ \<Rightarrow> False)"

lemma rt_run_feed:
  assumes "rt_wf th" "KeepReceiving c" "\<forall>ev \<in> set evs. quiet ev"
    "length rx \<le> length (filter readable evs)"
  shows "rt_run net evs (rx, th, c) = map_option (Pair []) (rt_feed net rx (th, c))"
  using assms
proof (induction evs arbitrary: rx th c)
  case (Cons ev evs)
  have ph: "rt_phase th \<noteq> Rt_Exit" "rt_readlength th < rt_limit th"
    using Cons.prems(1) by (auto simp: rt_wf_def)
  show ?case
  proof (cases ev)
    case SelectTimeout
    then have "rt_step net ev (rx, th, c) = Some (rx, th, c)"
      using ph Cons.prems(2) by (simp add: rt_step_def)
    then show ?thesis
      using Cons.IH [OF Cons.prems(1,2), of rx] Cons.prems(3,4) SelectTimeout
      by (simp add: readable_def)
  next
    case (Readable n)
    define k where "k = min (Suc n) (min (unat (rt_limit th - rt_readlength th)) (length rx))"
    have want: "unat (rt_limit th - rt_readlength th) = unat (rt_limit th) - unat (rt_readlength th)"
      using ph(2) by (intro unat_sub) (simp add: word_less_nat_alt word_le_nat_alt)
    show ?thesis
    proof (cases "rx = []")
      case True
      then have "rt_step net ev (rx, th, c) = Some (rx, th, c)"
        using ph Cons.prems(2) Readable by (simp add: rt_step_def)
      then show ?thesis
        using Cons.IH [OF Cons.prems(1,2), of rx] Cons.prems(3) True by simp
    next
      case False
      have k: "0 < k" "k \<le> length rx" "unat (rt_readlength th) + k \<le> unat (rt_limit th)"
        using False ph(2) want by (auto simp: k_def word_less_nat_alt)
      have nz: "take k rx \<noteq> []" using k False by auto
      have recv: "rt_recv net (take k rx) (th, c) = rt_feed net (take k rx) (th, c)"
        by (rule rt_recv_feed) (use k nz in auto)
      have st: "rt_step net ev (rx, th, c) =
          Option.bind (rt_recv net (take k rx) (th, c)) (\<lambda>(th1, c1). Some (drop k rx, th1, c1))"
        using ph Cons.prems(2) Readable k(1) by (simp add: rt_step_def k_def [symmetric] Let_def)
      have all: "rt_feed net rx (th, c) =
          Option.bind (rt_feed net (take k rx) (th, c)) (rt_feed net (drop k rx))"
        by (metis append_take_drop_id rt_feed_append)
      show ?thesis
      proof (cases "rt_recv net (take k rx) (th, c)")
        case None
        then show ?thesis using st all recv by simp
      next
        case (Some s)
        then obtain th1 c1 where s: "rt_recv net (take k rx) (th, c) = Some (th1, c1)"
          by (cases s) auto
        from rt_recv_same [OF s Cons.prems(1)] have w: "rt_wf th1" "same_conn c c1" by auto
        have keep: "KeepReceiving c1" using same_conn_keep [OF w(2)] Cons.prems(2) by simp
        have "rt_run net evs (drop k rx, th1, c1) =
            map_option (Pair []) (rt_feed net (drop k rx) (th1, c1))"
          by (rule Cons.IH [OF w(1) keep])
            (use Cons.prems(3,4) k Readable in \<open>auto simp: readable_def\<close>)
        moreover have "rt_feed net (take k rx) (th, c) = Some (th1, c1)" using s recv by simp
        ultimately show ?thesis using st all s by simp
      qed
    qed
  qed (use Cons.prems(3) in \<open>simp_all add: quiet_def\<close>)
qed simp

subsection \<open>Streams of frames\<close>

definition user_frame :: "u32 \<times> bytes \<Rightarrow> bool" where
  "user_frame f \<longleftrightarrow> fst f \<notin> {MSG_DATA_CORRECT, MSG_DATA_ERROR, MSG_CONNECT} \<and>
     length (snd f) \<le> 65504"

fun deliver_all :: "net \<Rightarrow> (u32 \<times> bytes) list \<Rightarrow> ClientBase \<Rightarrow> ClientBase option" where
  "deliver_all net [] c = Some c"
| "deliver_all net ((t, d) # fs) c = do {
     c1 \<leftarrow> hand_over t d c;
     deliver_all net fs (answer net (frame_hash t d) True c1)
   }"

lemma answer_inv: "cb_inv c \<Longrightarrow> length h = 16 \<Longrightarrow> cb_inv (answer net h ok c)"
  by (auto simp: answer_def cb_inv_def)

lemma answer_same: "same_conn c (answer net h ok c)"
  by (simp add: answer_def same_conn_def)

lemma rt_feed_frames:
  assumes "cb_inv c" "rt_idle th" "\<forall>f \<in> set fs. user_frame f"
  shows "\<exists>th' c'. rt_feed net (concat (map (\<lambda>(t, d). frame t d) fs)) (th, c) = Some (th', c') \<and>
           deliver_all net fs c = Some c' \<and> rt_idle th' \<and> cb_inv c' \<and> same_conn c c'"
  using assms
proof (induction fs arbitrary: th c)
  case (Cons f fs)
  obtain t d where f: "f = (t, d)" by (cases f)
  have u: "t \<noteq> MSG_DATA_CORRECT" "t \<noteq> MSG_DATA_ERROR" "t \<noteq> MSG_CONNECT" "length d \<le> 65504"
    using Cons.prems(3) f by (auto simp: user_frame_def)
  obtain c1 where c1: "hand_over t d c = Some c1" "cb_inv c1" "same_conn c c1"
    using hand_over_inv [OF Cons.prems(1), of d t] u(4) by auto
  define c2 where "c2 = answer net (frame_hash t d) True c1"
  define th1 where "th1 = (rt_got (frame_hash t d @ frame_body t d) th)
      \<lparr>rt_datalength := of_nat (length d), rt_type := t\<rparr>"
  have one: "rt_feed net (frame t d) (th, c) = Some (th1, c2)"
    using rt_feed_frame [OF Cons.prems(1,2) length_frame_hash u(4,1-3), where net = net] c1
    by (simp add: frame_def th1_def c2_def)
  have idle: "rt_idle th1"
    using Cons.prems(2) u(4) by (simp add: th1_def rt_idle_def rt_got_def)
  have c2: "cb_inv c2" "same_conn c c2"
    using answer_inv [OF c1(2) length_frame_hash] same_conn_trans [OF c1(3) answer_same]
    by (simp_all add: c2_def)
  obtain th' c' where r: "rt_feed net (concat (map (\<lambda>(t, d). frame t d) fs)) (th1, c2) = Some (th', c')"
      "deliver_all net fs c2 = Some c'" "rt_idle th'" "cb_inv c'" "same_conn c2 c'"
    using Cons.IH [OF c2(1) idle] Cons.prems(3) by auto
  show ?case
    using r one c1(1) same_conn_trans [OF c2(2) r(5)] by (simp add: f rt_feed_append c2_def)
qed simp

text \<open>A network that takes everything it is given.\<close>

definition full_net :: net where
  "full_net l m = int (length m)"

lemma tx_full [simp]: "tx full_net c m = Sent m"
  by (simp add: tx_def full_net_def Let_def)

definition inbox :: "ClientBase \<Rightarrow> ReceivedData list" where
  "inbox c = q_view (ex_queue (cb_executer c))"

definition frame_message :: "u32 \<times> bytes \<Rightarrow> ReceivedData" where
  "frame_message f = message (fst f) (snd f) (of_nat (length (snd f)))"

lemma hand_over_queue:
  assumes "cb_inv c" "t \<noteq> cb_received_type c" "length (inbox c) < 256" "length d < 2 ^ 32"
  shows "\<exists>x. hand_over t d c = Some (c\<lparr>cb_executer := x\<rparr>) \<and> ex_inv x \<and>
           q_view (ex_queue x) = inbox c @ [frame_message (t, d)] \<and>
           ex_dropped x = ex_dropped (cb_executer c)"
proof -
  let ?l = "of_nat (length d) :: u32"
  have l: "unat ?l = length d" using assms(4) by (simp add: unat_of_nat)
  have wf: "wf_data (message t d ?l)" by (rule wf_message) (simp add: l)
  have ex: "ex_inv (cb_executer c)" using assms(1) by (simp add: cb_inv_def)
  then have q: "q_inv (ex_queue (cb_executer c))" "q_cap (ex_queue (cb_executer c)) = 256"
    by (simp_all add: ex_inv_def)
  from Execute_inv [OF ex wf] obtain x where
    x: "Executer_Execute (message t d ?l) (cb_executer c) = Some x" "ex_inv x" by blast
  have "q_view (ex_queue x) = inbox c @ [frame_message (t, d)] \<and>
        ex_dropped x = ex_dropped (cb_executer c)"
    by (rule Execute_cases [OF q(1) wf]) (use x assms(3) q(2) in \<open>auto simp: inbox_def frame_message_def\<close>)
  then show ?thesis
    using x assms(2) l by (auto simp: hand_over_def GetReceiveType_def Client_Execute_eq)
qed

lemma deliver_all_queue:
  assumes "cb_inv c" "cb_received_type c \<notin> fst ` set fs" "length (inbox c) + length fs \<le> 256"
    "\<forall>f \<in> set fs. user_frame f" "cb_socket c \<noteq> INVALID_SOCKET"
  shows "\<exists>c'. deliver_all full_net fs c = Some c' \<and> inbox c' = inbox c @ map frame_message fs \<and>
           cb_log c' = cb_log c @ map (\<lambda>(t, d). Sent (reply_frame (frame_hash t d) MSG_DATA_CORRECT)) fs"
  using assms
proof (induction fs arbitrary: c)
  case (Cons f fs)
  obtain t d where f: "f = (t, d)" by (cases f)
  have d: "length d < 2 ^ 32" using Cons.prems(4) f by (auto simp: user_frame_def)
  have room: "length (inbox c) < 256" using Cons.prems(3) by simp
  have ty: "t \<noteq> cb_received_type c" using Cons.prems(2) f by auto
  obtain x where x: "hand_over t d c = Some (c\<lparr>cb_executer := x\<rparr>)" "ex_inv x"
      "q_view (ex_queue x) = inbox c @ [frame_message (t, d)]"
    using hand_over_queue [OF Cons.prems(1) ty room d] by blast
  define c2 where "c2 = answer full_net (frame_hash t d) True (c\<lparr>cb_executer := x\<rparr>)"
  have inv: "cb_inv c2"
    unfolding c2_def by (rule answer_inv) (use Cons.prems(1) x(2) in \<open>auto simp: cb_inv_def\<close>)
  have c2: "inbox c2 = inbox c @ [frame_message f]" "cb_received_type c2 = cb_received_type c"
      "cb_socket c2 = cb_socket c"
      "cb_log c2 = cb_log c @ [Sent (reply_frame (frame_hash t d) MSG_DATA_CORRECT)]"
    using Cons.prems(5) x(3) by (simp_all add: c2_def answer_def inbox_def f reply_type_def)
  from Cons.IH [OF inv] Cons.prems(2-5) c2 x(1) show ?case by (auto simp: f c2_def)
qed simp

end
