(* ===== verification/Protocol.thy ===== *)
theory Protocol
  imports ReceiveThread
begin

text \<open>
  What the two ends of a connection achieve together: frames get through whatever the pieces
  in which they arrive, a damaged frame is refused and sent again, \<^verbatim>\<open>Send\<close> succeeds exactly
  on the acknowledgement of the frame it sent, \<^verbatim>\<open>Receive\<close> returns the message it waits for.
  The last section states where the code lets a peer write outside its buffer and where a
  message is acknowledged without being kept.
\<close>

subsection \<open>A connected client\<close>

definition connected :: "int \<Rightarrow> ClientBase" where
  "connected fd = (ClientBase_new 0 0)\<lparr>cb_socket := fd, cb_keep := True, cb_receive_thread := True\<rparr>"

definition idle_thread :: rthread where
  "idle_thread = rthread_new (replicate 65536 0)"

lemma rt_idle_thread: "rt_idle idle_thread"
  by (simp add: idle_thread_def rthread_new_def rt_idle_def)

lemma connected_inv: "cb_inv (connected fd)"
  by (simp add: connected_def ClientBase_new_def cb_inv_def ex_inv_new)

lemma connected_inbox: "inbox (connected fd) = []"
  using new_queue [of 256]
  by (simp add: inbox_def connected_def ClientBase_new_def EventExecuter_new_def
      MAX_EVENTS_IN_QUEUE_def)

lemma connected_simps [simp]:
  "cb_socket (connected fd) = fd" "cb_received_type (connected fd) = 0" "cb_log (connected fd) = []"
  "cb_send_succeeded (connected fd) = True" "cb_received_data (connected fd) = None"
  "cb_keep (connected fd) = True" "cb_isconnecting (connected fd) = False"
  "cb_last_sent_bytes (connected fd) = None" "cb_reply_hashcode (connected fd) = None"
  "cb_receive_thread (connected fd) = True"
  by (simp_all add: connected_def ClientBase_new_def)

lemma connected_keep: "fd \<noteq> INVALID_SOCKET \<Longrightarrow> KeepReceiving (connected fd)"
  by (auto simp: KeepReceiving_def)

subsection \<open>Frames get through\<close>

lemma frames_queued:
  assumes "cb_inv c" "KeepReceiving c" "rt_idle th" "\<forall>f \<in> set fs. user_frame f"
    "cb_received_type c \<notin> fst ` set fs" "length (inbox c) + length fs \<le> 256"
    "\<forall>ev \<in> set evs. quiet ev"
    "length (concat (map (\<lambda>(t, d). frame t d) fs)) \<le> length (filter readable evs)"
  shows "\<exists>th' c'. rt_run full_net evs (concat (map (\<lambda>(t, d). frame t d) fs), th, c) =
             Some ([], th', c') \<and> rt_idle th' \<and> cb_inv c' \<and>
           inbox c' = inbox c @ map frame_message fs \<and>
           cb_log c' = cb_log c @ map (\<lambda>(t, d). Sent (reply_frame (frame_hash t d) MSG_DATA_CORRECT)) fs"
proof -
  have s: "cb_socket c \<noteq> INVALID_SOCKET" using assms(2) by (auto simp: KeepReceiving_def)
  obtain th' c' where r: "rt_feed full_net (concat (map (\<lambda>(t, d). frame t d) fs)) (th, c) = Some (th', c')"
      "deliver_all full_net fs c = Some c'" "rt_idle th'" "cb_inv c'"
    using rt_feed_frames [OF assms(1,3,4)] by blast
  then show ?thesis
    using rt_run_feed [OF rt_idle_wf [OF assms(3)] assms(2,7,8), of full_net]
      deliver_all_queue [OF assms(1,5,6,4) s] by auto
qed

text \<open>
  C3: However the bytes of a sequence of frames are split over \<^verbatim>\<open>recv\<close> calls and time-outs, the
  receive thread queues exactly the messages of these frames, in order, and acknowledges each
  once by its hash.
\<close>

theorem frames_received:
  assumes "cb_inv c" "KeepReceiving c" "rt_idle th" "\<forall>f \<in> set fs. user_frame f"
    "cb_received_type c \<notin> fst ` set fs" "length (inbox c) + length fs \<le> 256"
    "\<forall>ev \<in> set evs. quiet ev"
    "length (concat (map (\<lambda>(t, d). frame t d) fs)) \<le> length (filter readable evs)"
  shows "\<exists>th' c'. rt_run full_net evs (concat (map (\<lambda>(t, d). frame t d) fs), th, c) =
             Some ([], th', c') \<and> rt_idle th' \<and>
           inbox c' = inbox c @ map frame_message fs \<and>
           cb_log c' = cb_log c @ map (\<lambda>(t, d). Sent (reply_frame (frame_hash t d) MSG_DATA_CORRECT)) fs"
  using frames_queued [OF assms] by blast

theorem frames_received_witness:
  "\<exists>th' c'. rt_run full_net (SelectTimeout # replicate 67 (Readable 4))
       (frame 272 [1, 2] @ frame 273 [3], idle_thread, connected 5) = Some ([], th', c') \<and>
     inbox c' = map frame_message [(272, [1, 2]), (273, [3])] \<and>
     cb_log c' = [Sent (reply_frame (frame_hash 272 [1, 2]) 0), Sent (reply_frame (frame_hash 273 [3]) 0)]"
proof -
  have "5 \<noteq> INVALID_SOCKET" by (simp add: INVALID_SOCKET_def)
  from frames_received [OF connected_inv connected_keep [OF this] rt_idle_thread,
      of "[(272, [1, 2]), (273, [3])]" "SelectTimeout # replicate 67 (Readable 4)"]
  show ?thesis
    by (auto simp: user_frame_def msg_defs connected_inbox quiet_def readable_def)
qed

subsection \<open>Damaged frames\<close>

text \<open>
  C34: A frame whose hash does not fit the rest changes nothing but the log: it is neither queued
  nor given to \<^verbatim>\<open>Receive\<close>, and \<^verbatim>\<open>MSG_DATA_ERROR\<close> is sent with the hash that came in.
\<close>

theorem damaged_frame_refused:
  assumes "cb_inv c" "KeepReceiving c" "rt_idle th" "user_frame (t, d)" "length h = 16"
    "h \<noteq> frame_hash t d" "\<forall>ev \<in> set evs. quiet ev"
    "32 + length d \<le> length (filter readable evs)" "cb_reply_hashcode c = None"
  shows "\<exists>th'. rt_run full_net evs (h @ frame_body t d, th, c) =
             Some ([], th', emit (Sent (reply_frame h MSG_DATA_ERROR)) c) \<and> rt_idle th'"
proof -
  have s: "cb_socket c \<noteq> INVALID_SOCKET" using assms(2) by (auto simp: KeepReceiving_def)
  have u: "t \<noteq> MSG_DATA_CORRECT" "t \<noteq> MSG_DATA_ERROR" "t \<noteq> MSG_CONNECT" "length d \<le> 65504"
    using assms(4) by (auto simp: user_frame_def)
  let ?th = "(rt_got (h @ frame_body t d) th)\<lparr>rt_datalength := of_nat (length d), rt_type := t\<rparr>"
  have "rt_feed full_net (h @ frame_body t d) (th, c) = Some (?th, answer full_net h False c)"
    using rt_feed_frame [OF assms(1,3,5) u(4,1-3), where net = full_net] assms(6) by simp
  moreover have "answer full_net h False c = emit (Sent (reply_frame h MSG_DATA_ERROR)) c"
    using s assms(9) by (simp add: answer_def reply_type_def)
  moreover have "rt_idle ?th"
    using assms(3,5) u(4) by (simp add: rt_idle_def rt_got_def)
  ultimately show ?thesis
    using rt_run_feed [OF rt_idle_wf [OF assms(3)] assms(2,7), of "h @ frame_body t d" full_net]
      assms(5,8) by simp
qed

text \<open>A hash with one wrong byte.\<close>

definition flip_byte :: "bytes \<Rightarrow> bytes" where
  "flip_byte h = h[0 := h ! 0 + 1]"

lemma flip_byte: "h \<noteq> [] \<Longrightarrow> flip_byte h \<noteq> h" "length (flip_byte h) = length h"
  by (cases h; simp add: flip_byte_def)+

theorem damaged_frame_refused_witness:
  "\<exists>th'. rt_run full_net (replicate 33 (Readable 0))
       (flip_byte (frame_hash 272 [1]) @ frame_body 272 [1], idle_thread, connected 5) =
     Some ([], th', emit (Sent (reply_frame (flip_byte (frame_hash 272 [1])) 1)) (connected 5))"
proof -
  have s: "5 \<noteq> INVALID_SOCKET" by (simp add: INVALID_SOCKET_def)
  have "frame_hash 272 [1] \<noteq> []" by (metis length_frame_hash list.size(3) zero_neq_numeral)
  then show ?thesis
    using damaged_frame_refused [OF connected_inv connected_keep [OF s] rt_idle_thread,
        of 272 "[1]" "flip_byte (frame_hash 272 [1])" "replicate 33 (Readable 0)"]
    by (auto simp: flip_byte user_frame_def msg_defs quiet_def readable_def)
qed

subsection \<open>Acknowledged sending\<close>

text \<open>The bytes that left through a log.\<close>

fun wire :: "action list \<Rightarrow> bytes" where
  "wire [] = []"
| "wire (Sent b # as) = b @ wire as"
| "wire (_ # as) = wire as"

lemma wire_append [simp]: "wire (xs @ ys) = wire xs @ wire ys"
  by (induction xs rule: wire.induct) auto

text \<open>
  The other end runs its receive thread on what came since the log had \<open>n\<close> entries, and this
  end's receive thread gets what it answers; then the wait is over.
\<close>

definition peer_answers :: "rthread \<Rightarrow> rthread \<times> ClientBase \<Rightarrow> nat \<Rightarrow> waiting" where
  "peer_answers th peer n c = do {
     (thp, p) \<leftarrow> rt_feed full_net (wire (drop n (cb_log c))) peer;
     (th', c') \<leftarrow> rt_feed full_net (wire (drop (length (cb_log (snd peer))) (cb_log p))) (th, c);
     Some (0, c')
   }"

text \<open>What \<^verbatim>\<open>Send\<close> has done when it starts to wait.\<close>

definition after_send :: "u32 \<Rightarrow> bytes \<Rightarrow> int \<Rightarrow> ClientBase \<Rightarrow> ClientBase" where
  "after_send t d time c =
     (emit (Sent (frame t d)) (c\<lparr>cb_last_sent_length := of_nat (length (frame t d)),
        cb_last_sent_bytes := Some (frame t d), cb_send_succeeded := False\<rparr>))
      \<lparr>cb_last_sent_time := time\<rparr>"

lemma Send_waits:
  assumes "cb_socket c \<noteq> INVALID_SOCKET" "cb_send_succeeded c" "length d \<le> 65504"
    "se_now e \<noteq> -1" "se_race e = Some"
  shows "Send full_net e t (Some d) (of_nat (length d)) timeout c =
     map_option (\<lambda>(r, c'). (if 0 < timeout \<or> r = 0 then IsSendSucceeded c' else False, c')) 
       (se_wait e (after_send t d (se_sent_time e) c))"
proof -
  define c1 where "c1 = after_send t d (se_sent_time e) c"
  have f: "CreateFrame APP_FLAG (Some d) (of_nat (length d)) t = Some (Some (frame t d))"
    by (rule CreateFrame_eq) (use assms(3) in simp)
  have l: "of_nat (length d) + 32 = (of_nat (length (frame t d)) :: u32)" by simp
  have un: "unat (of_nat (length (frame t d)) :: u32) = length (frame t d)"
    by (subst unat_of_nat) (use assms(3) in simp)
  have set: "SetLastSentBytes (Some (frame t d)) (of_nat (length (frame t d))) c =
      Some (c\<lparr>cb_last_sent_length := of_nat (length (frame t d)), cb_last_sent_bytes := Some (frame t d)\<rparr>)"
    by (rule SetLastSentBytes_Some) (use assms(3) un in auto)
  have snd: "CoreSend full_net s (frame t d) (of_nat (length (frame t d))) c' =
      Some (int (length (frame t d)), emit (Sent (frame t d)) c')" for s c'
    by (subst CoreSend_eq) (simp_all only: un take_all order_refl tx_full, simp add: full_net_def)
  have no: "\<not> IsSendSucceeded c1" by (simp add: IsSendSucceeded_def c1_def after_send_def)
  have ok: "IsSendSucceeded c" using assms(1,2) by (simp add: IsSendSucceeded_def)
  show ?thesis
    unfolding Send_def f l c1_def [symmetric]
    using assms(1,4,5) ok no
    by (cases "se_wait e c1")
      (auto simp: set snd SetIsSendSucceeded_def c1_def after_send_def Let_def simp del: of_nat_add length_frame)
qed

lemma after_send_inv: "cb_inv c \<Longrightarrow> length d \<le> 65504 \<Longrightarrow> cb_inv (after_send t d time c)"
  unfolding cb_inv_def after_send_def
  by (auto simp: unat_of_nat simp del: of_nat_add)

lemma after_send_simps:
  "cb_last_sent_bytes (after_send t d time c) = Some (frame t d)"
  "cb_send_succeeded (after_send t d time c) = False"
  "cb_socket (after_send t d time c) = cb_socket c" "cb_keep (after_send t d time c) = cb_keep c"
  "cb_log (after_send t d time c) = cb_log c @ [Sent (frame t d)]"
  by (simp_all add: after_send_def)

lemma take_16_frame [simp]: "take 16 (frame t d) = frame_hash t d"
  by (simp add: frame_def)

text \<open>The other end takes a sound frame, and what it sends back.\<close>

lemma peer_takes:
  assumes "cb_inv p" "KeepReceiving p" "rt_idle thp" "user_frame (t, d)"
    "t \<noteq> cb_received_type p" "length (inbox p) < 256"
  shows "\<exists>th' p'. rt_feed full_net (frame t d) (thp, p) = Some (th', p') \<and> rt_idle th' \<and>
     cb_inv p' \<and> KeepReceiving p' \<and> inbox p' = inbox p @ [frame_message (t, d)] \<and>
     wire (drop (length (cb_log p)) (cb_log p')) = reply_frame (frame_hash t d) (reply_type True) \<and>
     IsSendSucceeded p' = IsSendSucceeded p \<and> cb_received_type p' = cb_received_type p"
proof -
  have s: "cb_socket p \<noteq> INVALID_SOCKET" using assms(2) by (auto simp: KeepReceiving_def)
  have d: "length d < 2 ^ 32" using assms(4) by (simp add: user_frame_def)
  obtain th' p' where r: "rt_feed full_net (frame t d) (thp, p) = Some (th', p')" "rt_idle th'"
      "cb_inv p'" "same_conn p p'" "deliver_all full_net [(t, d)] p = Some p'"
    using rt_feed_frames [OF assms(1,3), of "[(t, d)]" full_net] assms(4) by auto
  obtain x where x: "hand_over t d p = Some (p\<lparr>cb_executer := x\<rparr>)"
      "q_view (ex_queue x) = inbox p @ [frame_message (t, d)]"
    using hand_over_queue [OF assms(1,5,6) d] by blast
  have p': "p' = answer full_net (frame_hash t d) True (p\<lparr>cb_executer := x\<rparr>)" using r(5) x(1) by simp
  have "KeepReceiving p'" using same_conn_keep [OF r(4)] assms(2) by simp
  then show ?thesis
    using r(1-3) s x(2) by (auto simp: p' answer_def inbox_def IsSendSucceeded_def reply_type_def)
qed

text \<open>It refuses one whose hash does not fit.\<close>

lemma peer_refuses:
  assumes "cb_inv p" "KeepReceiving p" "rt_idle thp" "user_frame (t, d)" "length h = 16"
    "h \<noteq> frame_hash t d"
  shows "\<exists>th' p'. rt_feed full_net (h @ frame_body t d) (thp, p) = Some (th', p') \<and> rt_idle th' \<and>
     cb_inv p' \<and> KeepReceiving p' \<and> inbox p' = inbox p \<and> cb_received_type p' = cb_received_type p \<and>
     wire (drop (length (cb_log p)) (cb_log p')) = reply_frame h (reply_type False)"
proof -
  have s: "cb_socket p \<noteq> INVALID_SOCKET" using assms(2) by (auto simp: KeepReceiving_def)
  have u: "t \<noteq> MSG_DATA_CORRECT" "t \<noteq> MSG_DATA_ERROR" "t \<noteq> MSG_CONNECT" "length d \<le> 65504"
    using assms(4) by (auto simp: user_frame_def)
  let ?th = "(rt_got (h @ frame_body t d) thp)\<lparr>rt_datalength := of_nat (length d), rt_type := t\<rparr>"
  have "rt_feed full_net (h @ frame_body t d) (thp, p) = Some (?th, answer full_net h False p)"
    using rt_feed_frame [OF assms(1,3,5) u(4,1-3), where net = full_net] assms(6) by simp
  moreover have "rt_idle ?th"
    using assms(3,5) u(4) by (simp add: rt_idle_def rt_got_def)
  moreover have "KeepReceiving (answer full_net h False p)"
    using same_conn_keep [OF answer_same] assms(2) by simp
  moreover have "cb_inv (answer full_net h False p)"
    by (rule answer_inv [OF assms(1,5)])
  ultimately show ?thesis
    using s by (simp add: answer_def inbox_def)
qed

text \<open>The sender takes the answers.\<close>

lemma sender_answered:
  assumes "cb_inv c" "rt_idle th" "cb_last_sent_bytes c = Some (frame t d)" "length h = 16"
  shows "rt_feed full_net (reply_frame h (reply_type ok)) (th, c) =
     Some (rt_got (reply_frame h (reply_type ok)) th,
           if h \<noteq> frame_hash t d then c
           else if ok then StopSendWaiting (SetIsSendSucceeded True c)
           else emit (Sent (frame t d)) c)"
    "rt_idle (rt_got (reply_frame h (reply_type ok)) th)"
  using rt_feed_reply [OF assms(1,2,4), of full_net ok] assms(2-4)
  by (simp_all add: deal_reply_def rt_idle_def rt_got_def)

text \<open>
  \<^verbatim>\<open>Send\<close> between two connected ends returns true, exactly one copy of the frame leaves, and
  the other end queues exactly that message. Both ends can go on.
\<close>

lemma Send_handshake:
  assumes "cb_inv c" "IsSendSucceeded c" "rt_idle th"
    "cb_inv p" "KeepReceiving p" "rt_idle thp" "user_frame (t, d)"
    "t \<noteq> cb_received_type p" "length (inbox p) < 256"
    "se_now e \<noteq> -1" "se_race e = Some"
    "se_wait e = peer_answers th (thp, p) (length (cb_log c))"
  shows "\<exists>c' th' thp' p'. Send full_net e t (Some d) (of_nat (length d)) timeout c = Some (True, c') \<and>
     wire (drop (length (cb_log c)) (cb_log c')) = frame t d \<and>
     rt_feed full_net (frame t d) (thp, p) = Some (thp', p') \<and>
     rt_feed full_net (wire (drop (length (cb_log p)) (cb_log p'))) (th, after_send t d (se_sent_time e) c) =
       Some (th', c') \<and>
     rt_idle th' \<and> cb_inv c' \<and> IsSendSucceeded c' \<and> same_conn c c' \<and> inbox c' = inbox c \<and>
     cb_received_type c' = cb_received_type c \<and>
     rt_idle thp' \<and> cb_inv p' \<and> KeepReceiving p' \<and> inbox p' = inbox p @ [frame_message (t, d)] \<and>
     IsSendSucceeded p' = IsSendSucceeded p \<and> cb_received_type p' = cb_received_type p"
proof -
  let ?c1 = "after_send t d (se_sent_time e) c"
  let ?c2 = "StopSendWaiting (SetIsSendSucceeded True ?c1)"
  have s: "cb_socket c \<noteq> INVALID_SOCKET" "cb_send_succeeded c" and d: "length d \<le> 65504"
    using assms(2,7) by (auto simp: IsSendSucceeded_def user_frame_def split: if_splits)
  obtain thp' p' where p': "rt_feed full_net (frame t d) (thp, p) = Some (thp', p')"
      "rt_idle thp'" "cb_inv p'" "KeepReceiving p'" "inbox p' = inbox p @ [frame_message (t, d)]"
      "wire (drop (length (cb_log p)) (cb_log p')) = reply_frame (frame_hash t d) (reply_type True)"
      "IsSendSucceeded p' = IsSendSucceeded p" "cb_received_type p' = cb_received_type p"
    using peer_takes [OF assms(4-9)] by blast
  have inv: "cb_inv ?c1" by (rule after_send_inv [OF assms(1) d])
  note a = sender_answered [where h = "frame_hash t d" and ok = True,
      OF inv assms(3) after_send_simps(1) length_frame_hash]
  have w: "se_wait e ?c1 = Some (0, ?c2)"
    using p' a by (simp add: assms(12) peer_answers_def after_send_simps)
  have ok: "IsSendSucceeded ?c2"
    using s by (simp add: IsSendSucceeded_def StopSendWaiting_def SetIsSendSucceeded_def after_send_simps)
  have "Send full_net e t (Some d) (of_nat (length d)) timeout c = Some (True, ?c2)"
    using Send_waits [OF s d assms(10,11), of t timeout] w ok by simp
  moreover have "cb_inv ?c2" using inv by (auto simp: cb_inv_def StopSendWaiting_def SetIsSendSucceeded_def)
  moreover have "wire (drop (length (cb_log c)) (cb_log ?c2)) = frame t d" "same_conn c ?c2" "inbox ?c2 = inbox c"
    "cb_received_type ?c2 = cb_received_type c"
    by (simp_all add: StopSendWaiting_def SetIsSendSucceeded_def after_send_def same_conn_def inbox_def)
  moreover have "rt_feed full_net (wire (drop (length (cb_log p)) (cb_log p'))) (th, ?c1) =
      Some (rt_got (reply_frame (frame_hash t d) (reply_type True)) th, ?c2)"
    using a(1) p'(6) by simp
  ultimately show ?thesis using p' a(2) ok by blast
qed

lemma damaged_data_recovery:
  assumes "cb_inv c" "cb_socket c \<noteq> INVALID_SOCKET" "rt_idle th"
    "cb_inv p" "KeepReceiving p" "rt_idle thp" "user_frame (t, d)"
    "t \<noteq> cb_received_type p" "length (inbox p) < 256"
    "length d' = length d" "frame_hash t d' \<noteq> frame_hash t d"
  shows "\<exists>thp1 p1 th1 c1 thp2 p2 th2 c2.
     rt_feed full_net (frame_hash t d @ frame_body t d') (thp, p) = Some (thp1, p1) \<and>
     inbox p1 = inbox p \<and>
     rt_feed full_net (wire (drop (length (cb_log p)) (cb_log p1))) (th, after_send t d time c) =
       Some (th1, c1) \<and> \<not> IsSendSucceeded c1 \<and>
     wire (drop (length (cb_log (after_send t d time c))) (cb_log c1)) = frame t d \<and>
     rt_feed full_net (frame t d) (thp1, p1) = Some (thp2, p2) \<and>
     inbox p2 = inbox p @ [frame_message (t, d)] \<and>
     rt_feed full_net (wire (drop (length (cb_log p1)) (cb_log p2))) (th1, c1) = Some (th2, c2) \<and>
     IsSendSucceeded c2"
proof -
  let ?c = "after_send t d time c"
  have d: "length d \<le> 65504" and u': "user_frame (t, d')"
    using assms(7,10) by (auto simp: user_frame_def)
  obtain thp1 p1 where p1: "rt_feed full_net (frame_hash t d @ frame_body t d') (thp, p) = Some (thp1, p1)"
      "rt_idle thp1" "cb_inv p1" "KeepReceiving p1" "inbox p1 = inbox p"
      "cb_received_type p1 = cb_received_type p"
      "wire (drop (length (cb_log p)) (cb_log p1)) = reply_frame (frame_hash t d) (reply_type False)"
    using peer_refuses [OF assms(4-6) u' length_frame_hash, of t d] assms(11) by auto
  have inv: "cb_inv ?c" by (rule after_send_inv [OF assms(1) d])
  let ?c1 = "emit (Sent (frame t d)) ?c"
  note a1 = sender_answered [where h = "frame_hash t d" and ok = False,
      OF inv assms(3) after_send_simps(1) length_frame_hash]
  obtain thp2 p2 where p2: "rt_feed full_net (frame t d) (thp1, p1) = Some (thp2, p2)"
      "inbox p2 = inbox p1 @ [frame_message (t, d)]"
      "wire (drop (length (cb_log p1)) (cb_log p2)) = reply_frame (frame_hash t d) (reply_type True)"
    using peer_takes [OF p1(3,4,2) assms(7)] assms(8,9) p1(5,6) by auto
  have last1: "cb_last_sent_bytes ?c1 = Some (frame t d)" by (simp add: after_send_simps)
  have inv1: "cb_inv ?c1" using inv by simp
  note a2 = sender_answered [where h = "frame_hash t d" and ok = True,
      OF inv1 a1(2) last1 length_frame_hash]
  let ?th1 = "rt_got (reply_frame (frame_hash t d) (reply_type False)) th"
  have r1: "rt_feed full_net (wire (drop (length (cb_log p)) (cb_log p1))) (th, ?c) = Some (?th1, ?c1)"
    using a1(1) by (simp add: p1(7))
  have r2: "rt_feed full_net (wire (drop (length (cb_log p1)) (cb_log p2))) (?th1, ?c1) =
      Some (rt_got (reply_frame (frame_hash t d) (reply_type True)) ?th1,
            StopSendWaiting (SetIsSendSucceeded True ?c1))"
    using a2(1) by (simp add: p2(3))
  have "\<not> IsSendSucceeded ?c1" "IsSendSucceeded (StopSendWaiting (SetIsSendSucceeded True ?c1))"
    "wire (drop (length (cb_log ?c)) (cb_log ?c1)) = frame t d"
    using assms(2) by (simp_all add: IsSendSucceeded_def StopSendWaiting_def SetIsSendSucceeded_def
        after_send_simps)
  then show ?thesis using p1(1,5) p2(1,2) r1 r2 by metis
qed



text \<open>
  A refusal that carries another hash than the last frame sent, as one for a frame whose hash
  field was damaged does, is ignored: nothing is sent again and \<^verbatim>\<open>Send\<close> keeps waiting.
\<close>

lemma damaged_hash_not_sent_again:
  assumes "cb_inv c" "rt_idle th" "length d \<le> 65504" "length h = 16" "h \<noteq> frame_hash t d"
  shows "\<exists>th'. rt_feed full_net (reply_frame h MSG_DATA_ERROR) (th, after_send t d time c) =
           Some (th', after_send t d time c)"
  using sender_answered(1) [where ok = False,
      OF after_send_inv [OF assms(1,3)] assms(2) after_send_simps(1) assms(4), of t time] assms(5)
  by (simp add: reply_type_def)

subsection \<open>No success without the acknowledgement\<close>

text \<open>The header in a buffer acknowledges the frame \<open>b\<close>.\<close>

definition acks :: "bytes \<Rightarrow> bytes \<Rightarrow> bool" where
  "acks b buffer \<longleftrightarrow> strncmp APP_FLAG (AppFlag (header_at buffer)) 5 = Some 0 \<and>
     Type (header_at buffer) = MSG_DATA_CORRECT \<and> MD5Hash (header_at buffer) = take 16 b"

definition same_sent :: "ClientBase \<Rightarrow> ClientBase \<Rightarrow> bool" where
  "same_sent c c' \<longleftrightarrow> cb_last_sent_bytes c' = cb_last_sent_bytes c \<and>
     cb_send_succeeded c' = cb_send_succeeded c"

lemma same_sent_trans: "same_sent a b \<Longrightarrow> same_sent b c \<Longrightarrow> same_sent a c"
  by (simp add: same_sent_def)

lemma same_sent_emit [simp]: "same_sent c (emit a c)" "same_sent c c"
  by (simp_all add: same_sent_def)

lemma CoreSend_sent: "CoreSend net s d l c = Some (r, c') \<Longrightarrow> same_sent c c'"
  by (auto simp: CoreSend_def Let_def split: if_splits)

lemma SetReplyHashcode_sent: "SetReplyHashcode h c = Some c' \<Longrightarrow> same_sent c c'"
  by (auto simp: SetReplyHashcode_def same_sent_def split: option.splits elim!: bind_SomeE)

lemma Reply_sent: "Reply net ok c = Some c' \<Longrightarrow> same_sent c c'"
  by (auto simp: Reply_def Let_def split: if_splits option.splits elim!: bind_SomeE
      dest!: CoreSend_sent SetReplyHashcode_sent intro: same_sent_trans)

lemma SetReceived_sent: "SetReceivedDataAndType d l c = Some c' \<Longrightarrow> same_sent c c'"
  by (auto simp: SetReceivedDataAndType_def Let_def same_sent_def split: if_splits option.splits
      elim!: bind_SomeE)

lemma Client_Execute_sent: "Client_Execute t d l c = Some c' \<Longrightarrow> same_sent c c'"
  by (auto simp: Client_Execute_def same_sent_def elim!: bind_SomeE)

lemma rt_frame_done_sent:
  assumes "rt_frame_done net (th, c) = Some (th', c')"
  shows "same_sent c c'"
  using assms unfolding rt_frame_done_def Let_def prod.case
  by (elim bind_SomeE)
    (auto split: if_splits elim!: bind_SomeE dest!: SetReplyHashcode_sent SetReceived_sent
      Client_Execute_sent Reply_sent intro: same_sent_trans)

lemma DealReplyMessage_sent:
  assumes "DealReplyMessage net h ok c = Some c'"
  shows "cb_last_sent_bytes c' = cb_last_sent_bytes c \<and>
    (cb_send_succeeded c' = cb_send_succeeded c \<or>
     (\<exists>l d. GetLastSentBytes c = Some (Some d, l) \<and> memcmp0 h d 16 = Some True \<and> ok))"
proof -
  obtain tmp l where g: "GetLastSentBytes c = Some (tmp, l)"
    using assms unfolding DealReplyMessage_def by (elim bind_SomeE) auto
  show ?thesis
  proof (cases tmp)
    case None
    then show ?thesis using assms g by (simp add: DealReplyMessage_def)
  next
    case (Some d)
    then obtain same where m: "memcmp0 h d 16 = Some same"
      using assms g unfolding DealReplyMessage_def by (auto elim!: bind_SomeE)
    show ?thesis
      using assms g Some m
      by (auto simp: DealReplyMessage_def StopSendWaiting_def SetIsSendSucceeded_def
          split: if_splits elim!: bind_SomeE dest!: CoreSend_sent [unfolded same_sent_def])
  qed
qed

lemma rt_header_done_sent:
  assumes "rt_header_done net (th, c) = Some (th', c')" "cb_inv c" "length (rt_buffer th) = 65536"
  shows "cb_last_sent_bytes c' = cb_last_sent_bytes c \<and>
    (cb_send_succeeded c' = cb_send_succeeded c \<or>
     (\<exists>b. cb_last_sent_bytes c = Some b \<and> acks b (rt_buffer th)))"
proof -
  let ?h = "header_at (rt_buffer th)"
  obtain cmp where cmp: "strncmp APP_FLAG (AppFlag ?h) (strlen APP_FLAG) = Some cmp"
    using assms(1) unfolding rt_header_done_def Let_def prod.case by (elim bind_SomeE)
  have l: "length (MD5Hash ?h) = 16" using assms(3) by (simp add: header_at_def)
  consider (ack) "cmp = 0" "Type ?h = MSG_DATA_CORRECT" "DealReplyMessage net (MD5Hash ?h) True c = Some c'"
    | (err) "DealReplyMessage net (MD5Hash ?h) False c = Some c'"
    | (body) th1 where "rt_frame_done net (th1, c) = Some (th', c')"
    | (none) "same_sent c c'"
    using assms(1) cmp
    by (auto simp: rt_header_done_def Let_def StopConnectWaiting_def split: if_splits elim!: bind_SomeE)
  then show ?thesis
  proof cases
    case ack
    then show ?thesis
      using DealReplyMessage_sent [OF ack(3)] cmp GetLastSentBytes_eq [OF assms(2)] l
      by (auto simp: acks_def memcmp0_def split: if_splits)
  next
    case err
    then show ?thesis using DealReplyMessage_sent [OF err] by auto
  next
    case body
    then show ?thesis using rt_frame_done_sent [OF body] by (simp add: same_sent_def)
  qed (simp add: same_sent_def)
qed

lemma header_at_take: "32 \<le> length b \<Longrightarrow> header_at (take 32 b) = header_at b"
  by (simp add: header_at_def read_u32_def min_def drop_take)

lemma acks_take: "32 \<le> length b \<Longrightarrow> acks f (take 32 b) = acks f b"
  by (simp add: acks_def header_at_take)

text \<open>While a header is read, the buffer starts with the bytes that came last.\<close>

definition hdr_inv :: "bytes \<Rightarrow> rthread \<Rightarrow> bool" where
  "hdr_inv pre th \<longleftrightarrow> (rt_phase th = Rt_Header \<longrightarrow>
     unat (rt_readlength th) \<le> length pre \<and>
     take (unat (rt_readlength th)) (rt_buffer th) = drop (length pre - unat (rt_readlength th)) pre)"

lemma rt_frame_done_inv:
  assumes "rt_frame_done net (th, c) = Some (th', c')" "cb_inv c" "length (rt_buffer th) = 65536"
    "32 + unat (rt_datalength th) \<le> 65536"
  shows "cb_inv c'"
proof -
  let ?d = "take (unat (rt_datalength th)) (drop 32 (rt_buffer th))"
  have ld: "length ?d < 2 ^ 32" using assms(3,4) by simp
  obtain c1 where c1: "hand_over (rt_type th) ?d c = Some c1" "cb_inv c1"
    using hand_over_inv [OF assms(2) ld] by blast
  have "length (take 16 (rt_buffer th)) = 16" using assms(3) by simp
  then show ?thesis
    using assms(1) c1 answer_inv [OF assms(2)] answer_inv [OF c1(2)]
    by (auto simp: rt_frame_done_eq [OF assms(2-4)] split: if_splits)
qed

lemma rt_header_done_inv:
  assumes "rt_header_done net (th, c) = Some (th', c')" "cb_inv c" "length (rt_buffer th) = 65536"
  shows "cb_inv c' \<and> hdr_inv pre th' \<and> rt_buffer th' = rt_buffer th"
proof -
  let ?h = "header_at (rt_buffer th)"
  let ?th1 = "th\<lparr>rt_phase := Rt_Body, rt_readlength := 0, rt_datalength := 0, rt_type := Type ?h\<rparr>"
  obtain cmp where cmp: "strncmp APP_FLAG (AppFlag ?h) (strlen APP_FLAG) = Some cmp"
    using assms(1) unfolding rt_header_done_def Let_def prod.case by (elim bind_SomeE)
  have l: "length (MD5Hash ?h) = 16" using assms(3) by (simp add: header_at_def)
  have body: "rt_frame_done net (?th1, c) = Some (th', c') \<Longrightarrow> cb_inv c'"
    using rt_frame_done_inv [of net ?th1 c th' c'] assms(2,3) by simp
  show ?thesis
    using assms(1,2) cmp body
    by (auto simp: rt_header_done_def Let_def StopConnectWaiting_def hdr_inv_def rt_restart_def
        DealReplyMessage_eq [OF assms(2) l] deal_reply_inv word_gt_0
        split: if_splits dest!: rt_frame_done_same)
qed

text \<open>One byte more.\<close>

text \<open>A single byte that is received is appended, and what follows depends on the length reached.\<close>

lemma rt_recv_one:
  assumes "rt_recv net [x] (th, c) = Some (th', c')" "rt_wf th"
  defines "th1 \<equiv> th\<lparr>rt_buffer := blit (rt_buffer th) (rt_offset th) [x], rt_readlength := rt_readlength th + 1\<rparr>"
  shows "rt_offset th < 65536" "length (rt_buffer th1) = 65536"
    "unat (rt_readlength th1) = unat (rt_readlength th) + 1" "hdr_inv pre th \<Longrightarrow> hdr_inv (pre @ [x]) th1"
    "(if rt_readlength th1 < rt_limit th1 then Some (th1, c)
      else case rt_phase th1 of Rt_Header \<Rightarrow> rt_header_done net (th1, c)
           | _ \<Rightarrow> rt_frame_done net (th1, c)) = Some (th', c')"
proof -
  let ?o = "rt_offset th" and ?r = "rt_readlength th"
  have wf: "length (rt_buffer th) = 65536" "?r < rt_limit th" using assms(2) by (auto simp: rt_wf_def)
  show fit: "?o < 65536" using assms(1) wf(1) by (auto simp: rt_recv_def memcpy_def split: if_splits)
  then show "length (rt_buffer th1) = 65536" using wf(1) by (simp add: th1_def)
  have "unat (?r + 1) = unat ?r + 1"
    using unat_add_small [of ?r 1 "rt_limit th"] wf(2) by (simp add: word_less_nat_alt)
  then show ur: "unat (rt_readlength th1) = unat ?r + 1" by (simp add: th1_def)
  obtain buffer where m: "memcpy (rt_buffer th) ?o [x] 0 (length [x]) = Some buffer"
      and r0: "(let th1 = th\<lparr>rt_buffer := buffer, rt_readlength := ?r + of_nat (length [x])\<rparr> in
        if rt_readlength th1 < rt_limit th1 then Some (th1, c)
        else case rt_phase th1 of Rt_Header \<Rightarrow> rt_header_done net (th1, c)
             | _ \<Rightarrow> rt_frame_done net (th1, c)) = Some (th', c')"
    using assms(1) unfolding rt_recv_def prod.case by (elim bind_SomeE)
  have b0: "buffer = blit (rt_buffer th) ?o [x]" "of_nat (length [x]) = (1 :: u32)"
    using m fit wf(1) by (simp_all add: cmem)
  show "(if rt_readlength th1 < rt_limit th1 then Some (th1, c)
      else case rt_phase th1 of Rt_Header \<Rightarrow> rt_header_done net (th1, c)
           | _ \<Rightarrow> rt_frame_done net (th1, c)) = Some (th', c')"
    using r0 unfolding Let_def th1_def b0 .
  show "hdr_inv (pre @ [x]) th1" if h: "hdr_inv pre th"
  proof (cases "rt_phase th = Rt_Header")
    case True
    then have o: "?o = unat ?r" by (simp add: rt_offset_def)
    have "take (unat ?r + 1) (blit (rt_buffer th) ?o [x]) = take (unat ?r) (rt_buffer th) @ [x]"
      using take_blit_upto [of ?o "rt_buffer th" "[x]"] fit wf(1) by (simp add: o)
    then show ?thesis
      using h True ur by (simp add: hdr_inv_def th1_def)
  qed (simp add: hdr_inv_def th1_def)
qed

lemma rt_recv_byte:
  assumes "rt_recv net [x] (th, c) = Some (th', c')" "rt_wf th" "cb_inv c" "hdr_inv pre th"
  shows "cb_inv c' \<and> hdr_inv (pre @ [x]) th' \<and> cb_last_sent_bytes c' = cb_last_sent_bytes c \<and>
    (cb_send_succeeded c' = cb_send_succeeded c \<or>
     (\<exists>b i. cb_last_sent_bytes c = Some b \<and> i + 32 \<le> length (pre @ [x]) \<and>
        acks b (take 32 (drop i (pre @ [x])))))"
proof -
  define th1 where "th1 = th\<lparr>rt_buffer := blit (rt_buffer th) (rt_offset th) [x], rt_readlength := rt_readlength th + 1\<rparr>"
  have wf: "rt_phase th \<noteq> Rt_Exit" "rt_readlength th < rt_limit th" using assms(2) by (auto simp: rt_wf_def)
  note one = rt_recv_one [OF assms(1,2), folded th1_def]
  note l1 = one(2) and h1 = one(4) [OF assms(4)] and r = one(5)
  show ?thesis
  proof (cases "rt_readlength th1 < rt_limit th1")
    case True
    then show ?thesis using r assms(3) h1 by auto
  next
    case False
    show ?thesis
    proof (cases "rt_phase th = Rt_Header")
      case True
      then have ph: "rt_phase th1 = Rt_Header" by (simp add: th1_def)
      have d: "rt_header_done net (th1, c) = Some (th', c')" using r False ph by simp
      have u: "unat (rt_readlength th1) = 32"
        using wf(2) False one(3) True by (simp add: th1_def rt_limit_def word_less_nat_alt)
      have t: "take 32 (rt_buffer th1) = take 32 (drop (length (pre @ [x]) - 32) (pre @ [x]))"
        and le: "32 \<le> length (pre @ [x])"
        using h1 ph u by (auto simp: hdr_inv_def)
      define i where "i = length (pre @ [x]) - 32"
      have i: "i + 32 \<le> length (pre @ [x])" using le by (simp add: i_def)
      have "acks b (rt_buffer th1) = acks b (take 32 (drop i (pre @ [x])))" for b
        using acks_take [of "rt_buffer th1" b] l1 unfolding i_def t [symmetric] by simp
      then show ?thesis
        using rt_header_done_sent [OF d assms(3) l1]
          rt_header_done_inv [OF d assms(3) l1, of "pre @ [x]"] i
        by blast
    next
      case False: False
      then have d: "rt_frame_done net (th1, c) = Some (th', c')"
        using r \<open>\<not> rt_readlength th1 < rt_limit th1\<close> wf(1)
        by (cases "rt_phase th") (auto simp: th1_def)
      have "32 + unat (rt_datalength th1) \<le> 65536"
        using False \<open>\<not> rt_readlength th1 < rt_limit th1\<close> one(1,3) wf(1)
        by (cases "rt_phase th") (auto simp: th1_def rt_limit_def rt_offset_def word_less_nat_alt)
      then show ?thesis
        using rt_frame_done_inv [OF d assms(3) l1] rt_frame_done_same [OF d] rt_frame_done_sent [OF d]
        by (simp add: hdr_inv_def rt_restart_def same_sent_def)
    qed
  qed
qed

lemma rt_feed_ack:
  assumes "rt_feed net bs (th, c) = Some (th', c')" "rt_wf th" "cb_inv c" "hdr_inv pre th"
  shows "cb_inv c' \<and> cb_last_sent_bytes c' = cb_last_sent_bytes c \<and>
    (cb_send_succeeded c' = cb_send_succeeded c \<or>
     (\<exists>b i. cb_last_sent_bytes c = Some b \<and> i + 32 \<le> length (pre @ bs) \<and>
        acks b (take 32 (drop i (pre @ bs)))))"
  using assms
proof (induction bs arbitrary: pre th c)
  case (Cons x xs)
  obtain th1 c1 where 1: "rt_recv net [x] (th, c) = Some (th1, c1)"
      and 2: "rt_feed net xs (th1, c1) = Some (th', c')"
    using Cons.prems(1) by (auto elim!: bind_SomeE)
  note b = rt_recv_byte [OF 1 Cons.prems(2-4)]
  from Cons.IH [OF 2 _ conjunct1 [OF b] conjunct1 [OF conjunct2 [OF b]]] rt_recv_same [OF 1 Cons.prems(2)]
  have ih: "cb_inv c' \<and> cb_last_sent_bytes c' = cb_last_sent_bytes c1 \<and>
    (cb_send_succeeded c' = cb_send_succeeded c1 \<or>
     (\<exists>b i. cb_last_sent_bytes c1 = Some b \<and> i + 32 \<le> length (pre @ x # xs) \<and>
        acks b (take 32 (drop i (pre @ x # xs)))))"
    by simp
  have ext: "take 32 (drop i (pre @ x # xs)) = take 32 (drop i (pre @ [x]))"
    if "i + 32 \<le> length (pre @ [x])" for i
    using that take_append [of 32 "drop i (pre @ [x])" xs] drop_append [of i "pre @ [x]" xs] by auto
  show ?case
  proof (cases "cb_send_succeeded c1 = cb_send_succeeded c")
    case True
    then show ?thesis using ih b by auto
  next
    case False
    then obtain f i where "cb_last_sent_bytes c = Some f" "i + 32 \<le> length (pre @ [x])"
        "acks f (take 32 (drop i (pre @ [x])))"
      using b by blast
    moreover have "i + 32 \<le> length (pre @ x # xs)" using calculation(2) by simp
    ultimately show ?thesis using ih b ext [of i] by metis
  qed
qed simp

text \<open>The bytes \<open>bs\<close> come in while an operation waits; the wait ends with the code \<open>r\<close>.\<close>

definition incoming :: "rthread \<Rightarrow> bytes \<Rightarrow> int \<Rightarrow> waiting" where
  "incoming th bs r c = map_option (\<lambda>(th', c'). (r, c')) (rt_feed full_net bs (th, c))"

text \<open>
  C5: \<^verbatim>\<open>Send\<close> reports success only if, among the bytes that came in while it waited, there are 32
  that are an \<^verbatim>\<open>MSG_DATA_CORRECT\<close> header with the hash of the very frame it sent.
\<close>

theorem Send_true_acknowledged:
  assumes "cb_inv c" "IsSendSucceeded c" "rt_idle th" "length d \<le> 65504"
    "se_now e \<noteq> -1" "se_race e = Some" "se_wait e = incoming th bs r"
    "Send full_net e t (Some d) (of_nat (length d)) timeout c = Some (True, c')"
  shows "\<exists>i. i + 32 \<le> length bs \<and> acks (frame t d) (take 32 (drop i bs))"
proof -
  let ?c = "after_send t d (se_sent_time e) c"
  have s: "cb_socket c \<noteq> INVALID_SOCKET" "cb_send_succeeded c"
    using assms(2) by (auto simp: IsSendSucceeded_def split: if_splits)
  obtain th' c1 where f: "rt_feed full_net bs (th, ?c) = Some (th', c1)" "IsSendSucceeded c1"
    using assms(8) unfolding Send_waits [OF s assms(4-6)] assms(7) incoming_def
    by (auto split: if_splits)
  have h: "hdr_inv [] th" using assms(3) by (simp add: hdr_inv_def rt_idle_def)
  have "cb_send_succeeded c1" using f(2) by (auto simp: IsSendSucceeded_def split: if_splits)
  then show ?thesis
    using rt_feed_ack [OF f(1) rt_idle_wf [OF assms(3)] after_send_inv [OF assms(1,4)] h]
    by (auto simp: after_send_simps)
qed

theorem Send_true_acknowledged_witness:
  "let bs = reply_frame (frame_hash 272 [1]) 0;
       e = \<lparr>se_now0 = 0, se_sent_time = 0, se_now = 0, se_race = Some,
            se_wait = incoming idle_thread bs 0\<rparr> in
   \<exists>c'. Send full_net e 272 (Some [1]) 1 10 (connected 5) = Some (True, c') \<and>
     (\<exists>i. i + 32 \<le> length bs \<and> acks (frame 272 [1]) (take 32 (drop i bs)))"
proof -
  let ?bs = "reply_frame (frame_hash 272 [1]) 0"
  let ?e = "\<lparr>se_now0 = 0, se_sent_time = 0, se_now = 0, se_race = Some,
            se_wait = incoming idle_thread ?bs 0\<rparr>"
  have s: "cb_socket (connected 5) \<noteq> INVALID_SOCKET" by (simp add: INVALID_SOCKET_def)
  have ok: "IsSendSucceeded (connected 5)" using s by (simp add: IsSendSucceeded_def)
  have inv: "cb_inv (after_send 272 [1] 0 (connected 5))"
    by (rule after_send_inv [OF connected_inv]) simp
  note a = sender_answered [where h = "frame_hash 272 [1]" and ok = True,
      OF inv rt_idle_thread after_send_simps(1) length_frame_hash]
  have "\<exists>c'. Send full_net ?e 272 (Some [1]) (of_nat (length [1 :: byte])) 10 (connected 5) = Some (True, c')"
    by (subst Send_waits) (use a s in \<open>auto simp: incoming_def reply_type_def msg_defs IsSendSucceeded_def
        StopSendWaiting_def SetIsSendSucceeded_def after_send_simps INVALID_SOCKET_def\<close>)
  then obtain c' where "Send full_net ?e 272 (Some [1]) (of_nat (length [1 :: byte])) 10 (connected 5) = Some (True, c')" ..
  with Send_true_acknowledged [OF connected_inv ok rt_idle_thread _ _ _ _ this, of ?bs 0]
  show ?thesis by (auto simp: Let_def)
qed

subsection \<open>Waiting for a message of one type\<close>

text \<open>
  C35: When the awaited frame comes in, \<^verbatim>\<open>Receive\<close> returns true with its data at the start of
  the caller's buffer and its length, and the message does not go to the queue as well.
\<close>

theorem Receive_returns_awaited:
  assumes "cb_inv c" "KeepReceiving c" "rt_idle th" "user_frame (t, d)" "now \<noteq> -1"
    "length d \<le> length buf"
  shows "\<exists>c'. Receive now (incoming th (frame t d) r) t buf len0 c =
             Some (True, blit buf 0 d, of_nat (length d), c') \<and>
           inbox c' = inbox c \<and> GetReceiveType c' = 0"
proof -
  have u: "t \<noteq> MSG_DATA_CORRECT" "t \<noteq> MSG_DATA_ERROR" "t \<noteq> MSG_CONNECT" "length d \<le> 65504"
    using assms(4) by (auto simp: user_frame_def)
  have s: "cb_socket c \<noteq> INVALID_SOCKET" using assms(2) by (auto simp: KeepReceiving_def)
  have t0: "t \<noteq> 0" using u(1) by (simp add: msg_defs)
  let ?l = "of_nat (length d) :: u32"
  have un: "unat ?l = length d" using u(4) by (simp add: unat_of_nat)
  define c1 where "c1 = InitReceiveDataAndType t c"
  have inv: "cb_inv c1" using assms(1) by (auto simp: c1_def InitReceiveDataAndType_def cb_inv_def)
  let ?c2 = "emit (Broadcast Cond_Receive) (c1\<lparr>cb_received_type := 0, cb_received_length := ?l,
       cb_received_data := (if 0 < ?l then Some d else None)\<rparr>)"
  have ho: "hand_over t d c1 = Some ?c2"
    using un by (simp add: hand_over_def GetReceiveType_def c1_def InitReceiveDataAndType_def SetReceived_eq)
  define c3 where "c3 = answer full_net (frame_hash t d) True ?c2"
  have "rt_feed full_net (frame t d) (th, c1) =
      Some ((rt_got (frame t d) th)\<lparr>rt_datalength := ?l, rt_type := t\<rparr>, c3)"
    using rt_feed_frame [OF inv assms(3) length_frame_hash u(4,1-3), where net = full_net] ho
    by (simp add: frame_def c3_def)
  then have w: "incoming th (frame t d) r c1 = Some (r, c3)" by (simp add: incoming_def)
  have rt: "GetReceiveType c1 \<noteq> 0" "GetReceiveType c3 = 0"
    using t0 s by (simp_all add: GetReceiveType_def c1_def InitReceiveDataAndType_def answer_def c3_def)
  have data: "cb_received_data c3 = (if 0 < ?l then Some d else None)" "cb_received_length c3 = ?l"
    using s by (simp_all add: answer_def c3_def c1_def InitReceiveDataAndType_def)
  have inv3: "cb_inv c3"
    using hand_over_inv [OF inv, of d t] ho u(4) unfolding c3_def by (intro answer_inv) auto
  have take: "take_received buf c3 = Some (True, blit buf 0 d, ?l, c3)"
  proof (cases "d = []")
    case True
    then show ?thesis using data by (simp add: take_received_def GetReceivedData_eq [OF inv3])
  next
    case False
    then have "0 < ?l" using un by (simp add: word_less_nat_alt)
    then show ?thesis
      using data un assms(6) by (simp add: take_received_def GetReceivedData_eq [OF inv3] cmem)
  qed
  have "inbox c3 = inbox c"
    using s by (simp add: answer_def c3_def c1_def InitReceiveDataAndType_def inbox_def)
  then show ?thesis
    using assms(5) w rt take by (simp add: Receive_def c1_def [symmetric] Let_def)
qed

theorem Receive_returns_awaited_witness:
  "\<exists>c'. Receive 0 (incoming idle_thread (frame 272 [7, 8]) 0) 272 [0, 0, 0] 0 (connected 5) =
     Some (True, [7, 8, 0], 2, c') \<and> inbox c' = []"
proof -
  have s: "5 \<noteq> INVALID_SOCKET" by (simp add: INVALID_SOCKET_def)
  show ?thesis
    using Receive_returns_awaited [OF connected_inv connected_keep [OF s] rt_idle_thread,
        of 272 "[7, 8]" 0 "[0, 0, 0]" 0 0]
    by (auto simp: user_frame_def msg_defs connected_inbox blit_def)
qed

subsection \<open>The end of a connection\<close>

lemma DisconnectForcibly_quiet:
  assumes "cb_socket c \<noteq> INVALID_SOCKET" "cb_reply_hashcode c = None" "cb_inv c"
  shows "\<exists>c'. DisconnectForcibly net c = Some (True, c') \<and> cb_socket c' = INVALID_SOCKET \<and>
     cb_log c' = cb_log c @ [Broadcast Cond_Send, Closed (cb_socket c)] \<and>
     cb_isconnecting c' = cb_isconnecting c \<and> cb_inv c'"
proof -
  define c1 where "c1 = (if cb_receive_thread c then SetKeepReceiving False (StopSendWaiting c)
      else StopSendWaiting c)"
  have inv: "cb_inv c1" using assms(3) by (auto simp: c1_def SetKeepReceiving_def StopSendWaiting_def cb_inv_def)
  have "Reply net True c1 = Some c1"
    by (rule Reply_none [OF inv]) (use assms(2) in \<open>simp add: c1_def SetKeepReceiving_def StopSendWaiting_def\<close>)
  then have e: "DisconnectForcibly net c =
      Some (True, (emit (Closed (cb_socket c1)) c1)\<lparr>cb_socket := INVALID_SOCKET\<rparr>)"
    using assms(1) by (auto simp: DisconnectForcibly_def c1_def StopSendWaiting_def Let_def)
  show ?thesis
    unfolding e using inv
    by (auto simp: c1_def SetKeepReceiving_def StopSendWaiting_def cb_inv_def split: if_splits)
qed

text \<open>The event a client raises when the stream ends or fails.\<close>

definition end_event :: "sock_event \<Rightarrow> action" where
  "end_event ev = (if ev = RecvError then OnSocketError else OnServerClose)"

text \<open>
  C32: When \<^verbatim>\<open>select\<close> or \<^verbatim>\<open>recv\<close> fails or the peer closes, the thread wakes a blocked sender,
  closes the descriptor once, raises the event unless the client is still connecting, wakes a
  blocked \<^verbatim>\<open>Disconnect\<close> and exits; after that the client has no socket and nothing happens.
\<close>

theorem stream_end_disconnects:
  assumes "cb_inv c" "KeepReceiving c" "rt_phase th \<noteq> Rt_Exit" "cb_reply_hashcode c = None"
    "ev \<in> {SelectError, PeerClosed, RecvError}"
  shows "\<exists>th' c'. rt_run net (ev # evs) (rx, th, c) = Some (rx, th', c') \<and>
     rt_phase th' = Rt_Exit \<and> cb_socket c' = INVALID_SOCKET \<and> \<not> KeepReceiving c' \<and>
     cb_log c' = cb_log c @ [Broadcast Cond_Send, Closed (cb_socket c)] @
       (if cb_isconnecting c then [] else [end_event ev]) @ [Broadcast Cond_Exit]"
proof -
  have s: "cb_socket c \<noteq> INVALID_SOCKET" using assms(2) by (auto simp: KeepReceiving_def)
  obtain c1 where c1: "DisconnectForcibly net c = Some (True, c1)" "cb_socket c1 = INVALID_SOCKET"
      "cb_log c1 = cb_log c @ [Broadcast Cond_Send, Closed (cb_socket c)]"
      "cb_isconnecting c1 = cb_isconnecting c"
    using DisconnectForcibly_quiet [OF s assms(4,1)] by blast
  define c2 where "c2 = (if ev = RecvError then RaiseSocketErrorEvent c1 else RaiseServerCloseEvent c1)"
  have c2: "cb_socket c2 = INVALID_SOCKET"
      "cb_log c2 = cb_log c1 @ (if cb_isconnecting c then [] else [end_event ev])"
    using c1 by (auto simp: c2_def RaiseSocketErrorEvent_def RaiseServerCloseEvent_def
        GetIsConnecting_def end_event_def)
  have step: "rt_step net ev (rx, th, c) =
      Some (rx, th\<lparr>rt_phase := Rt_Exit\<rparr>, StopDisconnectWaiting c2)"
    using assms(2,3,5) c1(1) by (auto simp: rt_step_def rt_leave_def c2_def)
  have stay: "rt_run net es (rx, th\<lparr>rt_phase := Rt_Exit\<rparr>, c3) =
      Some (rx, th\<lparr>rt_phase := Rt_Exit\<rparr>, c3)" for es c3
    by (induction es) (simp_all add: rt_step_def)
  show ?thesis
    using step stay c2 c1 by (simp add: StopDisconnectWaiting_def KeepReceiving_def)
qed

theorem stream_end_disconnects_witness:
  "\<exists>th' c'. rt_run full_net [PeerClosed, Readable 3] ([1, 2], idle_thread, connected 5) =
       Some ([1, 2], th', c') \<and>
     cb_log c' = [Broadcast Cond_Send, Closed 5, OnServerClose, Broadcast Cond_Exit]"
proof -
  have s: "5 \<noteq> INVALID_SOCKET" by (simp add: INVALID_SOCKET_def)
  have "rt_phase idle_thread \<noteq> Rt_Exit" using rt_idle_thread by (simp add: rt_idle_def)
  then show ?thesis
    using stream_end_disconnects [OF connected_inv connected_keep [OF s], of idle_thread PeerClosed
        full_net "[Readable 3]" "[1, 2]"]
    by (auto simp: end_event_def)
qed

subsection \<open>Connecting\<close>

lemma Disconnect_no_thread:
  assumes "cb_socket c \<noteq> INVALID_SOCKET" "cb_reply_hashcode c = None" "cb_inv c"
    "\<not> cb_receive_thread c"
  shows "Disconnect net now w c = DisconnectForcibly net c"
  using assms by (simp add: Disconnect_def DisconnectForcibly_def StopSendWaiting_def Let_def)

text \<open>The descriptors that were closed, in order.\<close>

definition closes :: "action list \<Rightarrow> int list" where
  "closes as = concat (map (\<lambda>a. case a of Closed fd \<Rightarrow> [fd] | _ \<Rightarrow> []) as)"

lemma closes_simps [simp]:
  "closes [] = []" "closes (xs @ ys) = closes xs @ closes ys"
  "closes (a # as) = (case a of Closed fd \<Rightarrow> [fd] | _ \<Rightarrow> []) @ closes as"
  by (simp_all add: closes_def)

definition calm :: "waiting \<Rightarrow> bool" where
  "calm w \<longleftrightarrow> (\<forall>c r c'. cb_inv c \<longrightarrow> w c = Some (r, c') \<longrightarrow>
     cb_inv c' \<and> same_conn c c' \<and> cb_reply_hashcode c' = None \<and>
     closes (cb_log c') = closes (cb_log c))"

text \<open>A system call before the receive thread is created fails.\<close>

definition early_failure :: "conn_env \<Rightarrow> bool" where
  "early_failure e \<longleftrightarrow> ce_rcvbuf e \<noteq> 0 \<or> ce_sndbuf e \<noteq> 0 \<or> ce_device e \<noteq> 0 \<or> ce_keepalive e \<noteq> 0 \<or>
     ce_getfl e < 0 \<or> ce_setfl e < 0 \<or>
     (ce_connect e = SOCKET_ERROR \<and> (\<not> ce_inprogress e \<or> ce_select e \<le> 0)) \<or>
     ce_getfl2 e < 0 \<or> ce_setfl2 e < 0"

definition connecting :: "conn_env \<Rightarrow> ClientBase \<Rightarrow> ClientBase" where
  "connecting e c = c\<lparr>cb_isconnecting := True, cb_last_sent_length := 0, cb_last_sent_bytes := None,
      cb_send_succeeded := True, cb_reply_hashcode := None, cb_keep := True, cb_socket := ce_socket e\<rparr>"

text \<open>The end of the error paths after the receive thread was to be created.\<close>

definition give_up :: "(bool \<times> ClientBase) option \<Rightarrow> (bool \<times> ClientBase) option" where
  "give_up m = Option.bind m (\<lambda>(_, c). Some (False, SetIsConnecting False c))"

lemma if_merge: "(if a then x else if b then x else y) = (if a \<or> b then x else y)"
  by simp

lemma Connect_steps:
  assumes "cb_socket c = INVALID_SOCKET" "ce_socket e \<noteq> INVALID_SOCKET"
  shows "Connect net e c =
    (if early_failure e then Some (connect_fail (connecting e c))
     else if ce_thread e \<noteq> 0 then
       give_up (Disconnect net (ce_exit_now e) (ce_exit_wait e)
         ((connecting e c)\<lparr>cb_receive_thread := False\<rparr>))
     else if ce_now e = -1 then
       give_up (DisconnectForcibly net ((connecting e c)\<lparr>cb_receive_thread := True\<rparr>))
     else Option.bind (ce_wait e ((connecting e c)\<lparr>cb_receive_thread := True\<rparr>)) (\<lambda>(ret, c).
       if ret \<noteq> 0 then give_up (DisconnectForcibly net c) else Some (True, SetIsConnecting False c)))"
proof -
  have s: "cb_socket (SetIsConnecting True c) = INVALID_SOCKET"
    using assms(1) by (simp add: SetIsConnecting_def)
  have c: "(SetKeepReceiving True (SetIsSendSucceeded True (SetIsConnecting True c
      \<lparr>cb_last_sent_length := 0, cb_last_sent_bytes := None\<rparr>)\<lparr>cb_reply_hashcode := None\<rparr>))
      \<lparr>cb_socket := ce_socket e\<rparr> = connecting e c"
    by (simp add: connecting_def SetKeepReceiving_def SetIsSendSucceeded_def SetIsConnecting_def)
  have sc: "cb_socket (connecting e c) = ce_socket e" by (simp add: connecting_def)
  have early: "early_failure e =
    (ce_rcvbuf e \<noteq> 0 \<or> ce_sndbuf e \<noteq> 0 \<or> ce_device e \<noteq> 0 \<or> ce_keepalive e \<noteq> 0 \<or>
     ce_getfl e < 0 \<or> ce_setfl e < 0 \<or>
     ce_connect e = SOCKET_ERROR \<and> \<not> ce_inprogress e \<or> ce_connect e = SOCKET_ERROR \<and> ce_select e \<le> 0 \<or>
     ce_getfl2 e < 0 \<or> ce_setfl2 e < 0)"
    by (auto simp: early_failure_def)
  show ?thesis
    unfolding Connect_def connect_start_def Let_def SetLastSentBytes_def SetReplyHashcode_None option.case
      Option.bind.bind_lunit c s sc give_up_def if_merge
    using assms(2) by (simp only: early simp_thms if_False)
qed

text \<open>The three ways a call ends on a socket that was created.\<close>

lemma Connect_cases:
  assumes "cb_inv c" "cb_socket c = INVALID_SOCKET" "calm (ce_wait e)" "ce_socket e \<noteq> INVALID_SOCKET"
    "Connect net e c = Some (ok, c')"
  obtains (early) "early_failure e" "(ok, c') = connect_fail (connecting e c)"
    | (stop) c2 where "cb_inv c2" "cb_socket c2 = ce_socket e" "cb_reply_hashcode c2 = None"
        "closes (cb_log c2) = closes (cb_log c)"
        "give_up (DisconnectForcibly net c2) = Some (ok, c')"
    | (fine) c2 where "cb_socket c2 = ce_socket e" "closes (cb_log c2) = closes (cb_log c)"
        "(ok, c') = (True, SetIsConnecting False c2)"
proof -
  have c1: "cb_socket (connecting e c) = ce_socket e" "cb_reply_hashcode (connecting e c) = None"
      "cb_log (connecting e c) = cb_log c" "cb_inv ((connecting e c)\<lparr>cb_receive_thread := b\<rparr>)" for b
    using assms(1) by (auto simp: connecting_def cb_inv_def)
  let ?c1 = "\<lambda>b. (connecting e c)\<lparr>cb_receive_thread := b\<rparr>"
  note eq = assms(5) [unfolded Connect_steps [OF assms(2,4)]]
  consider "early_failure e" | "\<not> early_failure e" "ce_thread e \<noteq> 0"
    | "\<not> early_failure e" "ce_thread e = 0" "ce_now e = -1"
    | "\<not> early_failure e" "ce_thread e = 0" "ce_now e \<noteq> -1"
    by blast
  then show thesis
  proof cases
    case 1
    then show ?thesis using eq early by simp
  next
    case 2
    have "Disconnect net (ce_exit_now e) (ce_exit_wait e) (?c1 False) = DisconnectForcibly net (?c1 False)"
      by (rule Disconnect_no_thread) (use c1 assms(4) in auto)
    then show ?thesis using eq 2 c1 by (intro stop [of "?c1 False"]) auto
  next
    case 3
    then show ?thesis using eq c1 by (intro stop [of "?c1 True"]) auto
  next
    case 4
    obtain ret c2 where w: "ce_wait e (?c1 True) = Some (ret, c2)"
      using eq 4 by (cases "ce_wait e (?c1 True)") auto
    have k: "cb_inv c2" "cb_socket c2 = ce_socket e" "cb_reply_hashcode c2 = None"
        "closes (cb_log c2) = closes (cb_log c)"
      using assms(3) w c1 unfolding calm_def same_conn_def by fastforce+
    show ?thesis
    proof (cases "ret = 0")
      case True
      then show ?thesis using eq 4 w k by (intro fine [of c2]) auto
    next
      case False
      then show ?thesis using eq 4 w k by (intro stop [of c2]) auto
    qed
  qed
qed


text \<open>A server that never answers: the connection is made, the wait for its message times out.\<close>

definition silent_server :: "int \<Rightarrow> conn_env" where
  "silent_server fd = \<lparr>ce_socket = fd, ce_rcvbuf = 0, ce_sndbuf = 0, ce_device = 0, ce_keepalive = 0,
     ce_getfl = 2, ce_setfl = 0, ce_connect = -1, ce_inprogress = True, ce_select = 1,
     ce_getfl2 = 2, ce_setfl2 = 0, ce_thread = 0, ce_now = 100,
     ce_wait = (\<lambda>c. Some (110, c\<lparr>cb_reply_hashcode := None\<rparr>)),
     ce_exit_now = 100, ce_exit_wait = (\<lambda>c. Some (0, c))\<rparr>"


subsection \<open>Where the receiver does not defend itself\<close>

text \<open>
  C40: Nothing compares the length field of a header with the size of the receive buffer: a frame
  that announces more than 65504 bytes and delivers 65505 of them is written past its end.
\<close>

theorem oversized_frame_overruns:
  assumes "cb_inv c" "rt_idle th" "length h = 16"
    "t \<notin> {MSG_DATA_CORRECT, MSG_DATA_ERROR, MSG_CONNECT}" "65504 < unat l" "65505 \<le> length d"
  shows "rt_feed net (h @ str ''CX180'' @ [0, 0, 0] @ le32 l @ le32 t @ d) (th, c) = None"
proof -
  define hdr where "hdr = h @ str ''CX180'' @ [0, 0, 0] @ le32 l @ le32 t"
  have lh: "length hdr = 32" using assms(3) by (simp add: hdr_def)
  have lb: "length (rt_buffer th) = 65536" using assms(2) by (simp add: rt_idle_def)
  let ?th = "(rt_got hdr th)\<lparr>rt_readlength := 32\<rparr>"
  let ?th1 = "?th\<lparr>rt_phase := Rt_Body, rt_readlength := 0, rt_datalength := l, rt_type := t\<rparr>"
  have lt: "length (rt_buffer ?th) = 65536" using lb lh by (simp add: rt_got_def)
  have tk: "take 32 (rt_buffer ?th) = h @ str ''CX180'' @ [0, 0, 0] @ le32 l @ le32 t"
    using lh by (simp add: rt_got_def blit_def) (simp add: hdr_def)
  have "0 < l" using assms(5) by (simp add: word_less_nat_alt)
  then have hd: "rt_feed net hdr (th, c) = Some (?th1, c)"
    unfolding rt_feed_header [OF assms(2) lh] rt_header_done_eq [OF assms(1,3) lt tk]
    using assms(4) by simp
  have "rt_feed net (take 65505 d) (?th1, c) = rt_recv net (take 65505 d) (?th1, c)"
    by (rule rt_recv_feed [symmetric]) (use assms(5,6) in \<open>auto simp: rt_limit_def\<close>)
  also have "\<dots> = None"
    using assms(6) lt by (simp add: rt_recv_def rt_offset_def memcpy_def)
  finally have "rt_feed net d (?th1, c) = None"
    using rt_feed_append [of net "take 65505 d" "drop 65505 d" "(?th1, c)"] by simp
  then have "rt_feed net (hdr @ d) (th, c) = None"
    by (simp add: rt_feed_append hd)
  then show ?thesis by (simp add: hdr_def)
qed

theorem oversized_frame_overruns_witness:
  "rt_feed full_net (replicate 16 0 @ str ''CX180'' @ [0, 0, 0] @ le32 70000 @ le32 272 @
     replicate 65505 0) (idle_thread, connected 5) = None"
  by (rule oversized_frame_overruns [OF connected_inv rt_idle_thread]) (simp_all add: msg_defs)

text \<open>
  A sound frame that comes in while 256 messages are queued is dropped, and the sender is told
  \<^verbatim>\<open>MSG_DATA_CORRECT\<close> all the same.
\<close>

lemma full_queue_acknowledged:
  assumes "cb_inv c" "rt_idle th" "user_frame (t, d)" "t \<noteq> cb_received_type c"
    "length (inbox c) = 256" "cb_socket c \<noteq> INVALID_SOCKET"
  shows "\<exists>th' c'. rt_feed full_net (frame t d) (th, c) = Some (th', c') \<and> inbox c' = inbox c \<and>
     ex_dropped (cb_executer c') = ex_dropped (cb_executer c) @ [frame_message (t, d)] \<and>
     cb_log c' = cb_log c @ [Sent (reply_frame (frame_hash t d) MSG_DATA_CORRECT)]"
proof -
  have u: "t \<noteq> MSG_DATA_CORRECT" "t \<noteq> MSG_DATA_ERROR" "t \<noteq> MSG_CONNECT" "length d \<le> 65504"
    using assms(3) by (auto simp: user_frame_def)
  have q: "q_inv (ex_queue (cb_executer c))" "q_cap (ex_queue (cb_executer c)) = 256"
    using assms(1) by (simp_all add: cb_inv_def ex_inv_def)
  have un: "unat (of_nat (length d) :: u32) = length d" using u(4) by (simp add: unat_of_nat)
  have wf: "wf_data (frame_message (t, d))"
    by (simp add: frame_message_def wf_message un)
  let ?x = "(cb_executer c)\<lparr>ex_posted := ex_posted (cb_executer c) @ [frame_message (t, d)],
      ex_dropped := ex_dropped (cb_executer c) @ [frame_message (t, d)]\<rparr>"
  have "Executer_Execute (frame_message (t, d)) (cb_executer c) = Some ?x"
    by (rule Execute_cases [OF q(1) wf]) (use q(2) assms(5) in \<open>auto simp: inbox_def\<close>)
  then have "hand_over t d c = Some (c\<lparr>cb_executer := ?x\<rparr>)"
    using assms(4) un by (simp add: hand_over_def GetReceiveType_def Client_Execute_eq frame_message_def)
  then have "rt_feed full_net (frame t d) (th, c) =
      Some ((rt_got (frame t d) th)\<lparr>rt_datalength := of_nat (length d), rt_type := t\<rparr>,
            answer full_net (frame_hash t d) True (c\<lparr>cb_executer := ?x\<rparr>))"
    using rt_feed_frame [OF assms(1,2) length_frame_hash u(4,1-3), where net = full_net]
    by (simp add: frame_def)
  then show ?thesis
    using assms(6) by (simp add: answer_def inbox_def reply_type_def)
qed

end
