(* ===== verification/PhysMemory.thy ===== *)
theory PhysMemory
  imports Prelude
begin

text \<open>
  \<^verbatim>\<open>ReadMemory\<close> and \<^verbatim>\<open>WriteMemory\<close> of \<^verbatim>\<open>common/VControlServer.cpp\<close>, which copy between a buffer and
  addresses the caller chooses. The memory maps addresses to bytes; an address that is not mapped
  faults.
\<close>

definition MAX_MEM_LEN :: u32 where "MAX_MEM_LEN = 256"
definition MIN_PHY_ADDR :: u32 where "MIN_PHY_ADDR = 0xC0000000"
definition NULL_POINTER :: int where "NULL_POINTER = -101"
definition INVALID_ARG_ERR :: int where "INVALID_ARG_ERR = -104"
definition INVALID_PHY_ADD :: int where "INVALID_PHY_ADD = -106"

record MEMINFO =
  ulStartAddr :: u32
  ulLength :: u32

record MEMDATA =
  stMemInfo :: MEMINFO
  pucBuf :: bytes

type_synonym memory = "u32 \<Rightarrow> byte option"

text \<open>The loops with the number of passes left, \<^verbatim>\<open>ulCount\<close> and \<^verbatim>\<open>pVirAdd\<close>, which wraps around.\<close>

fun WriteMemory_loop :: "nat \<Rightarrow> nat \<Rightarrow> u32 \<Rightarrow> bytes \<Rightarrow> memory \<Rightarrow> memory option" where
  "WriteMemory_loop 0 ulCount pVirAdd buf mem = Some mem"
| "WriteMemory_loop (Suc k) ulCount pVirAdd buf mem = do {
     b \<leftarrow> load buf ulCount;
     _ \<leftarrow> mem pVirAdd;
     WriteMemory_loop k (Suc ulCount) (pVirAdd + 1) buf (mem(pVirAdd \<mapsto> b))
   }"

fun ReadMemory_loop :: "nat \<Rightarrow> nat \<Rightarrow> u32 \<Rightarrow> bytes \<Rightarrow> memory \<Rightarrow> bytes option" where
  "ReadMemory_loop 0 ulCount pVirAdd buf mem = Some buf"
| "ReadMemory_loop (Suc k) ulCount pVirAdd buf mem = do {
     b \<leftarrow> mem pVirAdd;
     buf \<leftarrow> store buf ulCount b;
     ReadMemory_loop k (Suc ulCount) (pVirAdd + 1) buf mem
   }"

definition WriteMemory :: "MEMDATA option \<Rightarrow> memory \<Rightarrow> (int \<times> memory) option" where
  "WriteMemory pstMemData mem =
     (case pstMemData of
        None \<Rightarrow> Some (NULL_POINTER, mem)
      | Some m \<Rightarrow>
          let ulAddr = ulStartAddr (stMemInfo m); ulLen = ulLength (stMemInfo m) in
          if ulLen = 0 \<or> MAX_MEM_LEN < ulLen then Some (INVALID_ARG_ERR, mem)
          else if ulAddr < MIN_PHY_ADDR then Some (INVALID_PHY_ADD, mem)
          else do {
            mem \<leftarrow> WriteMemory_loop (unat ulLen) 0 ulAddr (pucBuf m) mem;
            Some (0, mem)
          })"

definition ReadMemory :: "MEMDATA option \<Rightarrow> memory \<Rightarrow> (int \<times> MEMDATA option) option" where
  "ReadMemory pstMemData mem =
     (case pstMemData of
        None \<Rightarrow> Some (NULL_POINTER, None)
      | Some m \<Rightarrow>
          let ulAddr = ulStartAddr (stMemInfo m); ulLen = ulLength (stMemInfo m) in
          if ulLen = 0 \<or> MAX_MEM_LEN < ulLen then Some (INVALID_ARG_ERR, Some m)
          else if ulAddr < MIN_PHY_ADDR then Some (INVALID_PHY_ADD, Some m)
          else do {
            buf \<leftarrow> ReadMemory_loop (unat ulLen) 0 ulAddr (pucBuf m) mem;
            Some (0, Some (m\<lparr>pucBuf := buf\<rparr>))
          })"

subsection \<open>The loops\<close>

definition poke :: "u32 \<Rightarrow> bytes \<Rightarrow> memory \<Rightarrow> memory" where
  "poke a bs mem = (\<lambda>x. if unat (x - a) < length bs then Some (bs ! unat (x - a)) else mem x)"

lemma poke_Cons:
  assumes "length bs < 2 ^ 32 - 1"
  shows "poke (a + 1) bs (mem(a \<mapsto> b)) = poke a (b # bs) mem"
proof
  fix x
  show "poke (a + 1) bs (mem(a \<mapsto> b)) x = poke a (b # bs) mem x"
  proof (cases "x = a")
    case True
    have "unat (- 1 :: u32) = 2 ^ 32 - 1" 
      by (simp add: unsigned_minus_1_eq_mask mask_eq_exp_minus_1)
    then show ?thesis using True assms by (simp add: poke_def)
  next
    case False
    then have "1 + (x - (a + 1)) \<noteq> 0" by simp
    from unatSuc [OF this] have "unat (x - a) = Suc (unat (x - (a + 1)))" by simp
    then show ?thesis using False by (simp add: poke_def)
  qed
qed

lemma WriteMemory_loop_eq:
  "c + k \<le> length buf \<Longrightarrow> k < 2 ^ 32 \<Longrightarrow> \<forall>i < k. mem (a + of_nat i) \<noteq> None \<Longrightarrow>
     WriteMemory_loop k c a buf mem = Some (poke a (take k (drop c buf)) mem)"
proof (induction k arbitrary: c a mem)
  case 0
  then show ?case by (simp add: poke_def)
next
  case (Suc k)
  obtain x where x: "mem a = Some x" using Suc.prems(3) by fastforce
  have "\<forall>i < k. (mem(a \<mapsto> buf ! c)) (a + 1 + of_nat i) \<noteq> None"
    using Suc.prems(3) by (auto simp: add.assoc dest: spec [of _ "Suc _"])
  then have "WriteMemory_loop k (Suc c) (a + 1) buf (mem(a \<mapsto> buf ! c)) =
      Some (poke (a + 1) (take k (drop (Suc c) buf)) (mem(a \<mapsto> buf ! c)))"
    using Suc by simp
  moreover have "take (Suc k) (drop c buf) = buf ! c # take k (drop (Suc c) buf)"
    using Suc.prems(1) by (simp add: Cons_nth_drop_Suc [symmetric])
  ultimately show ?case
    using Suc.prems x poke_Cons [of "take k (drop (Suc c) buf)" a mem "buf ! c"]
    by (simp add: load_def)
qed

lemma ReadMemory_loop_eq:
  "c + length bs \<le> length buf \<Longrightarrow> \<forall>i < length bs. mem (a + of_nat i) = Some (bs ! i) \<Longrightarrow>
     ReadMemory_loop (length bs) c a buf mem = Some (blit buf c bs)"
proof (induction bs arbitrary: c a buf)
  case (Cons b bs)
  have "\<forall>i < length bs. mem (a + 1 + of_nat i) = Some (bs ! i)"
    using Cons.prems(2) by (auto simp: add.assoc dest: spec [of _ "Suc _"])
  then have "ReadMemory_loop (length bs) (Suc c) (a + 1) (buf[c := b]) mem =
      Some (blit (buf[c := b]) (Suc c) bs)"
    using Cons.IH [of "Suc c" "buf[c := b]" "a + 1"] Cons.prems(1) by simp
  moreover have "buf[c := b] = blit buf c [b]"
    using blit_snoc [of c "[]" buf b] Cons.prems(1) by simp
  moreover have "mem a = Some b" using Cons.prems(2) by fastforce
  ultimately show ?case
    using Cons.prems(1) blit_Cons [of c buf b bs] by (simp add: store_def)
qed simp

subsection \<open>Properties\<close>

text \<open>
  C29: For 1 to 256 mapped bytes from 0xC0000000 on \<^verbatim>\<open>WriteMemory\<close> returns 0 and changes exactly
  the bytes of the range, which goes on at address 0 when it passes the last address, and
  \<^verbatim>\<open>ReadMemory\<close> of the same range then returns 0 and the bytes written. Any other length gives
  -104 and any lower address -106, and the memory stays as it is.
\<close>

theorem memory_roundtrip:
  fixes m r :: MEMDATA
  assumes "stMemInfo r = stMemInfo m"
    and "unat (ulLength (stMemInfo m)) \<le> length (pucBuf m)"
    and "unat (ulLength (stMemInfo m)) \<le> length (pucBuf r)"
    and "\<forall>i < unat (ulLength (stMemInfo m)). mem (ulStartAddr (stMemInfo m) + of_nat i) \<noteq> None"
  shows "let n = unat (ulLength (stMemInfo m)); a = ulStartAddr (stMemInfo m);
             bs = take n (pucBuf m) in
     if n = 0 \<or> 256 < n then
       WriteMemory (Some m) mem = Some (-104, mem) \<and> ReadMemory (Some r) mem = Some (-104, Some r)
     else if a < 0xC0000000 then
       WriteMemory (Some m) mem = Some (-106, mem) \<and> ReadMemory (Some r) mem = Some (-106, Some r)
     else \<exists>mem'. WriteMemory (Some m) mem = Some (0, mem') \<and>
       (\<forall>x. mem' x = (if unat (x - a) < n then Some (bs ! unat (x - a)) else mem x)) \<and>
       ReadMemory (Some r) mem' = Some (0, Some (r\<lparr>pucBuf := bs @ drop n (pucBuf r)\<rparr>))"
proof -
  define w where "w = ulLength (stMemInfo m)"
  define a where "a = ulStartAddr (stMemInfo m)"
  define bs where "bs = take (unat w) (pucBuf m)"
  have bs: "length bs = unat w" using assms(2) by (simp add: bs_def w_def)
  have guards: "w = 0 \<or> 256 < w \<longleftrightarrow> unat w = 0 \<or> 256 < unat w"
    by (auto simp: word_less_nat_alt unat_eq_0)
  show ?thesis
  proof (cases "w = 0 \<or> 256 < w \<or> a < 0xC0000000")
    case True
    then show ?thesis
      using assms(1) guards
      by (auto simp: WriteMemory_def ReadMemory_def Let_def MAX_MEM_LEN_def MIN_PHY_ADDR_def
          INVALID_ARG_ERR_def INVALID_PHY_ADD_def w_def [symmetric] a_def [symmetric])
  next
    case False
    have W: "WriteMemory_loop (unat w) 0 a (pucBuf m) mem = Some (poke a bs mem)"
      using WriteMemory_loop_eq [of 0 "unat w" "pucBuf m" mem a] assms(2,4) unsigned_less [of w]
      by (simp add: w_def a_def bs_def)
    have "unat w < 2 ^ 32" using unsigned_less [of w] by simp
    then have "unat (of_nat i :: u32) = i" if "i < unat w" for i
      using that by (simp add: unat_of_nat)
    then have "\<forall>i < length bs. poke a bs mem (a + of_nat i) = Some (bs ! i)"
      by (simp add: poke_def bs)
    from ReadMemory_loop_eq [of 0 bs "pucBuf r", OF _ this]
    have R: "ReadMemory_loop (unat w) 0 a (pucBuf r) (poke a bs mem) = Some (bs @ drop (unat w) (pucBuf r))"
      using assms(3) bs by (simp add: w_def blit_def)
    show ?thesis
      using False guards assms(1) W R bs
      by (auto simp: WriteMemory_def ReadMemory_def Let_def MAX_MEM_LEN_def MIN_PHY_ADDR_def poke_def
          w_def [symmetric] a_def [symmetric] bs_def [symmetric])
  qed
qed

theorem memory_roundtrip_witness:
  "let m = \<lparr>stMemInfo = \<lparr>ulStartAddr = 0xFFFFFFFF, ulLength = 2\<rparr>, pucBuf = [1, 2]\<rparr>;
       r = m\<lparr>pucBuf := [0, 0, 9]\<rparr> in
   \<exists>mem'. WriteMemory (Some m) (\<lambda>_. Some 7) = Some (0, mem') \<and> mem' 0 = Some 2 \<and> mem' 1 = Some 7 \<and>
     ReadMemory (Some r) mem' = Some (0, Some (r\<lparr>pucBuf := [1, 2, 9]\<rparr>))"
proof -
  let ?m = "\<lparr>stMemInfo = \<lparr>ulStartAddr = 0xFFFFFFFF, ulLength = 2\<rparr>, pucBuf = [1, 2]\<rparr>"
  have "(0 :: u32) - 0xFFFFFFFF = 1" "(1 :: u32) - 0xFFFFFFFF = 2" by simp_all
  then show ?thesis
    using memory_roundtrip [where m = ?m and r = "?m\<lparr>pucBuf := [0, 0, 9]\<rparr>" and mem = "\<lambda>_. Some 7"]
    by (auto simp: Let_def)
qed

text \<open>
  The range test looks at its start only: a write of two bytes to the last address goes on at
  address 0, far below the limit.
\<close>

lemma memory_range_wraps:
  "WriteMemory (Some \<lparr>stMemInfo = \<lparr>ulStartAddr = 0xFFFFFFFF, ulLength = 2\<rparr>, pucBuf = [a, b]\<rparr>) (\<lambda>_. Some 7) =
     Some (0, (\<lambda>_. Some 7)(0xFFFFFFFF \<mapsto> a, 0 \<mapsto> b))"
proof -
  have z: "(4294967296 :: u32) = 0" by simp
  have "WriteMemory_loop (Suc (Suc 0)) 0 0xFFFFFFFF [a, b] (\<lambda>_. Some 7) =
      Some ((\<lambda>_. Some 7)(0xFFFFFFFF \<mapsto> a, 0 \<mapsto> b))"
    by (simp add: load_def) (simp only: z)
  then have "WriteMemory_loop 2 0 0xFFFFFFFF [a, b] (\<lambda>_. Some 7) =
      Some ((\<lambda>_. Some 7)(0xFFFFFFFF \<mapsto> a, 0 \<mapsto> b))"
    by (simp only: numeral_2_eq_2)
  then show ?thesis by (simp add: WriteMemory_def Let_def MAX_MEM_LEN_def MIN_PHY_ADDR_def)
qed

end
