(* ===== verification/Server.thy ===== *)
theory Server
  imports PhysMemory
begin

text \<open>
  The state of the class \<^verbatim>\<open>CCommonServer\<close> (\<^verbatim>\<open>common/CommonServer.h\<close>, constructor and
  \<^verbatim>\<open>SendData\<close> of \<^verbatim>\<open>common/CommonServer.cpp\<close>), the message types of \<^verbatim>\<open>common/macro.h\<close> and the C
  functions its handlers share. What \<^verbatim>\<open>ClientBase::Send\<close> answers is a function \<open>link\<close> of the
  messages sent so far; the record keeps them in its last field. A thread that runs is the
  value \<open>True\<close> of the field of its handle.
\<close>

definition MSG_GETCATALOG :: u32 where "MSG_GETCATALOG = 0x100"
definition MSG_CHECKFILEEXISTS :: u32 where "MSG_CHECKFILEEXISTS = 0x101"
definition MSG_GETFILE :: u32 where "MSG_GETFILE = 0x102"
definition MSG_GETFILELENGTH :: u32 where "MSG_GETFILELENGTH = 0x104"
definition MSG_SENDFILE :: u32 where "MSG_SENDFILE = 0x105"
definition MSG_SENDFILE_CANCEL :: u32 where "MSG_SENDFILE_CANCEL = 0x106"
definition MSG_GETSERIALNUMBER :: u32 where "MSG_GETSERIALNUMBER = 0x109"
definition MSG_SETSERIALNUMBER :: u32 where "MSG_SETSERIALNUMBER = 0x110"
definition MSG_GETMAC :: u32 where "MSG_GETMAC = 0x111"
definition MSG_SETMAC :: u32 where "MSG_SETMAC = 0x112"
definition MSG_CMD :: u32 where "MSG_CMD = 0x116"
definition MSG_MEMORYSCRIPT_START :: u32 where "MSG_MEMORYSCRIPT_START = 0x119"
definition MSG_MEMORYSCRIPT_FINISH :: u32 where "MSG_MEMORYSCRIPT_FINISH = 0x121"
definition MSG_GETBOARDTYPE :: u32 where "MSG_GETBOARDTYPE = 0x122"
definition MSG_READMODULEBUF :: u32 where "MSG_READMODULEBUF = 0x123"
definition MSG_WRITEMODULEBUF :: u32 where "MSG_WRITEMODULEBUF = 0x124"
definition MSG_WRITEOPTION :: u32 where "MSG_WRITEOPTION = 0x125"
definition MSG_GETSERIALNUMBERALL :: u32 where "MSG_GETSERIALNUMBERALL = 0x127"
definition MSG_GETVERSION :: u32 where "MSG_GETVERSION = 0x128"
definition NR_MAXPACKLEN :: nat where "NR_MAXPACKLEN = 2048"
definition VERSION :: int where "VERSION = 20130508"

type_synonym message = "u32 \<times> bytes \<times> bool"     \<comment> \<open>type, data, whether \<^verbatim>\<open>Send\<close> succeeded\<close>
type_synonym link = "message list \<Rightarrow> u32 \<Rightarrow> bytes \<Rightarrow> bool"

text \<open>An open stream is the path it was opened with.\<close>

record CCommonServer =
  m_bIsGetFileCancel :: bool
  m_bIsSendFileCancel :: bool
  m_fpSendFile :: "bytes option"
  m_pSendFilePath :: "bytes option"
  m_pGetFilePath :: "bytes option"
  m_threadDownFile :: bool
  m_threadReadMemory :: bool
  m_memInfoRead :: MEMINFO
  m_bIsReadMemoryCancel :: bool
  m_bIsCMDCancel :: bool
  m_threadCMD :: bool
  m_CMD :: "bytes option"
  m_threadMemoryScript :: bool
  m_MemoryScript :: "bytes option"
  m_bIsMemoryScriptCancel :: bool
  m_bIsMemoryScriptFinish :: bool
  m_MemoryScriptLength :: u32
  sv_log :: "message list"

text \<open>The arguments are the fields that the constructor leaves as they are in memory.\<close>

definition CCommonServer_new :: "bytes option \<Rightarrow> u32 \<Rightarrow> MEMINFO \<Rightarrow> CCommonServer" where
  "CCommonServer_new junk_cmd junk_len junk_mem =
     \<lparr>m_bIsGetFileCancel = False, m_bIsSendFileCancel = False, m_fpSendFile = None,
      m_pSendFilePath = None, m_pGetFilePath = None, m_threadDownFile = False,
      m_threadReadMemory = False, m_memInfoRead = junk_mem, m_bIsReadMemoryCancel = False, m_bIsCMDCancel = False,
      m_threadCMD = False, m_CMD = junk_cmd, m_threadMemoryScript = False, m_MemoryScript = None,
      m_bIsMemoryScriptCancel = False, m_bIsMemoryScriptFinish = True,
      m_MemoryScriptLength = junk_len, sv_log = []\<rparr>"

definition no_memory :: MEMINFO where
  "no_memory = \<lparr>ulStartAddr = 0, ulLength = 0\<rparr>"

definition SendData ::
  "link \<Rightarrow> u32 \<Rightarrow> bytes \<Rightarrow> nat \<Rightarrow> CCommonServer \<Rightarrow> (bool \<times> CCommonServer) option" where
  "SendData link type data len s =
     (if len \<le> length data then
        let ok = link (sv_log s) type (take len data) in
        Some (ok, s\<lparr>sv_log := sv_log s @ [(type, take len data, ok)]\<rparr>)
      else None)"

definition SendData_type :: "link \<Rightarrow> u32 \<Rightarrow> CCommonServer \<Rightarrow> (bool \<times> CCommonServer) option" where
  "SendData_type link type s = SendData link type [] 0 s"

text \<open>
  Most handlers format a short answer into a zeroed buffer, here of \<open>n\<close> bytes, and send it up
  to its NUL.
\<close>

definition send_text :: "nat \<Rightarrow> link \<Rightarrow> u32 \<Rightarrow> bytes \<Rightarrow> CCommonServer \<Rightarrow> CCommonServer option" where
  "send_text n link type text s = do {
     strTemp \<leftarrow> memcpy (replicate n 0) 0 (text @ [0]) 0 (length text + 1);
     (_, s) \<leftarrow> SendData link type strTemp (strlen strTemp) s;
     Some s
   }"

lemma SendData_eq:
  "len \<le> length data \<Longrightarrow> SendData link type data len s =
     Some (link (sv_log s) type (take len data),
       s\<lparr>sv_log := sv_log s @ [(type, take len data, link (sv_log s) type (take len data))]\<rparr>)"
  by (simp add: SendData_def Let_def)

lemma SendData_type_eq:
  "SendData_type link type s = Some (link (sv_log s) type [],
     s\<lparr>sv_log := sv_log s @ [(type, [], link (sv_log s) type [])]\<rparr>)"
  by (simp add: SendData_type_def SendData_def Let_def)

text \<open>A request handler records one message.\<close>

definition logged :: "link \<Rightarrow> u32 \<Rightarrow> bytes \<Rightarrow> CCommonServer \<Rightarrow> CCommonServer" where
  "logged link type data s =
     s\<lparr>sv_log := sv_log s @ [(type, data, link (sv_log s) type data)]\<rparr>"

lemma logged_simps [simp]:
  "sv_log (logged link type data s) = sv_log s @ [(type, data, link (sv_log s) type data)]"
  "m_fpSendFile (logged link type data s) = m_fpSendFile s"
  "m_pSendFilePath (logged link type data s) = m_pSendFilePath s"
  "m_bIsSendFileCancel (logged link type data s) = m_bIsSendFileCancel s"
  "m_bIsGetFileCancel (logged link type data s) = m_bIsGetFileCancel s"
  "m_pGetFilePath (logged link type data s) = m_pGetFilePath s"
  "m_threadDownFile (logged link type data s) = m_threadDownFile s"
  by (simp_all add: logged_def)

lemma SendData_logged [cmem]:
  "len \<le> length data \<Longrightarrow> SendData link type data len s =
     Some (link (sv_log s) type (take len data), logged link type (take len data) s)"
  by (simp add: SendData_eq logged_def)

lemma SendData_type_logged [cmem]:
  "SendData_type link type s = Some (link (sv_log s) type [], logged link type [] s)"
  by (simp add: SendData_type_eq logged_def)

lemma send_text_eq [cmem]:
  assumes "0 \<notin> set text" "length text < n"
  shows "send_text n link type text s = Some (logged link type text s)"
proof -
  have b: "memcpy (replicate n 0) 0 (text @ [0]) 0 (Suc (length text)) =
      Some (text @ 0 # replicate (n - Suc (length text)) 0)"
    using assms(2) by (simp add: memcpy_def blit_def)
  have "strlen (text @ 0 # replicate (n - Suc (length text)) 0) = length text"
    by (simp add: strlen_def cstr_append_nul [OF assms(1)])
  then show ?thesis by (simp add: send_text_def b SendData_logged)
qed

text \<open>The messages of one type, what they carry, and whether all of them were sent.\<close>

definition msgs_of :: "u32 \<Rightarrow> message list \<Rightarrow> message list" where
  "msgs_of type l = filter (\<lambda>m. fst m = type) l"

definition payload :: "message list \<Rightarrow> bytes" where
  "payload l = concat (map (\<lambda>m. fst (snd m)) l)"

definition all_ok :: "message list \<Rightarrow> bool" where
  "all_ok l \<longleftrightarrow> (\<forall>m \<in> set l. snd (snd m))"

lemma msgs_of_simps [simp]:
  "msgs_of t [] = []" "msgs_of t (k @ l) = msgs_of t k @ msgs_of t l"
  "msgs_of t (m # l) = (if fst m = t then m # msgs_of t l else msgs_of t l)"
  by (simp_all add: msgs_of_def)

lemma payload_simps [simp]:
  "payload [] = []" "payload (k @ l) = payload k @ payload l"
  "payload (m # l) = fst (snd m) @ payload l"
  by (simp_all add: payload_def)

lemma all_ok_simps [simp]:
  "all_ok []" "all_ok (k @ l) \<longleftrightarrow> all_ok k \<and> all_ok l" "all_ok (m # l) \<longleftrightarrow> snd (snd m) \<and> all_ok l"
  by (auto simp: all_ok_def)

text \<open>Reading a C string; an array without a NUL is left at its end.\<close>

definition c_string :: "bytes \<Rightarrow> bytes option" where
  "c_string b = (if 0 \<in> set b then Some (cstr b) else None)"

lemma c_string_Some [cmem]: "0 \<in> set b \<Longrightarrow> c_string b = Some (cstr b)"
  by (simp add: c_string_def)

lemma c_string_None: "0 \<notin> set b \<Longrightarrow> c_string b = None"
  by (simp add: c_string_def)

lemma c_string_append_nul: "0 \<notin> set t \<Longrightarrow> c_string (t @ 0 # r) = Some t"
  by (simp add: c_string_def cstr_append_nul)

subsection \<open>Text in a buffer\<close>

text \<open>
  \<^verbatim>\<open>strcat\<close>, and the C string \<open>t\<close> in a buffer of \<open>n\<close> bytes that is zero behind it, the state of
  the buffers the handlers build their answers in.
\<close>

definition c_strcat :: "bytes \<Rightarrow> bytes \<Rightarrow> bytes option" where
  "c_strcat dst src = do {
     d \<leftarrow> c_string dst;
     memcpy dst (length d) (src @ [0]) 0 (length src + 1)
   }"

definition pad :: "nat \<Rightarrow> bytes \<Rightarrow> bytes" where
  "pad n t = t @ replicate (n - length t) 0"

lemma length_pad [simp]: "length t \<le> n \<Longrightarrow> length (pad n t) = n"
  by (simp add: pad_def)

lemma pad_Nil: "replicate n 0 = pad n []"
  by (simp add: pad_def)

lemma pad_split: "length t < n \<Longrightarrow> pad n t = t @ 0 # replicate (n - Suc (length t)) 0"
  by (simp add: pad_def Suc_diff_Suc [symmetric] flip: replicate_Suc)

lemma c_string_pad [simp]: "0 \<notin> set t \<Longrightarrow> length t < n \<Longrightarrow> c_string (pad n t) = Some t"
  by (simp add: pad_split c_string_append_nul)

lemma strlen_pad [simp]: "0 \<notin> set t \<Longrightarrow> length t < n \<Longrightarrow> strlen (pad n t) = length t"
  by (simp add: pad_split strlen_def cstr_append_nul)

lemma take_pad [simp]: "take (length t) (pad n t) = t"
  by (simp add: pad_def)

lemma c_strcat_pad:
  assumes "0 \<notin> set t" "0 \<notin> set src" "length t < n"
  shows "c_strcat (pad n t) src = (if length t + length src < n then Some (pad n (t @ src)) else None)"
proof -
  have "blit (pad n t) (length t) (src @ [0]) = pad n (t @ src)" if "length t + length src < n"
  proof -
    have "replicate (n - (length t + length src)) 0 = (0 :: byte) # replicate (n - Suc (length t + length src)) 0"
      using that by (simp add: Suc_diff_Suc [symmetric] flip: replicate_Suc)
    then show ?thesis using that by (simp add: blit_def pad_def)
  qed
  then show ?thesis using assms by (simp add: c_strcat_def memcpy_def)
qed

lemma memcpy_pad: "length t < n \<Longrightarrow> memcpy (pad n []) 0 (t @ [0]) 0 (Suc (length t)) = Some (pad n t)"
  using pad_split [of t n] by (simp add: memcpy_def blit_def pad_def)

lemma pad_append:
  assumes "length t + length u \<le> n"
  shows "blit (pad n t) (length t) u = pad n (t @ u)"
  using assms by (simp add: blit_def pad_def)

lemma memcpy_pad_at:
  "length t + n \<le> k \<Longrightarrow> n \<le> length src \<Longrightarrow>
     memcpy (pad k t) (length t) src 0 n = Some (pad k (t @ take n src))"
  by (simp add: memcpy_def pad_append)

lemma store_pad: "length t < k \<Longrightarrow> store (pad k t) (length t) v = Some (pad k (t @ [v]))"
  using blit_snoc [of 0 t "pad k t" v] pad_append [of t "[v]" k]
  by (simp add: store_def blit_def pad_def list_update_append Suc_diff_Suc [symmetric] flip: replicate_Suc)

lemma SendData_pad:
  "length t \<le> k \<Longrightarrow> SendData link type (pad k t) (length t) s = Some (link (sv_log s) type t, logged link type t s)"
  by (simp add: SendData_logged)

subsection \<open>Numbers in text\<close>

text \<open>
  \<^verbatim>\<open>atoi\<close> and \<^verbatim>\<open>atol\<close>, which agree on this target. They read until the first character that is
  no digit; a string that ends before one has no NUL, and they read on behind it.
\<close>

definition isspace :: "byte \<Rightarrow> bool" where
  "isspace c \<longleftrightarrow> c = 32 \<or> (9 \<le> c \<and> c \<le> 13)"

definition is_digit :: "byte \<Rightarrow> bool" where
  "is_digit c \<longleftrightarrow> 48 \<le> c \<and> c \<le> 57"

fun atoi_digits :: "int \<Rightarrow> bytes \<Rightarrow> int option" where
  "atoi_digits v [] = None"
| "atoi_digits v (c # cs) =
     (if is_digit c then atoi_digits (10 * v + uint (c - 48)) cs else Some v)"

definition clamp :: "int \<Rightarrow> int" where
  "clamp v = max (-(2 ^ 31)) (min (2 ^ 31 - 1) v)"

definition atoi :: "bytes \<Rightarrow> int option" where
  "atoi s =
     (case dropWhile isspace s of
        [] \<Rightarrow> None
      | c # cs \<Rightarrow>
          if c = 45 then map_option (\<lambda>v. clamp (- v)) (atoi_digits 0 cs)
          else if c = 43 then map_option clamp (atoi_digits 0 cs)
          else map_option clamp (atoi_digits 0 (c # cs)))"

lemma atoi_digits_undec:
  assumes "\<forall>c \<in> set ds. is_digit c" "\<not> is_digit e"
  shows "atoi_digits (int v) (ds @ e # cs) = Some (int (foldl (\<lambda>v c. 10 * v + unat (c - 48)) v ds))"
  using assms(1)
proof (induction ds arbitrary: v)
  case (Cons d ds)
  have "10 * int v + uint (d - 48) = int (10 * v + unat (d - 48))" by simp
  then show ?case using Cons by (simp del: of_nat_add of_nat_mult)
qed (simp add: assms(2))

text \<open>A number in decimal notation is read back, whatever follows it but a digit.\<close>

lemma digit_not_space:
  assumes "is_digit c"
  shows "\<not> isspace c \<and> c \<noteq> 45 \<and> c \<noteq> 43"
proof -
  have "48 \<le> unat c" using assms by (simp add: is_digit_def word_le_nat_alt)
  moreover have "c \<noteq> 32 \<and> c \<noteq> 45 \<and> c \<noteq> 43 \<and> \<not> c \<le> 13" if "48 \<le> unat c"
    using that by (auto simp: word_le_nat_alt)
  ultimately show ?thesis by (simp add: isspace_def)
qed

lemma digits_are_digits: "\<forall>c \<in> set (str (digits n)). is_digit c"
  using str_digits [of n] by (simp add: is_digit_def)

lemma str_digits_not_Nil: "str (digits n) \<noteq> []"
  by (subst digits.simps) (simp add: str_def)

lemma atoi_number:
  assumes "n < 2 ^ 31" "\<not> is_digit e"
  shows "atoi (str (digits n) @ e # cs) = Some (int n)"
proof -
  obtain d ds where s: "str (digits n) = d # ds"
    using str_digits_not_Nil [of n] by (cases "str (digits n)") auto
  then have d: "is_digit d" using digits_are_digits [of n] by auto
  have "atoi_digits 0 (str (digits n) @ e # cs) = Some (int n)"
    using atoi_digits_undec [OF digits_are_digits assms(2), of 0 n cs] undec_digits [of n]
    by (simp add: undec_def)
  then have "atoi_digits 0 (d # ds @ e # cs) = Some (int n)" by (simp add: s)
  moreover have "clamp (int n) = int n" using assms(1) by (simp add: clamp_def)
  ultimately show ?thesis
    using digit_not_space [OF d] by (simp add: atoi_def s del: atoi_digits.simps)
qed

end
