(* ===== verification/OptionStore.thy ===== *)
theory OptionStore
  imports Prelude
begin

text \<open>
  The interface of a memory of options: read some bytes into a buffer, write some bytes,
  with a result code that is 0 on success. The program has two of them, the EEPROM of the
  instrument behind the SUSI library and the options area of a module's FTDI chip, and the
  code that changes an option, a MAC or a serial number relies on this contract only.
  The locale is interpreted in the theories Eeprom and Ftdi.
\<close>

locale option_store =
  fixes rd :: "bytes \<Rightarrow> int \<Rightarrow> int \<Rightarrow> 's \<Rightarrow> (int \<times> bytes \<times> 's) option"
    and wr :: "bytes \<Rightarrow> int \<Rightarrow> int \<Rightarrow> 's \<Rightarrow> (int \<times> 's) option"
    and img :: "'s \<Rightarrow> bytes"
    and ok :: "'s \<Rightarrow> bool"
    and size :: int
  assumes rd_bytes: "ok s \<Longrightarrow> rd buf start len s = Some (0, buf', s') \<Longrightarrow>
      0 \<le> start \<Longrightarrow> 0 < len \<Longrightarrow> start + len \<le> size \<Longrightarrow>
      take (nat len) buf' = take (nat len) (drop (nat start) (img s)) \<and> img s' = img s \<and> ok s'"
    and rd_keeps: "ok s \<Longrightarrow> rd buf start len s = Some (r, buf', s') \<Longrightarrow>
      0 \<le> start \<Longrightarrow> 0 < len \<Longrightarrow> start + len \<le> size \<Longrightarrow> img s' = img s \<and> ok s'"
    and wr_bytes: "ok s \<Longrightarrow> wr bs start len s = Some (0, s') \<Longrightarrow>
      0 \<le> start \<Longrightarrow> 0 < len \<Longrightarrow> start + len \<le> size \<Longrightarrow> nat len \<le> length bs \<Longrightarrow>
      img s' = blit (img s) (nat start) (take (nat len) bs) \<and> ok s'"
    and img_size: "ok s \<Longrightarrow> length (img s) = nat size"
begin

lemma read_back:
  assumes "ok s" "wr bs start len s = Some (0, s1)" "rd buf start len s1 = Some (0, buf', s2)"
    "0 \<le> start" "0 < len" "start + len \<le> size" "nat len \<le> length bs"
  shows "take (nat len) buf' = take (nat len) bs"
proof -
  have w: "img s1 = blit (img s) (nat start) (take (nat len) bs)" "ok s1"
    using wr_bytes [OF assms(1,2,4-7)] by auto
  have l: "nat start + nat len \<le> length (img s)"
    using img_size [OF assms(1)] assms(4-6) by linarith
  have "take (nat len) (drop (nat start) (img s1)) = take (nat len) bs"
    using l assms(7) unfolding w(1) by (simp add: blit_def min_def)
  then show ?thesis using rd_bytes [OF w(2) assms(3-6)] by simp
qed

lemma write_elsewhere:
  assumes "ok s" "wr bs start len s = Some (0, s1)" "rd buf start' len' s1 = Some (0, buf1, s2)"
    "0 \<le> start" "0 < len" "start + len \<le> size" "nat len \<le> length bs"
    "0 \<le> start'" "0 < len'" "start' + len' \<le> size"
    "start + len \<le> start' \<or> start' + len' \<le> start"
  shows "take (nat len') buf1 = take (nat len') (drop (nat start') (img s))"
proof -
  have w: "img s1 = blit (img s) (nat start) (take (nat len) bs)" "ok s1"
    using wr_bytes [OF assms(1,2,4-7)] by auto
  have l: "nat start + nat len \<le> length (img s)" "nat start' + nat len' \<le> length (img s)"
    using img_size [OF assms(1)] assms(4-6,8-10) by linarith+
  have lt: "length (take (nat len) bs) = nat len" using assms(7) by simp
  have "take (nat len') (drop (nat start') (img s1)) = take (nat len') (drop (nat start') (img s))"
  proof (rule nth_equalityI)
    show "length (take (nat len') (drop (nat start') (img s1))) =
        length (take (nat len') (drop (nat start') (img s)))"
      using l lt unfolding w(1) by simp
    fix k assume "k < length (take (nat len') (drop (nat start') (img s1)))"
    then have k: "k < nat len'" "nat start' + k < length (img s1)" by auto
    have "img s1 ! (nat start' + k) = img s ! (nat start' + k)"
      unfolding w(1) using l lt k assms(4,5,8,9,11)
      by (subst blit_nth) (auto simp: nat_add_distrib [symmetric])
    then show "take (nat len') (drop (nat start') (img s1)) ! k =
        take (nat len') (drop (nat start') (img s)) ! k"
      using k l lt unfolding w(1) by simp
  qed
  then show ?thesis using rd_bytes [OF w(2) assms(3) assms(8-10)] by simp
qed

text \<open>Changing one byte of what was read and writing that byte changes nothing else.\<close>

lemma change_byte:
  assumes "ok s" "rd buf 0 size s = Some (0, buf', s1)" "0 < size" "0 \<le> i" "i < size"
    "wr [f (buf' ! nat i)] i 1 s1 = Some (0, s2)"
  shows "img s2 = (img s)[nat i := f (img s ! nat i)] \<and> ok s2"
proof -
  have r: "take (nat size) buf' = take (nat size) (img s)" "img s1 = img s" "ok s1"
    using rd_bytes [OF assms(1,2)] assms(3) by auto
  have li: "nat i < length (img s)" using img_size [OF assms(1)] assms(4,5) by simp
  then have b: "buf' ! nat i = img s ! nat i"
    using r(1) img_size [OF assms(1)] by (metis nth_take)
  have w: "img s2 = blit (img s1) (nat i) [f (buf' ! nat i)]" "ok s2"
    using wr_bytes [OF r(3) assms(6,4)] assms(5) by auto
  have "blit (img s) (nat i) [f (img s ! nat i)] = (img s)[nat i := f (img s ! nat i)]"
    using li by (simp add: blit_def upd_conv_take_nth_drop)
  then show ?thesis using w r(2) b by simp
qed

text \<open>The same when the whole buffer is written back.\<close>

lemma change_byte_whole:
  assumes "ok s" "rd buf 0 size s = Some (0, buf', s1)" "0 < size" "0 \<le> i" "i < size"
    "nat size \<le> length buf'" "wr (buf'[nat i := f (buf' ! nat i)]) 0 size s1 = Some (0, s2)"
  shows "img s2 = (img s)[nat i := f (img s ! nat i)] \<and> ok s2"
proof -
  have r: "take (nat size) buf' = take (nat size) (img s)" "img s1 = img s" "ok s1"
    using rd_bytes [OF assms(1,2)] assms(3) by auto
  have l: "length (img s) = nat size" using img_size [OF assms(1)] .
  have li: "nat i < nat size" using assms(4,5) by simp
  then have b: "buf' ! nat i = img s ! nat i" using r(1) by (metis nth_take)
  have w: "img s2 = blit (img s1) 0 (take (nat size) (buf'[nat i := f (buf' ! nat i)]))" "ok s2"
    using wr_bytes [OF r(3) assms(7)] assms(3,6) by auto
  have "take (nat size) (buf'[nat i := f (buf' ! nat i)]) = (img s)[nat i := f (img s ! nat i)]"
    using r(1) l b by (simp add: take_update_swap)
  then show ?thesis using w r(2) l by (simp add: blit_whole)
qed

end

end
