(* ===== verification/Eeprom.thy ===== *)
theory Eeprom
  imports OptionStore
begin

text \<open>
  The EEPROM of the instrument (\<^verbatim>\<open>v400eeprom/v400eeprom.c\<close>) and the functions of
  \<^verbatim>\<open>common/VControlServer.cpp\<close> that use it directly. The SUSI library is not part of the
  repository: it is the record \<open>susi\<close> of its calls on a device state of any type, and what
  the code relies on is the predicate \<open>susi_laws\<close>.
\<close>

definition EEPROM_I2C_ADDR :: byte where "EEPROM_I2C_ADDR = 0xAE"
definition EEPROM_MAXSIZE :: int where "EEPROM_MAXSIZE = 255"
definition E2PROM_OPTION_SIZE :: int where "E2PROM_OPTION_SIZE = 256"
definition NULL_POINTER_ERR :: int where "NULL_POINTER_ERR = -101"

subsection \<open>The SUSI library\<close>

text \<open>Each call gives its result (false stands for \<^verbatim>\<open>FALSE\<close>) and the device afterwards.\<close>

record 'd susi =
  SusiDllInit :: "'d \<Rightarrow> bool \<times> 'd"
  SusiDllUnInit :: "'d \<Rightarrow> bool \<times> 'd"
  SusiSMBusAvailable :: "'d \<Rightarrow> int \<times> 'd"
  SusiSMBusReadByte :: "byte \<Rightarrow> u32 \<Rightarrow> 'd \<Rightarrow> bool \<times> byte \<times> 'd"
  SusiSMBusWriteByte :: "byte \<Rightarrow> u32 \<Rightarrow> byte \<Rightarrow> 'd \<Rightarrow> bool \<times> 'd"
  SusiSMBusReadByteMulti :: "byte \<Rightarrow> u32 \<Rightarrow> nat \<Rightarrow> 'd \<Rightarrow> bool \<times> bytes \<times> 'd"
  SusiSMBusWriteByteMulti :: "byte \<Rightarrow> u32 \<Rightarrow> bytes \<Rightarrow> 'd \<Rightarrow> bool \<times> 'd"

type_synonym 'd susi_state = "'d susi \<times> 'd"

definition susi_image :: "'d susi_state \<Rightarrow> bytes" where
  "susi_image s = (case SusiSMBusReadByteMulti (fst s) EEPROM_I2C_ADDR 0 255 (snd s) of (_, b, _) \<Rightarrow> b)"

text \<open>
  A successful read of 255 bytes returns them and, like the calls that do not write, leaves
  them as they are; a successful write of 255 bytes makes them the content.
\<close>

definition susi_laws :: "'d susi \<Rightarrow> bool" where
  "susi_laws S \<longleftrightarrow>
     (\<forall>d. length (susi_image (S, d)) = 255 \<and>
        susi_image (S, snd (SusiDllInit S d)) = susi_image (S, d) \<and>
        susi_image (S, snd (SusiDllUnInit S d)) = susi_image (S, d) \<and>
        susi_image (S, snd (SusiSMBusAvailable S d)) = susi_image (S, d) \<and>
        susi_image (S, snd (snd (SusiSMBusReadByteMulti S EEPROM_I2C_ADDR 0 255 d))) =
          susi_image (S, d)) \<and>
     (\<forall>d b d'. length b = 255 \<longrightarrow> SusiSMBusWriteByteMulti S EEPROM_I2C_ADDR 0 b d = (True, d') \<longrightarrow>
        susi_image (S, d') = b)"

subsection \<open>The driver\<close>

definition eeprom_open :: "'d susi_state \<Rightarrow> int \<times> 'd susi_state" where
  "eeprom_open = (\<lambda>(S, d).
     case SusiDllInit S d of (result, d) \<Rightarrow>
       if \<not> result then (-1, S, d)
       else case SusiSMBusAvailable S d of (result, d) \<Rightarrow>
         if result = 0 then (case SusiDllUnInit S d of (_, d) \<Rightarrow> (-1, S, d))
         else (0, S, d))"

definition eeprom_close :: "'d susi_state \<Rightarrow> int \<times> 'd susi_state" where
  "eeprom_close = (\<lambda>(S, d).
     case SusiDllUnInit S d of (result, d) \<Rightarrow> (if \<not> result then -1 else 0, S, d))"

definition eeprom_read_byte :: "u32 \<Rightarrow> 'd susi_state \<Rightarrow> int \<times> byte \<times> 'd susi_state" where
  "eeprom_read_byte addr = (\<lambda>(S, d).
     case SusiSMBusReadByte S EEPROM_I2C_ADDR addr d of (result, b, d) \<Rightarrow>
       (if \<not> result then -1 else 0, b, S, d))"

definition eeprom_write_byte :: "u32 \<Rightarrow> byte \<Rightarrow> 'd susi_state \<Rightarrow> int \<times> 'd susi_state" where
  "eeprom_write_byte addr data = (\<lambda>(S, d).
     case SusiSMBusWriteByte S EEPROM_I2C_ADDR addr data d of (result, d) \<Rightarrow>
       (if \<not> result then -1 else 0, S, d))"

definition eeprom_read_buf ::
  "u32 \<Rightarrow> u32 \<Rightarrow> bytes \<Rightarrow> 'd susi_state \<Rightarrow> (int \<times> bytes \<times> 'd susi_state) option" where
  "eeprom_read_buf start len0 buf = (\<lambda>(S, d).
     let len = (if 255 < len0 then 255 else len0) in
     if start = 0 \<and> len = 255 then
       (case SusiSMBusReadByteMulti S EEPROM_I2C_ADDR start 255 d of (result, b, d) \<Rightarrow> do {
          buf \<leftarrow> memcpy buf 0 b 0 255;
          Some (if \<not> result then -1 else 0, buf, S, d)
        })
     else
       (case SusiSMBusReadByteMulti S EEPROM_I2C_ADDR 0 255 d of (result, pBuf, d) \<Rightarrow>
          if \<not> result then Some (-1, buf, S, d)
          else do {
            buf \<leftarrow> memcpy buf 0 pBuf (unat start) (unat len);
            Some (0, buf, S, d)
          }))"

definition eeprom_write_buf ::
  "u32 \<Rightarrow> u32 \<Rightarrow> bytes \<Rightarrow> 'd susi_state \<Rightarrow> (int \<times> 'd susi_state) option" where
  "eeprom_write_buf start len0 buf = (\<lambda>(S, d).
     let len = (if 255 < len0 then 255 else len0) in
     if start = 0 \<and> len = 255 then
       (if length buf < 255 then None
        else case SusiSMBusWriteByteMulti S EEPROM_I2C_ADDR start (take 255 buf) d of (result, d) \<Rightarrow>
          Some (if \<not> result then -1 else 0, S, d))
     else
       (case SusiSMBusReadByteMulti S EEPROM_I2C_ADDR 0 255 d of (result, pBuf, d) \<Rightarrow>
          if \<not> result then Some (-1, S, d)
          else do {
            pBuf \<leftarrow> memcpy pBuf (unat start) buf 0 (unat len);
            (case SusiSMBusWriteByteMulti S EEPROM_I2C_ADDR 0 pBuf d of (result, d) \<Rightarrow>
               Some (if \<not> result then -1 else 0, S, d))
          }))"

subsection \<open>Option buffers\<close>

text \<open>The callers pass \<^verbatim>\<open>int\<close>s, which become \<^verbatim>\<open>unsigned int\<close>s.\<close>

definition ReadOptionBuffer ::
  "bytes \<Rightarrow> int \<Rightarrow> int \<Rightarrow> 'd susi_state \<Rightarrow> (int \<times> bytes \<times> 'd susi_state) option" where
  "ReadOptionBuffer pBuff start iLen s =
     (if E2PROM_OPTION_SIZE < iLen \<or> iLen \<le> 0 then Some (3, pBuff, s)
      else case eeprom_open s of (iRet, s) \<Rightarrow>
        if iRet = -1 then Some (4, pBuff, s)
        else do {
          (iRet, pBuff, s) \<leftarrow> eeprom_read_buf (word_of_int start) (word_of_int iLen) pBuff s;
          let s = snd (eeprom_close s);
          Some (if iRet \<noteq> 0 then 5 else 0, pBuff, s)
        })"

definition WriteOptionBuffer ::
  "bytes \<Rightarrow> int \<Rightarrow> int \<Rightarrow> 'd susi_state \<Rightarrow> (int \<times> 'd susi_state) option" where
  "WriteOptionBuffer pBuff start iLen s =
     (if E2PROM_OPTION_SIZE < iLen \<or> iLen \<le> 0 then Some (3, s)
      else case eeprom_open s of (iRet, s) \<Rightarrow>
        if iRet = -1 then Some (4, s)
        else do {
          (iRet, s) \<leftarrow> eeprom_write_buf (word_of_int start) (word_of_int iLen) pBuff s;
          let s = snd (eeprom_close s);
          Some (if iRet \<noteq> 0 then 19 else 0, s)
        })"

definition ReadMAC :: "bytes option \<Rightarrow> 'd susi_state \<Rightarrow> (int \<times> bytes option \<times> 'd susi_state) option" where
  "ReadMAC pMac s =
     (case pMac of
        None \<Rightarrow> Some (NULL_POINTER_ERR, None, s)
      | Some m \<Rightarrow> do {
          m \<leftarrow> memset m 0 0 6;
          (iRet, m, s) \<leftarrow> ReadOptionBuffer m 0 6 s;
          Some (iRet, Some m, s)
        })"

definition ReadSerialNumber ::
  "bytes option \<Rightarrow> 'd susi_state \<Rightarrow> (int \<times> bytes option \<times> 'd susi_state) option" where
  "ReadSerialNumber pSerialNumber s =
     (case pSerialNumber of
        None \<Rightarrow> Some (NULL_POINTER_ERR, None, s)
      | Some m \<Rightarrow> do {
          m \<leftarrow> memset m 0 0 14;
          (iRet, m, s) \<leftarrow> ReadOptionBuffer m 16 14 s;
          Some (iRet, Some m, s)
        })"

definition WriteMAC :: "bytes \<Rightarrow> 'd susi_state \<Rightarrow> (int \<times> 'd susi_state) option" where
  "WriteMAC pMac s = WriteOptionBuffer pMac 0 6 s"

definition WriteSerialNumber :: "bytes \<Rightarrow> 'd susi_state \<Rightarrow> (int \<times> 'd susi_state) option" where
  "WriteSerialNumber pSerNo s = WriteOptionBuffer pSerNo 16 14 s"

subsection \<open>The contract\<close>

definition susi_ok :: "'d susi_state \<Rightarrow> bool" where
  "susi_ok s \<longleftrightarrow> susi_laws (fst s)"

lemma susi_length: "susi_ok s \<Longrightarrow> length (susi_image s) = 255"
  by (cases s) (simp add: susi_ok_def susi_laws_def)

lemma eeprom_open_keeps:
  "susi_ok s \<Longrightarrow> eeprom_open s = (r, s') \<Longrightarrow> susi_ok s' \<and> susi_image s' = susi_image s"
  by (cases s) (auto simp: eeprom_open_def susi_ok_def susi_laws_def split: prod.splits if_splits;
      metis snd_conv)

lemma eeprom_close_keeps:
  "susi_ok s \<Longrightarrow> susi_ok (snd (eeprom_close s)) \<and> susi_image (snd (eeprom_close s)) = susi_image s"
  by (cases s) (auto simp: eeprom_close_def susi_ok_def susi_laws_def split: prod.splits; metis snd_conv)

lemma u32_of_small:
  assumes "0 \<le> i" "i \<le> 255"
  shows "unat (word_of_int i :: u32) = nat i" "(word_of_int i :: u32) = 0 \<longleftrightarrow> i = 0"
    "(word_of_int i :: u32) = 255 \<longleftrightarrow> i = 255" "\<not> (255 < (word_of_int i :: u32))"
proof -
  have u: "uint (word_of_int i :: u32) = i"
    using assms by (simp add: uint_word_of_int)
  then show "unat (word_of_int i :: u32) = nat i" by (simp flip: nat_uint_eq)
  show "(word_of_int i :: u32) = 0 \<longleftrightarrow> i = 0" "(word_of_int i :: u32) = 255 \<longleftrightarrow> i = 255"
    using u by (simp_all add: word_uint_eq_iff)
  show "\<not> (255 < (word_of_int i :: u32))" using u assms by (simp add: word_less_def)
qed

lemma eeprom_read_buf_ok:
  assumes "susi_ok s" "eeprom_read_buf (word_of_int start) (word_of_int len) buf s = Some (0, buf', s')"
    "0 \<le> start" "0 < len" "start + len \<le> 255"
  shows "take (nat len) buf' = take (nat len) (drop (nat start) (susi_image s)) \<and>
     susi_image s' = susi_image s \<and> susi_ok s' \<and> length buf' = length buf"
proof -
  obtain S d where s: "s = (S, d)" by (cases s)
  obtain r b d' where R: "SusiSMBusReadByteMulti S EEPROM_I2C_ADDR 0 255 d = (r, b, d')"
    by (cases "SusiSMBusReadByteMulti S EEPROM_I2C_ADDR 0 255 d") auto
  have l: "susi_laws S" using assms(1) by (simp add: susi_ok_def s)
  have im: "susi_image s = b" "length b = 255" "susi_image (S, d') = b"
    using l R unfolding susi_laws_def by (auto simp: susi_image_def s) (metis R fst_conv prod.case snd_conv)+
  have st: "0 \<le> start" "start \<le> 255" and ln: "0 \<le> len" "len \<le> 255" using assms(3-5) by auto
  note ws = u32_of_small [OF st] and wl = u32_of_small [OF ln]
  have le: "nat start + nat len \<le> 255" using assms(3-5) by linarith
  have "buf' = blit buf 0 (take (nat len) (drop (nat start) b)) \<and> s' = (S, d') \<and> nat len \<le> length buf"
  proof (cases "start = 0 \<and> len = 255")
    case True
    then show ?thesis
      using assms(2) R im(2) by (auto simp: eeprom_read_buf_def s memcpy_def Let_def split: if_splits)
  next
    case False
    then show ?thesis
      using assms(2) R ws wl im(2) le
      by (auto simp: eeprom_read_buf_def s memcpy_def Let_def split: if_splits)
  qed
  moreover have "take (nat len) (blit buf 0 (take (nat len) (drop (nat start) b))) =
      take (nat len) (drop (nat start) b)" if "nat len \<le> length buf"
  proof -
    have "length (take (nat len) (drop (nat start) b)) = nat len" using le im(2) by simp
    then show ?thesis
      using take_blit_upto [of 0 buf "take (nat len) (drop (nat start) b)"] by simp
  qed
  ultimately show ?thesis using im l le by (auto simp: susi_ok_def)
qed

lemma eeprom_read_buf_keeps:
  assumes "susi_ok s" "eeprom_read_buf (word_of_int start) (word_of_int len) buf s = Some (r, buf', s')"
    "0 \<le> start" "0 < len" "start + len \<le> 255"
  shows "susi_image s' = susi_image s \<and> susi_ok s'"
proof -
  obtain S d where s: "s = (S, d)" by (cases s)
  obtain rr b d' where R: "SusiSMBusReadByteMulti S EEPROM_I2C_ADDR 0 255 d = (rr, b, d')"
    by (cases "SusiSMBusReadByteMulti S EEPROM_I2C_ADDR 0 255 d") auto
  have st: "0 \<le> start" "start \<le> 255" and ln: "0 \<le> len" "len \<le> 255" using assms(3-5) by auto
  have "s' = (S, d')"
    using assms(2) R u32_of_small [OF st] u32_of_small [OF ln]
    by (auto simp: eeprom_read_buf_def s Let_def split: if_splits bind_splits)
  moreover have "susi_image (S, d') = susi_image (S, d)"
    using assms(1) R unfolding susi_ok_def susi_laws_def s by (metis fst_conv snd_conv)
  ultimately show ?thesis using assms(1) by (simp add: s susi_ok_def)
qed

lemma eeprom_write_buf_ok:
  assumes "susi_ok s" "eeprom_write_buf (word_of_int start) (word_of_int len) buf s = Some (0, s')"
    "0 \<le> start" "0 < len" "start + len \<le> 255" "nat len \<le> length buf"
  shows "susi_image s' = blit (susi_image s) (nat start) (take (nat len) buf) \<and> susi_ok s'"
proof -
  obtain S d where s: "s = (S, d)" by (cases s)
  obtain r b d' where R: "SusiSMBusReadByteMulti S EEPROM_I2C_ADDR 0 255 d = (r, b, d')"
    by (cases "SusiSMBusReadByteMulti S EEPROM_I2C_ADDR 0 255 d") auto
  have l: "susi_laws S" using assms(1) by (simp add: susi_ok_def s)
  have im: "susi_image s = b" "length b = 255"
    using l R unfolding susi_laws_def by (auto simp: susi_image_def s) (metis R fst_conv prod.case snd_conv)+
  have st: "0 \<le> start" "start \<le> 255" and ln: "0 \<le> len" "len \<le> 255" using assms(3-5) by auto
  note ws = u32_of_small [OF st] and wl = u32_of_small [OF ln]
  have le: "nat start + nat len \<le> 255" using assms(3-5) by linarith
  have wr: "susi_image (S, d1) = c" if "SusiSMBusWriteByteMulti S EEPROM_I2C_ADDR 0 c d0 = (True, d1)"
    "length c = 255" for c d0 d1
    using l that unfolding susi_laws_def by blast
  show ?thesis
  proof (cases "start = 0 \<and> len = 255")
    case True
    obtain r2 d2 where W: "SusiSMBusWriteByteMulti S EEPROM_I2C_ADDR 0 (take 255 buf) d = (r2, d2)"
      by (cases "SusiSMBusWriteByteMulti S EEPROM_I2C_ADDR 0 (take 255 buf) d") auto
    then have "r2" "s' = (S, d2)" "255 \<le> length buf"
      using assms(2,6) True by (auto simp: eeprom_write_buf_def s Let_def split: if_splits)
    then show ?thesis
      using wr [of "take 255 buf" d d2] W True im l by (simp add: blit_whole susi_ok_def)
  next
    case False
    have m: "memcpy b (nat start) buf 0 (nat len) = Some (blit b (nat start) (take (nat len) buf))"
      using le im(2) assms(6) by (simp add: memcpy_def)
    define c where "c = blit b (nat start) (take (nat len) buf)"
    have lc: "length c = 255" using le im(2) assms(6) by (simp add: c_def)
    obtain r2 d2 where W: "SusiSMBusWriteByteMulti S EEPROM_I2C_ADDR 0 c d' = (r2, d2)"
      by (cases "SusiSMBusWriteByteMulti S EEPROM_I2C_ADDR 0 c d'") auto
    then have "r2" "s' = (S, d2)"
      using assms(2) R m [folded c_def] False ws wl
      by (auto simp: eeprom_write_buf_def s Let_def split: if_splits)
    then show ?thesis
      using wr [OF _ lc, of d' d2] W im l by (simp add: c_def susi_ok_def)
  qed
qed

interpretation eeprom: option_store ReadOptionBuffer WriteOptionBuffer susi_image susi_ok 255
proof unfold_locales
  fix s s' :: "'d susi_state" and buf buf' start len
  assume a: "susi_ok s" "ReadOptionBuffer buf start len s = Some (0, buf', s')"
    "0 \<le> start" "0 < len" "start + len \<le> 255"
  obtain r s1 where o: "eeprom_open s = (r, s1)" by (cases "eeprom_open s") auto
  have s1: "susi_ok s1" "susi_image s1 = susi_image s" using eeprom_open_keeps [OF a(1) o] by auto
  obtain r2 s2 where e: "eeprom_read_buf (word_of_int start) (word_of_int len) buf s1 = Some (r2, buf', s2)"
      "r2 = 0" "s' = snd (eeprom_close s2)"
    using a(2,4,5,3) o
    by (auto simp: ReadOptionBuffer_def E2PROM_OPTION_SIZE_def Let_def split: if_splits bind_splits)
  from eeprom_read_buf_ok [OF s1(1) e(1) [unfolded e(2)] a(3-5)] s1(2) eeprom_close_keeps [of s2] e(3)
  show "take (nat len) buf' = take (nat len) (drop (nat start) (susi_image s)) \<and>
      susi_image s' = susi_image s \<and> susi_ok s'"
    by auto
next
  fix s s' :: "'d susi_state" and buf buf' start len rt
  assume a: "susi_ok s" "ReadOptionBuffer buf start len s = Some (rt, buf', s')"
    "0 \<le> start" "0 < len" "start + len \<le> 255"
  obtain r s1 where o: "eeprom_open s = (r, s1)" by (cases "eeprom_open s") auto
  have s1: "susi_ok s1" "susi_image s1 = susi_image s" using eeprom_open_keeps [OF a(1) o] by auto
  consider "s' = s1" | r2 s2 where
      "eeprom_read_buf (word_of_int start) (word_of_int len) buf s1 = Some (r2, buf', s2)"
      "s' = snd (eeprom_close s2)"
    using a(2,4,5,3) o
    by (auto simp: ReadOptionBuffer_def E2PROM_OPTION_SIZE_def Let_def split: if_splits bind_splits)
  then show "susi_image s' = susi_image s \<and> susi_ok s'"
  proof cases
    case 2
    then show ?thesis
      using eeprom_read_buf_keeps [OF s1(1) 2(1)] eeprom_close_keeps [of s2] s1(2) a(3-5) by auto
  qed (use s1 in simp)
next
  fix s s' :: "'d susi_state" and bs start len
  assume a: "susi_ok s" "WriteOptionBuffer bs start len s = Some (0, s')"
    "0 \<le> start" "0 < len" "start + len \<le> 255" "nat len \<le> length bs"
  obtain r s1 where o: "eeprom_open s = (r, s1)" by (cases "eeprom_open s") auto
  have s1: "susi_ok s1" "susi_image s1 = susi_image s" using eeprom_open_keeps [OF a(1) o] by auto
  obtain r2 s2 where e: "eeprom_write_buf (word_of_int start) (word_of_int len) bs s1 = Some (r2, s2)"
      "r2 = 0" "s' = snd (eeprom_close s2)"
    using a(2,4,5,3) o
    by (auto simp: WriteOptionBuffer_def E2PROM_OPTION_SIZE_def Let_def split: if_splits bind_splits)
  from eeprom_write_buf_ok [OF s1(1) e(1) [unfolded e(2)] a(3-6)] s1(2) eeprom_close_keeps [of s2] e(3)
  show "susi_image s' = blit (susi_image s) (nat start) (take (nat len) bs) \<and> susi_ok s'"
    by auto
qed (simp add: susi_length)

subsection \<open>A device that works\<close>

definition susi_works :: "'d susi \<Rightarrow> bool" where
  "susi_works S \<longleftrightarrow> (\<forall>d. fst (SusiDllInit S d) \<and> fst (SusiDllUnInit S d) \<and>
     fst (SusiSMBusAvailable S d) \<noteq> 0 \<and>
     fst (SusiSMBusReadByteMulti S EEPROM_I2C_ADDR 0 255 d) \<and>
     (\<forall>b. fst (SusiSMBusWriteByteMulti S EEPROM_I2C_ADDR 0 b d)))"

lemma eeprom_open_works:
  assumes "susi_works (fst s)" obtains s' where "eeprom_open s = (0, s')" "fst s' = fst s"
proof -
  obtain S d where s: "s = (S, d)" by (cases s)
  obtain d1 where 1: "SusiDllInit S d = (True, d1)"
    using assms by (cases "SusiDllInit S d") (auto simp: susi_works_def s dest: spec [of _ d])
  obtain r d2 where 2: "SusiSMBusAvailable S d1 = (r, d2)" "r \<noteq> 0"
    using assms by (cases "SusiSMBusAvailable S d1") (auto simp: susi_works_def s dest: spec [of _ d1])
  show thesis by (rule that [of "(S, d2)"]) (simp_all add: eeprom_open_def s 1 2)
qed

lemma eeprom_close_fst [simp]: "fst (snd (eeprom_close s)) = fst s"
  by (cases s) (simp add: eeprom_close_def split: prod.split)

lemma ReadOptionBuffer_works:
  assumes "susi_ok s" "susi_works (fst s)" "0 \<le> start" "0 < len" "start + len \<le> 255"
    "nat len \<le> length buf"
  shows "\<exists>buf' s'. ReadOptionBuffer buf start len s = Some (0, buf', s') \<and> fst s' = fst s \<and>
     length buf' = length buf"
proof -
  obtain s1 where o: "eeprom_open s = (0, s1)" "fst s1 = fst s"
    using eeprom_open_works [OF assms(2)] by blast
  obtain S d where s1: "s1 = (S, d)" by (cases s1)
  obtain b d' where R: "SusiSMBusReadByteMulti S EEPROM_I2C_ADDR 0 255 d = (True, b, d')"
    using assms(2) o(2) s1
    by (cases "SusiSMBusReadByteMulti S EEPROM_I2C_ADDR 0 255 d")
      (auto simp: susi_works_def dest: spec [of _ d])
  have "susi_ok s1" using eeprom_open_keeps [OF assms(1) o(1)] by simp
  then have lb: "length b = 255" using susi_length [of s1] R by (simp add: susi_image_def s1)
  have st: "0 \<le> start" "start \<le> 255" and ln: "0 \<le> len" "len \<le> 255" using assms(3-5) by auto
  note ws = u32_of_small [OF st] and wl = u32_of_small [OF ln]
  have le: "nat start + nat len \<le> 255" using assms(3-5) by linarith
  have "\<exists>buf'. eeprom_read_buf (word_of_int start) (word_of_int len) buf s1 = Some (0, buf', S, d') \<and>
      length buf' = length buf"
  proof (cases "start = 0 \<and> len = 255")
    case True
    then show ?thesis using R lb assms(6) by (simp add: eeprom_read_buf_def s1 cmem)
  next
    case False
    then show ?thesis
      using R lb assms(6) le ws wl by (auto simp: eeprom_read_buf_def s1 cmem Let_def)
  qed
  then obtain buf' where
    "eeprom_read_buf (word_of_int start) (word_of_int len) buf s1 = Some (0, buf', S, d')"
    "length buf' = length buf" by blast
  then have "ReadOptionBuffer buf start len s = Some (0, buf', snd (eeprom_close (S, d')))"
    using o s1 assms(3-5) by (auto simp: ReadOptionBuffer_def E2PROM_OPTION_SIZE_def Let_def)
  then show ?thesis using \<open>length buf' = length buf\<close> o(2) s1 by (metis eeprom_close_fst fst_conv)
qed

lemma WriteOptionBuffer_works:
  assumes "susi_ok s" "susi_works (fst s)" "0 \<le> start" "0 < len" "start + len \<le> 255"
    "nat len \<le> length buf"
  shows "\<exists>s'. WriteOptionBuffer buf start len s = Some (0, s') \<and> fst s' = fst s"
proof -
  obtain s1 where o: "eeprom_open s = (0, s1)" "fst s1 = fst s"
    using eeprom_open_works [OF assms(2)] by blast
  obtain S d where s1: "s1 = (S, d)" by (cases s1)
  obtain b d' where R: "SusiSMBusReadByteMulti S EEPROM_I2C_ADDR 0 255 d = (True, b, d')"
    using assms(2) o(2) s1
    by (cases "SusiSMBusReadByteMulti S EEPROM_I2C_ADDR 0 255 d")
      (auto simp: susi_works_def dest: spec [of _ d])
  have "susi_ok s1" using eeprom_open_keeps [OF assms(1) o(1)] by simp
  then have lb: "length b = 255" using susi_length [of s1] R by (simp add: susi_image_def s1)
  have W: "\<exists>d2. SusiSMBusWriteByteMulti S EEPROM_I2C_ADDR 0 c d1 = (True, d2)" for c d1
  proof -
    have "fst (SusiSMBusWriteByteMulti S EEPROM_I2C_ADDR 0 c d1)"
      using assms(2) o(2) s1 by (simp add: susi_works_def)
    then show ?thesis by (cases "SusiSMBusWriteByteMulti S EEPROM_I2C_ADDR 0 c d1") auto
  qed
  have st: "0 \<le> start" "start \<le> 255" and ln: "0 \<le> len" "len \<le> 255" using assms(3-5) by auto
  note ws = u32_of_small [OF st] and wl = u32_of_small [OF ln]
  have le: "nat start + nat len \<le> 255" using assms(3-5) by linarith
  have "\<exists>d2. eeprom_write_buf (word_of_int start) (word_of_int len) buf s1 = Some (0, S, d2)"
  proof (cases "start = 0 \<and> len = 255")
    case True
    then show ?thesis using W [of "take 255 buf" d] assms(6) by (auto simp: eeprom_write_buf_def s1)
  next
    case False
    then show ?thesis
      using R lb assms(6) le ws wl W [of "blit b (nat start) (take (nat len) buf)" d']
      by (auto simp: eeprom_write_buf_def s1 cmem Let_def)
  qed
  then obtain d2 where
    "eeprom_write_buf (word_of_int start) (word_of_int len) buf s1 = Some (0, S, d2)" by blast
  then have "WriteOptionBuffer buf start len s = Some (0, snd (eeprom_close (S, d2)))"
    using o s1 assms(3-5) by (auto simp: WriteOptionBuffer_def E2PROM_OPTION_SIZE_def Let_def)
  then show ?thesis using o(2) s1 by (metis eeprom_close_fst fst_conv)
qed

subsection \<open>Properties\<close>

text \<open>An EEPROM in memory, to try the driver on.\<close>

definition susi_sim :: "bytes susi" where
  "susi_sim = \<lparr>SusiDllInit = (\<lambda>d. (True, d)), SusiDllUnInit = (\<lambda>d. (True, d)),
     SusiSMBusAvailable = (\<lambda>d. (1, d)),
     SusiSMBusReadByte = (\<lambda>_ a d. (True, d ! unat a, d)),
     SusiSMBusWriteByte = (\<lambda>_ a b d. (True, d[unat a := b])),
     SusiSMBusReadByteMulti = (\<lambda>_ a n d. (True, take n (drop (unat a) d @ replicate n 0), d)),
     SusiSMBusWriteByteMulti = (\<lambda>_ a b d. (True, blit d (unat a) b))\<rparr>"

lemma susi_sim_works: "susi_works susi_sim"
  by (simp add: susi_works_def susi_sim_def)

lemma susi_sim_ok: "susi_ok (susi_sim, d)"
  by (auto simp: susi_ok_def susi_laws_def susi_image_def susi_sim_def blit_def)

text \<open>
  On a working EEPROM, writing a serial number and reading it gives the fourteen bytes that
  were written; the MAC address read after that is the one that was there before.
\<close>

lemma serial_number_roundtrip:
  assumes "susi_ok s" "susi_works (fst s)" "14 \<le> length sn" "14 \<le> length buf" "6 \<le> length mbuf"
  shows "\<exists>s1 buf' s2 mbuf' s3.
     WriteSerialNumber sn s = Some (0, s1) \<and>
     ReadSerialNumber (Some buf) s1 = Some (0, Some buf', s2) \<and> take 14 buf' = take 14 sn \<and>
     ReadMAC (Some mbuf) s2 = Some (0, Some mbuf', s3) \<and> take 6 mbuf' = take 6 (susi_image s)"
proof -
  obtain s1 where w: "WriteOptionBuffer sn 16 14 s = Some (0, s1)" "fst s1 = fst s"
    using WriteOptionBuffer_works [OF assms(1,2), of 16 14 sn] assms(3) by auto
  have s1: "susi_ok s1" using eeprom.wr_bytes [OF assms(1) w(1)] assms(3) by simp
  let ?buf = "blit buf 0 (replicate 14 0)"
  obtain buf' s2 where r: "ReadOptionBuffer ?buf 16 14 s1 = Some (0, buf', s2)" "fst s2 = fst s1"
    using ReadOptionBuffer_works [OF s1, of 16 14 ?buf] w(2) assms(2,4) by auto
  have s2: "susi_ok s2" "susi_image s2 = susi_image s1"
    using eeprom.rd_bytes [OF s1 r(1)] by auto
  let ?mbuf = "blit mbuf 0 (replicate 6 0)"
  obtain mbuf' s3 where m: "ReadOptionBuffer ?mbuf 0 6 s2 = Some (0, mbuf', s3)"
    using ReadOptionBuffer_works [OF s2(1), of 0 6 ?mbuf] w(2) r(2) assms(2,5) by auto
  have "take 14 buf' = take 14 sn"
    using eeprom.read_back [OF assms(1) w(1) r(1)] assms(3) by simp
  moreover have "take 6 mbuf' = take 6 (susi_image s2)"
    using eeprom.rd_bytes [OF s2(1) m] by simp
  moreover have "take 6 (susi_image s1) = take 6 (susi_image s)"
    using eeprom.wr_bytes [OF assms(1) w(1)] assms(3) susi_length [OF assms(1)]
    by (simp add: take_blit_before)
  moreover have "WriteSerialNumber sn s = Some (0, s1)"
    using w(1) by (simp add: WriteSerialNumber_def)
  moreover have "ReadSerialNumber (Some buf) s1 = Some (0, Some buf', s2)"
    using r(1) assms(4) by (simp add: ReadSerialNumber_def cmem)
  moreover have "ReadMAC (Some mbuf) s2 = Some (0, Some mbuf', s3)"
    using m assms(5) by (simp add: ReadMAC_def cmem)
  ultimately show ?thesis using s2(2) by metis
qed

text \<open>
  Neither function compares the range with the 255 bytes of the EEPROM: on a working device,
  a length of at most 256 and a start that together go beyond it make the driver read outside
  its local copy.
\<close>

lemma eeprom_range_unchecked:
  assumes "susi_ok s" "susi_works (fst s)" "0 < start" "start \<le> 255" "0 < len" "len \<le> 255"
    "255 < start + len"
  shows "ReadOptionBuffer buf start len s = None \<and> WriteOptionBuffer buf start len s = None"
proof -
  obtain s1 where o: "eeprom_open s = (0, s1)" "fst s1 = fst s"
    using eeprom_open_works [OF assms(2)] by blast
  obtain S d where s1: "s1 = (S, d)" by (cases s1)
  obtain b d' where R: "SusiSMBusReadByteMulti S EEPROM_I2C_ADDR 0 255 d = (True, b, d')"
    using assms(2) o(2) s1
    by (cases "SusiSMBusReadByteMulti S EEPROM_I2C_ADDR 0 255 d")
      (auto simp: susi_works_def dest: spec [of _ d])
  have "susi_ok s1" using eeprom_open_keeps [OF assms(1) o(1)] by simp
  then have lb: "length b = 255" using susi_length [of s1] R by (simp add: susi_image_def s1)
  note ws = u32_of_small [of start] and wl = u32_of_small [of len]
  have le: "255 < nat start + nat len" using assms(3,5,7) by linarith
  have "eeprom_read_buf (word_of_int start) (word_of_int len) buf s1 = None"
    "eeprom_write_buf (word_of_int start) (word_of_int len) buf s1 = None"
    using R lb le ws wl assms(3-6) by (auto simp: eeprom_read_buf_def eeprom_write_buf_def s1 memcpy_def Let_def)
  then show ?thesis
    using o assms(5,6) by (auto simp: ReadOptionBuffer_def WriteOptionBuffer_def E2PROM_OPTION_SIZE_def)
qed

end
