(* ===== verification/BoardRes.thy ===== *)
theory BoardRes
  imports Prelude
begin

text \<open>
  The modules of the instrument and where the kernel shows them
  (\<^verbatim>\<open>v400_boardres_*\<close> and \<^verbatim>\<open>GetBoardresType\<close> of \<^verbatim>\<open>common/VControlServer.cpp\<close>): the slot
  of a module fixes its place on the USB tree; its serial number and its network interface
  are found below that place in \<^verbatim>\<open>/sys\<close>. The file system is the record \<open>os\<close>.
\<close>

definition V400PANEL_BOARDNUM :: int where "V400PANEL_BOARDNUM = 6"

record os =
  os_access :: "string \<Rightarrow> bool"                 \<comment> \<open>\<^verbatim>\<open>access(p, F_OK) == 0\<close>\<close>
  os_read :: "string \<Rightarrow> bytes option"           \<comment> \<open>\<^verbatim>\<open>open\<close> and \<^verbatim>\<open>read\<close> of a whole file\<close>
  os_opendir :: "string \<Rightarrow> string list option"
  os_isdir :: "string \<Rightarrow> bool"                  \<comment> \<open>\<^verbatim>\<open>stat\<close> and \<^verbatim>\<open>S_ISDIR\<close>\<close>

subsection \<open>Slots\<close>

definition v400_boardres_ind2usbpath :: "int \<Rightarrow> int \<times> int \<times> int \<times> int" where
  "v400_boardres_ind2usbpath board_index =
     (if board_index = 0 then (0, 1, 1, 2)
      else if board_index = 1 then (0, 1, 5, -1)
      else if board_index = 2 then (0, 1, 1, 3)
      else if board_index = 3 then (0, 1, 3, -1)
      else if board_index = 4 then (0, 1, 1, 4)
      else if board_index = 5 then (0, 1, 1, 1)
      else (-1, -1, -1, -1))"

definition usb_dir :: "int \<Rightarrow> int \<Rightarrow> int \<Rightarrow> string" where
  "usb_dir bus port sub =
     (if sub < 0 then dec bus @ ''-'' @ dec port
      else dec bus @ ''-'' @ dec port @ ''.'' @ dec sub)"

subsection \<open>Serial numbers\<close>

definition isalnum :: "byte \<Rightarrow> bool" where
  "isalnum b \<longleftrightarrow> 48 \<le> b \<and> b \<le> 57 \<or> 65 \<le> b \<and> b \<le> 90 \<or> 97 \<le> b \<and> b \<le> 122"

text \<open>The loop that cuts \<^verbatim>\<open>szBoardSN\<close> at the first character that is not a letter or a digit.\<close>

function regulate :: "bytes \<Rightarrow> nat \<Rightarrow> bytes option" where
  "regulate sn i =
     (if i < length sn then
        (if isalnum (sn ! i) then regulate sn (i + 1)
         else memset sn i 0 (length sn - i))
      else Some sn)"
  by auto
termination by (relation "measure (\<lambda>(sn, i). length sn - i)") auto

declare regulate.simps [simp del]

definition v400_boardres_ind2sn :: "os \<Rightarrow> int \<Rightarrow> bytes \<Rightarrow> (int \<times> bytes) option" where
  "v400_boardres_ind2sn os board_index sn = do {
     sn \<leftarrow> store sn 0 0;
     let ret_val = (if board_index < 0 \<or> V400PANEL_BOARDNUM < board_index then 11 else 0);
     (if ret_val \<noteq> 0 then Some (ret_val, sn)
      else case v400_boardres_ind2usbpath board_index of (r, iUSBBus, iTopPort, iSubPort) \<Rightarrow>
        let ret_val = (if r \<noteq> 0 then 21 else ret_val) in
        if ret_val \<noteq> 0 then Some (ret_val, sn)
        else do {
          szUSBPath \<leftarrow> sprintf 256 (''/sys/bus/usb/devices/'' @ usb_dir iUSBBus iTopPort iSubPort);
          (if \<not> os_access os szUSBPath \<and> ret_val \<noteq> 0 then Some (ret_val, sn)
           else do {
             szTemp \<leftarrow> sprintf 256 (szUSBPath @ ''/serial'');
             let szBoardSN = replicate 32 0;
             szBoardSN \<leftarrow> (case os_read os szTemp of
                              None \<Rightarrow> Some szBoardSN
                            | Some content \<Rightarrow>
                                memcpy szBoardSN 0 content 0 (min 16 (length content)));
             szBoardSN \<leftarrow> regulate szBoardSN 0;
             sn \<leftarrow> memcpy sn 0 szBoardSN 0 16;
             sn \<leftarrow> store sn 16 0;
             Some (if ret_val = 0 then 0 else -1, sn)
           })
        })
   }"

subsection \<open>Types of modules\<close>

datatype eV400_board_type =
    eV400_board_unknown | eV400_board_40g | eV400_board_40ge | eV400_board_10g
  | eV400_board_2g5 | eV400_board_1ge | eV400_board_100ge | eV400_board_16g

fun board_code :: "eV400_board_type \<Rightarrow> int" where
  "board_code eV400_board_unknown = 0"
| "board_code eV400_board_40g = 1"
| "board_code eV400_board_40ge = 2"
| "board_code eV400_board_10g = 3"
| "board_code eV400_board_2g5 = 4"
| "board_code eV400_board_1ge = 5"
| "board_code eV400_board_100ge = 6"
| "board_code eV400_board_16g = 7"

definition v400_boardres_sn2type :: "bytes option \<Rightarrow> int option" where
  "v400_boardres_sn2type sn =
     (case sn of
        None \<Rightarrow> Some (board_code eV400_board_unknown)
      | Some s \<Rightarrow> do {
          ux \<leftarrow> memcmp0 s (str ''BVUX'') 4;
          um \<leftarrow> memcmp0 s (str ''BVUM'') 4;
          up \<leftarrow> memcmp0 s (str ''BVUP'') 4;
          uk \<leftarrow> memcmp0 s (str ''BVUK'') 4;
          uj \<leftarrow> memcmp0 s (str ''BVUJ'') 4;
          ul \<leftarrow> memcmp0 s (str ''BVUL'') 4;
          uh \<leftarrow> memcmp0 s (str ''BVUH'') 4;
          Some (board_code
            (if ux then eV400_board_40g
             else if um then eV400_board_40ge
             else if up then eV400_board_16g
             else if uk then eV400_board_10g
             else if uj then eV400_board_2g5
             else if ul then eV400_board_1ge
             else if uh then eV400_board_100ge
             else eV400_board_unknown))
        })"

definition GetBoardresType :: "os \<Rightarrow> int \<Rightarrow> int option" where
  "GetBoardresType os index = do {
     (r, sn) \<leftarrow> v400_boardres_ind2sn os index (replicate 256 0);
     (if r = 0 then v400_boardres_sn2type (Some sn) else Some 0)
   }"

subsection \<open>Network interfaces\<close>

text \<open>The directory entries in order, until one names an interface.\<close>

fun find_netif :: "os \<Rightarrow> string \<Rightarrow> string list \<Rightarrow> string option" where
  "find_netif os path [] = Some []"
| "find_netif os path (d_name # ents) =
     (if d_name = [] \<or> hd d_name = CHR ''.'' then find_netif os path ents
      else do {
        szTemp \<leftarrow> sprintf 256 (path @ ''/'' @ d_name);
        (if \<not> os_isdir os szTemp then find_netif os path ents
         else do {
           szTemp \<leftarrow> sprintf 256 (''/sys/class/net/'' @ d_name);
           (if \<not> os_access os szTemp then find_netif os path ents
            else Some (take 63 d_name))
         })
      })"

definition net_path :: "int \<Rightarrow> int \<Rightarrow> int \<Rightarrow> nat \<Rightarrow> string" where
  "net_path bus port sub intf =
     ''/sys/bus/usb/devices/'' @ usb_dir bus port sub @ ''/'' @ usb_dir bus port sub @
     '':1.'' @ dec (int intf) @ ''/net''"

text \<open>
  The result: the code, the name and the number of directory streams left open. The global
  \<^verbatim>\<open>g_szArg_netif\<close> that the callers pass is the returned name.
\<close>

definition v400_boardres_ind2netif :: "os \<Rightarrow> int \<Rightarrow> (int \<times> string \<times> nat) option" where
  "v400_boardres_ind2netif os board_index =
     (case v400_boardres_ind2usbpath board_index of (r, iUSBBus, iTopPort, iSubPort) \<Rightarrow>
        if r \<noteq> 0 then Some (6, [], 0)
        else do {
          p0 \<leftarrow> sprintf 256 (net_path iUSBBus iTopPort iSubPort 0);
          p1 \<leftarrow> sprintf 256 (net_path iUSBBus iTopPort iSubPort 1);
          (if \<not> os_access os p0 \<and> \<not> os_access os p1 then Some (7, [], 0)
           else do {
             let szNetifPath = (if os_access os p0 then p0 else p1);
             (case os_opendir os szNetifPath of
                None \<Rightarrow> Some (8, [], 0)
              | Some ents \<Rightarrow> do {
                  szNetifName \<leftarrow> find_netif os szNetifPath ents;
                  (if szNetifName = [] then Some (9, [], 1) else Some (0, szNetifName, 0))
                })
           })
        })"

subsection \<open>Lemmas\<close>

lemma regulate_takeWhile:
  "i \<le> length sn \<Longrightarrow> regulate sn i =
     Some (take i sn @ takeWhile isalnum (drop i sn) @
           replicate (length (dropWhile isalnum (drop i sn))) 0)"
proof (induction sn i rule: regulate.induct)
  case (1 sn i)
  show ?case
  proof (cases "i < length sn")
    case True
    then have d: "drop i sn = sn ! i # drop (Suc i) sn" by (simp add: Cons_nth_drop_Suc)
    show ?thesis
    proof (cases "isalnum (sn ! i)")
      case True
      have "regulate sn i = regulate sn (i + 1)"
        using True \<open>i < length sn\<close> by (subst regulate.simps) simp
      also have "\<dots> = Some (take (i + 1) sn @ takeWhile isalnum (drop (i + 1) sn) @
           replicate (length (dropWhile isalnum (drop (i + 1) sn))) 0)"
        using 1 True \<open>i < length sn\<close> by simp
      finally show ?thesis using True \<open>i < length sn\<close> d by (simp add: take_Suc_conv_app_nth)
    next
      case False
      have "replicate (length sn - i) (0 :: byte) = 0 # replicate (length sn - Suc i) 0"
        using \<open>i < length sn\<close> by (simp flip: replicate_Suc add: Suc_diff_Suc)
      then show ?thesis
        using False \<open>i < length sn\<close> d by (subst regulate.simps) (simp add: memset_def blit_def)
    qed
  next
    case False
    then show ?thesis using 1 by (subst regulate.simps) simp
  qed
qed

text \<open>The serial number in the content of the file: its leading letters and digits, 16 at most.\<close>

definition serial_of :: "bytes \<Rightarrow> bytes" where
  "serial_of content = takeWhile isalnum (take 16 content)"

lemma serial_of_props:
  "length (serial_of c) \<le> 16" "\<forall>b \<in> set (serial_of c). isalnum b"
  using length_takeWhile_le [of isalnum "take 16 c"]
  by (auto simp: serial_of_def dest: set_takeWhileD)

lemma isalnum_0 [simp]: "\<not> isalnum 0"
  by (simp add: isalnum_def)

lemma takeWhile_zeros: "takeWhile isalnum (xs @ replicate n 0) = takeWhile isalnum xs"
proof (induction xs)
  case Nil
  then show ?case by (cases n) simp_all
qed simp

lemma regulate_serial:
  assumes "memcpy (replicate 32 0) 0 c 0 (min 16 (length c)) = Some b"
  shows "regulate b 0 = Some (serial_of c @ replicate (32 - length (serial_of c)) 0)"
proof -
  have b: "b = take 16 c @ replicate (32 - length (take 16 c)) 0"
    using assms by (auto simp: memcpy_def blit_def min_def split: if_splits)
  have t: "takeWhile isalnum b = serial_of c"
    unfolding b takeWhile_zeros serial_of_def ..
  have l: "length b = 32" using b by (simp add: min_def)
  have "length (dropWhile isalnum b) = 32 - length (serial_of c)"
    using arg_cong [OF takeWhile_dropWhile_id [of isalnum b], of length] l t by simp
  then show ?thesis
    using regulate_takeWhile [of 0 b] t by simp
qed

text \<open>The file the serial number of a slot is read from.\<close>

definition serial_path :: "int \<Rightarrow> string" where
  "serial_path i = (case v400_boardres_ind2usbpath i of (_, bus, port, sub) \<Rightarrow>
     ''/sys/bus/usb/devices/'' @ usb_dir bus port sub @ ''/serial'')"

definition slot_serial :: "os \<Rightarrow> int \<Rightarrow> bytes" where
  "slot_serial os i = (case os_read os (serial_path i) of None \<Rightarrow> [] | Some c \<Rightarrow> serial_of c)"

lemma slot_cases:
  assumes "0 \<le> i" "i < 6"
  obtains "i = 0" | "i = 1" | "i = 2" | "i = 3" | "i = 4" | "i = (5 :: int)"
  using assms by linarith

lemma length_dec_digit:
  assumes "0 \<le> i" "i < 10" shows "length (dec i) = 1"
proof -
  have "digits (nat i) = [char_of (48 + nat i)]"
    using assms by (subst digits.simps) (simp add: nat_less_iff)
  then show ?thesis using assms by (simp add: dec_def)
qed

lemma usb_path_bound:
  assumes "v400_boardres_ind2usbpath i = (0, bus, port, sub)"
  shows "length (usb_dir bus port sub) \<le> 5"
proof -
  have "bus = 1" "0 < port" "port < 6" "sub < 6"
    using assms by (auto simp: v400_boardres_ind2usbpath_def split: if_splits)
  then show ?thesis by (simp add: usb_dir_def length_dec_digit)
qed

lemma usb_path_ok: "0 \<le> i \<Longrightarrow> i < 6 \<Longrightarrow> fst (v400_boardres_ind2usbpath i) = 0"
  by (erule (1) slot_cases) (simp_all add: v400_boardres_ind2usbpath_def)

lemma usb_path_bad: "i < 0 \<or> 6 \<le> i \<Longrightarrow> v400_boardres_ind2usbpath i = (-1, -1, -1, -1)"
  by (auto simp: v400_boardres_ind2usbpath_def)

lemma serial_loop:
  "Option.bind (case content of None \<Rightarrow> Some (replicate 32 0)
     | Some c \<Rightarrow> memcpy (replicate 32 0) 0 c 0 (min 16 (length c))) (\<lambda>b. regulate b 0) =
   Some (let s = (case content of None \<Rightarrow> [] | Some c \<Rightarrow> serial_of c) in
         s @ replicate (32 - length s) 0)"
proof (cases content)
  case None
  have "memcpy (replicate 32 0) 0 [] 0 (min 16 (length ([] :: bytes))) = Some (replicate 32 0)"
    by (simp add: memcpy_def)
  then show ?thesis using None regulate_serial [of "[]"] by (simp add: serial_of_def)
next
  case (Some c)
  obtain b where "memcpy (replicate 32 0) 0 c 0 (min 16 (length c)) = Some b"
    using memcpy_Some [of 0 "min 16 (length c)" "replicate 32 0" 0 c] by auto
  then show ?thesis using Some regulate_serial [of c b] by (simp add: Let_def)
qed

lemma ind2sn_slot:
  assumes "0 \<le> i" "i < 6" "17 \<le> length sn"
  shows "\<exists>rest. v400_boardres_ind2sn os i sn =
    Some (0, slot_serial os i @ replicate (17 - length (slot_serial os i)) 0 @ rest) \<and>
    length rest = length sn - 17"
proof -
  obtain bus port sub where u: "v400_boardres_ind2usbpath i = (0, bus, port, sub)"
    using usb_path_ok [OF assms(1,2)] by (cases "v400_boardres_ind2usbpath i") auto
  note b = usb_path_bound [OF u]
  let ?dir = "''/sys/bus/usb/devices/'' @ usb_dir bus port sub"
  have sp: "serial_path i = ?dir @ ''/serial''" by (simp add: serial_path_def u)
  have p1: "sprintf 256 ?dir = Some ?dir" "sprintf 256 (?dir @ ''/serial'') = Some (serial_path i)"
    using b by (simp_all add: sprintf_def sp)
  define s where "s = slot_serial os i"
  have ls: "length s \<le> 16"
    using serial_of_props(1) by (simp add: s_def slot_serial_def split: option.split)
  define sn0 where "sn0 = sn[0 := 0]"
  have l0: "length sn0 = length sn" by (simp add: sn0_def)
  have st0: "store sn 0 0 = Some sn0" using assms(3) by (auto simp: store_def sn0_def)
  let ?b = "s @ replicate (32 - length s) 0"
  have t16: "take 16 ?b = s @ replicate (16 - length s) 0"
    using ls by (simp add: min_def)
  have cp: "memcpy sn0 0 ?b 0 16 = Some ((s @ replicate (16 - length s) 0) @ drop 16 sn0)"
    using assms(3) l0 ls by (simp add: memcpy_def blit_def t16 min_def)
  define r where "r = (s @ replicate (16 - length s) 0) @ drop 16 sn0"
  have d16: "drop 16 sn0 = sn0 ! 16 # drop 17 sn0"
    using assms(3) l0 Cons_nth_drop_Suc [of 16 sn0] by simp
  have lp: "length (s @ replicate (16 - length s) 0) = 16" using ls by simp
  have st: "store r 16 0 = Some (s @ replicate (17 - length s) 0 @ drop 17 sn0)"
  proof -
    have "r[16 := 0] = (s @ replicate (16 - length s) 0) @ 0 # drop 17 sn0"
      using lp by (simp add: r_def d16 list_update_append)
    moreover have "replicate (17 - length s) (0 :: byte) = replicate (16 - length s) 0 @ [0]"
      using ls by (simp add: Suc_diff_le numeral_eq_Suc flip: replicate_append_same)
    ultimately have "r[16 := 0] = s @ replicate (17 - length s) 0 @ drop 17 sn0" by simp
    then show ?thesis
      using assms(3) l0 lp by (simp add: store_def r_def)
  qed
  have loop: "Option.bind (case os_read os (serial_path i) of None \<Rightarrow> Some (replicate 32 0)
     | Some c \<Rightarrow> memcpy (replicate 32 0) 0 c 0 (min 16 (length c))) (\<lambda>b. regulate b 0) = Some ?b"
    using serial_loop [of "os_read os (serial_path i)"] by (simp add: s_def slot_serial_def Let_def)
  then obtain b0 where b0: "(case os_read os (serial_path i) of None \<Rightarrow> Some (replicate 32 0)
     | Some c \<Rightarrow> memcpy (replicate 32 0) 0 c 0 (min 16 (length c))) = Some b0" "regulate b0 0 = Some ?b"
    by (cases "case os_read os (serial_path i) of None \<Rightarrow> Some (replicate 32 0)
     | Some c \<Rightarrow> memcpy (replicate 32 0) 0 c 0 (min 16 (length c))") auto
  have "v400_boardres_ind2sn os i sn = Some (0, s @ replicate (17 - length s) 0 @ drop 17 sn0)"
    using assms p1 cp [folded r_def] st b0 st0
    by (simp add: v400_boardres_ind2sn_def u Let_def V400PANEL_BOARDNUM_def)
  then show ?thesis using l0 by (simp add: s_def)
qed

lemma ind2sn_no_slot:
  assumes "sn \<noteq> []" "\<not> (0 \<le> i \<and> i < 6)"
  shows "v400_boardres_ind2sn os i sn = Some (if i = 6 then 21 else 11, sn[0 := 0])"
proof -
  have "v400_boardres_ind2usbpath i = (-1, -1, -1, -1)" using assms by (intro usb_path_bad) auto
  then show ?thesis
    using assms by (auto simp: v400_boardres_ind2sn_def store_def V400PANEL_BOARDNUM_def)
qed

lemma cstr_slot_serial:
  "cstr (slot_serial os i @ replicate (17 - length (slot_serial os i)) 0 @ rest) = slot_serial os i"
proof -
  have a: "\<forall>b \<in> set (slot_serial os i). isalnum b" and l: "length (slot_serial os i) \<le> 16"
    using serial_of_props by (auto simp: slot_serial_def split: option.splits)
  have "replicate (17 - length (slot_serial os i)) (0 :: byte) =
      0 # replicate (16 - length (slot_serial os i)) 0"
    using l by (simp add: Suc_diff_le numeral_eq_Suc)
  moreover have "0 \<notin> set (slot_serial os i)" using a isalnum_0 by auto
  ultimately show ?thesis by (simp add: cstr_append_nul)
qed

lemma ind2sn_zero:
  assumes "v400_boardres_ind2sn os i sn = Some (0, sn')" "17 \<le> length sn"
  shows "0 \<le> i \<and> i < 6 \<and> cstr sn' = slot_serial os i"
proof (cases "0 \<le> i \<and> i < 6")
  case True
  then show ?thesis
    using ind2sn_slot [of i sn os] assms cstr_slot_serial by (metis Pair_inject option.inject)
next
  case False
  moreover have "sn \<noteq> []" using assms(2) by auto
  ultimately show ?thesis using ind2sn_no_slot [of sn i os] assms(1) by (auto split: if_splits)
qed

subsection \<open>Properties\<close>



text \<open>
  The six slots have six different places on the USB tree, so no two of them read the same
  serial file.
\<close>

lemma slots_distinct: "distinct (map serial_path [0, 1, 2, 3, 4, 5])"
  by (simp add: serial_path_def v400_boardres_ind2usbpath_def usb_dir_def dec_def digits.simps)

lemma find_netif_result:
  "find_netif os path ents = Some n \<Longrightarrow> n = [] \<or>
     (\<exists>e \<in> set ents. n = take 63 e \<and> e \<noteq> [] \<and> hd e \<noteq> CHR ''.'' \<and>
        os_isdir os (path @ ''/'' @ e) \<and> os_access os (''/sys/class/net/'' @ e))"
proof (induction ents)
  case (Cons e ents)
  then show ?case
    by (auto simp: sprintf_def split: if_splits bind_splits)
qed simp

lemma netif_short: "v400_boardres_ind2netif os i = Some (r, n, open_dirs) \<Longrightarrow> length n \<le> 63"
  by (auto simp: v400_boardres_ind2netif_def Let_def split: if_splits option.splits bind_splits prod.splits
      dest!: find_netif_result)

text \<open>
  \<^verbatim>\<open>v400_boardres_ind2netif\<close> returns one of 0, 6, 7, 8 and 9 and never the -1 its comment
  lists; with 0 the name is that of a directory below the slot's own \<^verbatim>\<open>net\<close> that is a network
  interface, cut to 63 characters; and a directory stream stays open exactly with 9.
\<close>

lemma ind2netif_result:
  assumes "v400_boardres_ind2netif os i = Some (r, n, open_dirs)"
  shows "r \<in> {0, 6, 7, 8, 9} \<and> (r = 6 \<longleftrightarrow> i < 0 \<or> 6 \<le> i) \<and> (open_dirs = 1 \<longleftrightarrow> r = 9) \<and>
     (r \<noteq> 0 \<longrightarrow> n = []) \<and>
     (r = 0 \<longrightarrow> n \<noteq> [] \<and> length n \<le> 63 \<and>
       (\<exists>e. n = take 63 e \<and> os_access os (''/sys/class/net/'' @ e)))"
proof (cases "0 \<le> i \<and> i < 6")
  case True
  then obtain bus port sub where u: "v400_boardres_ind2usbpath i = (0, bus, port, sub)"
    using usb_path_ok [of i] by (cases "v400_boardres_ind2usbpath i") auto
  show ?thesis
    using assms True
    by (auto simp: v400_boardres_ind2netif_def u Let_def split: if_splits option.splits bind_splits
        dest!: find_netif_result)
next
  case False
  then have "v400_boardres_ind2usbpath i = (-1, -1, -1, -1)" by (intro usb_path_bad) auto
  then show ?thesis using assms False by (auto simp: v400_boardres_ind2netif_def)
qed

lemma type_letter:
  assumes "length s \<le> 16" "\<forall>b \<in> set s. isalnum b" "l \<noteq> 0"
  shows "take 4 (s @ replicate (17 - length s) 0 @ rest) = str ''BVU'' @ [l] \<longleftrightarrow>
     4 \<le> length s \<and> take 3 s = str ''BVU'' \<and> s ! 3 = l"
proof (cases "4 \<le> length s")
  case True
  then have "take 4 s = take 3 s @ [s ! 3]"
    by (metis Suc_le_eq eval_nat_numeral(2) eval_nat_numeral(3) semiring_norm(26,27) take_Suc_conv_app_nth)
  moreover have "length (take 3 s) = length (str ''BVU'')" using True by simp
  ultimately show ?thesis using True by auto
next
  case False
  let ?t = "take 4 (s @ replicate (17 - length s) 0 @ rest)"
  have "?t ! length s = 0" "length s < 4"
    using False by (simp_all add: nth_append)
  moreover have "(str ''BVU'' @ [l]) ! k \<noteq> 0" if "k < 4" for k
  proof -
    consider "k = 0" | "k = 1" | "k = 2" | "k = 3" using \<open>k < 4\<close> by linarith
    then show ?thesis using assms(3) by cases (simp_all add: str_def)
  qed
  ultimately show ?thesis using False by metis
qed

definition type_of_letter :: "byte \<Rightarrow> eV400_board_type" where
  "type_of_letter b =
     (if b = 88 then eV400_board_40g else if b = 77 then eV400_board_40ge
      else if b = 80 then eV400_board_16g else if b = 75 then eV400_board_10g
      else if b = 74 then eV400_board_2g5 else if b = 76 then eV400_board_1ge
      else if b = 72 then eV400_board_100ge else eV400_board_unknown)"

text \<open>
  The type of a module is decided by the first four characters of its serial number: \<^verbatim>\<open>BVU\<close>
  and one letter of seven; any other or no serial number is unknown.
\<close>

lemma GetBoardresType_by_serial:
  "GetBoardresType os i = Some (board_code
     (if 0 \<le> i \<and> i < 6 \<and> 4 \<le> length (slot_serial os i) \<and> take 3 (slot_serial os i) = str ''BVU''
      then type_of_letter (slot_serial os i ! 3) else eV400_board_unknown))"
proof (cases "0 \<le> i \<and> i < 6")
  case True
  define s where "s = slot_serial os i"
  obtain rest where r: "v400_boardres_ind2sn os i (replicate 256 0) =
      Some (0, s @ replicate (17 - length s) 0 @ rest)" "length rest = 256 - 17"
    using ind2sn_slot [of i "replicate 256 0" os] True by (auto simp: s_def)
  have s: "length s \<le> 16" "\<forall>b \<in> set s. isalnum b"
    using serial_of_props by (auto simp: s_def slot_serial_def split: option.splits)
  let ?sn = "s @ replicate (17 - length s) 0 @ rest"
  have l: "4 \<le> length ?sn" using r(2) s(1) by simp
  have cmp: "memcmp0 ?sn (str (''BVU'' @ [c])) 4 =
      Some (4 \<le> length s \<and> take 3 s = str ''BVU'' \<and> s ! 3 = of_char c)"
    if "of_char c \<noteq> (0 :: byte)" for c
    using type_letter [of s "of_char c" rest] s l that by (simp add: memcmp0_def str_def)
  have "v400_boardres_sn2type (Some ?sn) = Some (board_code
     (if 4 \<le> length s \<and> take 3 s = str ''BVU'' then type_of_letter (s ! 3) else eV400_board_unknown))"
    using cmp [of "CHR ''X''"] cmp [of "CHR ''M''"] cmp [of "CHR ''P''"] cmp [of "CHR ''K''"]
      cmp [of "CHR ''J''"] cmp [of "CHR ''L''"] cmp [of "CHR ''H''"]
    by (simp add: v400_boardres_sn2type_def type_of_letter_def)
  then show ?thesis using True r by (simp add: GetBoardresType_def s_def)
next
  case False
  have "replicate 256 (0 :: byte) \<noteq> []" by simp
  from ind2sn_no_slot [OF this False, of os] show ?thesis
    using False by (auto simp: GetBoardresType_def)
qed

end
