(* ===== verification/Ftdi.thy ===== *)
theory Ftdi
  imports OptionStore BoardRes
begin

text \<open>
  The options area in the EEPROM of a module's FTDI chip (\<^verbatim>\<open>ft2232_checksum\<close>,
  \<^verbatim>\<open>read_options\<close>, \<^verbatim>\<open>write_options\<close>, \<^verbatim>\<open>sys_init\<close> and the \<^verbatim>\<open>_40g\<close> functions of
  \<^verbatim>\<open>common/VControlServer.cpp\<close>): 14 bytes at 0x70 of 128, the last two of which are a checksum
  of the rest. libftdi is not part of the repository: it is the record \<open>ftdi\<close> of its calls on a
  bus state of any type; the two last fields are observers for the statement of its laws.
\<close>

definition EEPROM_SIZE :: nat where "EEPROM_SIZE = 128"
definition OPTION_OFFSET_FTDI :: nat where "OPTION_OFFSET_FTDI = 0x70"
definition OPTION_SIZE_FTDI :: nat where "OPTION_SIZE_FTDI = 14"
definition EXIT_FAILURE :: int where "EXIT_FAILURE = 1"

lemmas ftdi_sizes = EEPROM_SIZE_def OPTION_OFFSET_FTDI_def OPTION_SIZE_FTDI_def

record 'd ftdi =
  ftdi_init :: "'d \<Rightarrow> int \<times> 'd"
  ftdi_usb_open_desc :: "bytes \<Rightarrow> 'd \<Rightarrow> int \<times> 'd"
  ftdi_read_eeprom :: "'d \<Rightarrow> int \<times> bytes \<times> 'd"
  ftdi_write_eeprom :: "bytes \<Rightarrow> 'd \<Rightarrow> int \<times> 'd"
  ftdi_deinit :: "'d \<Rightarrow> 'd"
  chip :: "bytes \<Rightarrow> 'd \<Rightarrow> bytes"             \<comment> \<open>content of the chip with a serial number\<close>
  opened :: "'d \<Rightarrow> bytes option"             \<comment> \<open>serial number of the open chip\<close>

text \<open>
  The documented behaviour: a successful open selects the chip with that serial number, reads
  and writes go to the selected chip, and nothing else changes the content of a chip.
\<close>

definition ftdi_laws :: "'d ftdi \<Rightarrow> bool" where
  "ftdi_laws D \<longleftrightarrow>
     (\<forall>sn d. length (chip D sn d) = EEPROM_SIZE) \<and>
     (\<forall>sn d. chip D sn (snd (ftdi_init D d)) = chip D sn d) \<and>
     (\<forall>sn d. chip D sn (ftdi_deinit D d) = chip D sn d) \<and>
     (\<forall>sn sn' d r d'. ftdi_usb_open_desc D sn d = (r, d') \<longrightarrow>
        chip D sn' d' = chip D sn' d \<and> (0 \<le> r \<longrightarrow> opened D d' = Some sn)) \<and>
     (\<forall>d r b d'. ftdi_read_eeprom D d = (r, b, d') \<longrightarrow>
        (\<forall>sn. chip D sn d' = chip D sn d) \<and> opened D d' = opened D d \<and> length b = EEPROM_SIZE \<and>
        (\<forall>sn. 0 \<le> r \<longrightarrow> opened D d = Some sn \<longrightarrow> b = chip D sn d)) \<and>
     (\<forall>d e r d'. length e = EEPROM_SIZE \<longrightarrow> ftdi_write_eeprom D e d = (r, d') \<longrightarrow>
        opened D d' = opened D d \<and>
        (\<forall>sn. opened D d = Some sn \<longrightarrow> (0 \<le> r \<longrightarrow> chip D sn d' = e) \<and>
           (\<forall>sn'. sn' \<noteq> sn \<longrightarrow> chip D sn' d' = chip D sn' d)))"

text \<open>The library, the bus and the global array \<^verbatim>\<open>eeprom\<close>.\<close>

type_synonym 'd ftdi_state = "'d ftdi \<times> 'd \<times> bytes"

subsection \<open>The checksum\<close>

definition checksum_word :: "byte \<Rightarrow> byte \<Rightarrow> 16 word" where
  "checksum_word lo hi = ucast lo + push_bit 8 (ucast hi)"

definition checksum_step :: "16 word \<Rightarrow> 16 word \<Rightarrow> 16 word" where
  "checksum_step value checksum =
     (let checksum = value XOR checksum in push_bit 1 checksum OR drop_bit 15 checksum)"

function ft2232_loop :: "bytes \<Rightarrow> nat \<Rightarrow> nat \<Rightarrow> 16 word \<Rightarrow> 16 word option" where
  "ft2232_loop eeprom n i checksum =
     (if i < n then do {
        lo \<leftarrow> load eeprom (i * 2);
        hi \<leftarrow> load eeprom (i * 2 + 1);
        ft2232_loop eeprom n (i + 1) (checksum_step (checksum_word lo hi) checksum)
      }
      else Some checksum)"
  by auto
termination by (relation "measure (\<lambda>(_, n, i, _). n - i)") auto

declare ft2232_loop.simps [simp del]

definition ft2232_checksum :: "bytes \<Rightarrow> nat \<Rightarrow> 16 word option" where
  "ft2232_checksum eeprom n = ft2232_loop eeprom (n div 2 - 1) 0 0xAAAA"

subsection \<open>Reading and writing the options\<close>

fun copy_from :: "bytes \<Rightarrow> bytes \<Rightarrow> nat \<Rightarrow> nat \<Rightarrow> bytes option" where
  "copy_from eeprom options off 0 = Some options"
| "copy_from eeprom options off (Suc i) = do {
     options \<leftarrow> copy_from eeprom options off i;
     b \<leftarrow> load eeprom (off + i);
     store options i b
   }"

fun copy_to :: "bytes \<Rightarrow> bytes \<Rightarrow> nat \<Rightarrow> nat \<Rightarrow> bytes option" where
  "copy_to eeprom options off 0 = Some eeprom"
| "copy_to eeprom options off (Suc i) = do {
     eeprom \<leftarrow> copy_to eeprom options off i;
     b \<leftarrow> load options i;
     store eeprom (off + i) b
   }"

definition read_options :: "bytes option \<Rightarrow> 'd ftdi_state \<Rightarrow> (int \<times> bytes option \<times> 'd ftdi_state) option" where
  "read_options options = (\<lambda>(D, d, eeprom).
     case ftdi_read_eeprom D d of (ret, eeprom, d) \<Rightarrow>
       if ret < 0 then Some (EXIT_FAILURE, options, D, d, eeprom)
       else do {
         checksum \<leftarrow> ft2232_checksum eeprom EEPROM_SIZE;
         hi \<leftarrow> load eeprom (EEPROM_SIZE - 1);
         lo \<leftarrow> load eeprom (EEPROM_SIZE - 2);
         let oldchecksum = push_bit 8 (ucast hi) OR ucast lo;
         (if checksum \<noteq> oldchecksum then Some (-1, options, D, d, eeprom)
          else case options of
            None \<Rightarrow> Some (-1, None, D, d, eeprom)
          | Some o' \<Rightarrow> do {
              o' \<leftarrow> copy_from eeprom o' OPTION_OFFSET_FTDI OPTION_SIZE_FTDI;
              Some (0, Some o', D, d, eeprom)
            })
       })"

text \<open>The first checksum that \<^verbatim>\<open>write_options\<close> computes, and the old one, are not used.\<close>

definition write_options :: "bytes option \<Rightarrow> 'd ftdi_state \<Rightarrow> (int \<times> 'd ftdi_state) option" where
  "write_options options = (\<lambda>(D, d, eeprom).
     case options of
       None \<Rightarrow> Some (-1, D, d, eeprom)
     | Some o' \<Rightarrow>
         (case ftdi_read_eeprom D d of (ret, eeprom, d) \<Rightarrow>
            if ret < 0 then Some (EXIT_FAILURE, D, d, eeprom)
            else do {
              _ \<leftarrow> ft2232_checksum eeprom EEPROM_SIZE;
              eeprom \<leftarrow> copy_to eeprom o' OPTION_OFFSET_FTDI OPTION_SIZE_FTDI;
              checksum \<leftarrow> ft2232_checksum eeprom EEPROM_SIZE;
              eeprom \<leftarrow> store eeprom (EEPROM_SIZE - 2) (ucast checksum);
              eeprom \<leftarrow> store eeprom (EEPROM_SIZE - 1) (ucast (drop_bit 8 checksum));
              (case ftdi_write_eeprom D eeprom d of (ret, d) \<Rightarrow>
                 Some (if ret < 0 then EXIT_FAILURE else 0, D, d, eeprom))
            }))"

definition sys_init :: "bytes \<Rightarrow> 'd ftdi_state \<Rightarrow> int \<times> 'd ftdi_state" where
  "sys_init sn = (\<lambda>(D, d, eeprom).
     case ftdi_init D d of (ret, d) \<Rightarrow>
       if ret < 0 then (4, D, d, eeprom)
       else case ftdi_usb_open_desc D (cstr sn) d of (ret, d) \<Rightarrow>
         (if ret < 0 then 4 else 0, D, d, eeprom))"

definition deinit :: "'d ftdi_state \<Rightarrow> 'd ftdi_state" where
  "deinit = (\<lambda>(D, d, eeprom). (D, ftdi_deinit D d, eeprom))"

subsection \<open>Options of a module\<close>

text \<open>\<^verbatim>\<open>temp\<close> is uninitialised before \<^verbatim>\<open>read_options\<close> fills it; here it starts as zeros.\<close>

definition ReadOptionBufferIndex_40g ::
  "os \<Rightarrow> int \<Rightarrow> bytes \<Rightarrow> int \<Rightarrow> int \<Rightarrow> 'd ftdi_state \<Rightarrow> (int \<times> bytes \<times> 'd ftdi_state) option" where
  "ReadOptionBufferIndex_40g os index buff start iLen s = do {
     upto \<leftarrow> int_add start iLen;
     (if int OPTION_SIZE_FTDI < upto then Some (1, buff, s)
      else do {
        (iRet, sn) \<leftarrow> v400_boardres_ind2sn os index (replicate 256 0);
        (if iRet \<noteq> 0 then Some (iRet, buff, s)
         else case sys_init sn s of (iRet, s) \<Rightarrow>
           if iRet \<noteq> 0 then Some (iRet, buff, s)
           else do {
             (iRet, temp, s) \<leftarrow> read_options (Some (replicate OPTION_SIZE_FTDI 0)) s;
             temp \<leftarrow> temp;
             (if iRet \<noteq> 0 then Some (iRet, buff, deinit s)
              else do {
                buff \<leftarrow> memcpy_int buff 0 temp start iLen;
                Some (iRet, buff, deinit s)
              })
           })
      })
   }"

definition WriteOptionBufferIndex_40g ::
  "os \<Rightarrow> int \<Rightarrow> bytes \<Rightarrow> int \<Rightarrow> int \<Rightarrow> 'd ftdi_state \<Rightarrow> (int \<times> 'd ftdi_state) option" where
  "WriteOptionBufferIndex_40g os index pBuff start iLen s = do {
     upto \<leftarrow> int_add start iLen;
     (if int OPTION_SIZE_FTDI < upto then Some (1, s)
      else do {
        (iRet, sn) \<leftarrow> v400_boardres_ind2sn os index (replicate 256 0);
        (if iRet \<noteq> 0 then Some (iRet, s)
         else case sys_init sn s of (iRet, s) \<Rightarrow>
           if iRet \<noteq> 0 then Some (iRet, s)
           else do {
             let temp = replicate OPTION_SIZE_FTDI 0;
             (iRet, temp, s) \<leftarrow>
               (if start \<noteq> 0 \<or> int OPTION_SIZE_FTDI \<noteq> iLen then do {
                  (iRet, temp, s) \<leftarrow> read_options (Some temp) s;
                  temp \<leftarrow> temp;
                  Some (iRet, temp, s)
                }
                else Some (0, temp, s));
             (if iRet \<noteq> 0 then Some (iRet, deinit s)
              else do {
                temp \<leftarrow> memcpy_int temp start pBuff 0 iLen;
                (iRet, s) \<leftarrow> write_options (Some temp) s;
                Some (iRet, deinit s)
              })
           })
      })
   }"

subsection \<open>Lemmas\<close>

definition word_at :: "bytes \<Rightarrow> nat \<Rightarrow> 16 word" where
  "word_at e i = checksum_word (e ! (2 * i)) (e ! (2 * i + 1))"

lemma ft2232_loop_fold:
  "2 * n \<le> length e \<Longrightarrow> i \<le> n \<Longrightarrow>
   ft2232_loop e n i c = Some (fold checksum_step (map (word_at e) [i..<n]) c)"
proof (induction e n i c rule: ft2232_loop.induct)
  case (1 e n i c)
  show ?case
  proof (cases "i < n")
    case True
    let ?c = "checksum_step (checksum_word (e ! (i * 2)) (e ! (i * 2 + 1))) c"
    have ld: "load e (i * 2) = Some (e ! (i * 2))" "load e (i * 2 + 1) = Some (e ! (i * 2 + 1))"
      using True 1(2) by (simp_all add: load_def)
    have "ft2232_loop e n i c = ft2232_loop e n (i + 1) ?c"
      using True by (subst ft2232_loop.simps) (simp only: ld if_True Option.bind.bind_lunit)
    also have "\<dots> = Some (fold checksum_step (map (word_at e) [i + 1..<n]) ?c)"
      using 1(1) [OF True ld] 1(2) True by simp
    moreover have "word_at e i = checksum_word (e ! (i * 2)) (e ! (i * 2 + 1))"
      by (simp add: word_at_def mult.commute)
    ultimately show ?thesis
      using True by (simp add: upt_conv_Cons)
  next
    case False
    then show ?thesis using 1(3) by (subst ft2232_loop.simps) simp
  qed
qed

definition checksum_of :: "bytes \<Rightarrow> 16 word" where
  "checksum_of e = fold checksum_step (map (word_at e) [0..<63]) 0xAAAA"

lemma ft2232_checksum_eq: "length e = 128 \<Longrightarrow> ft2232_checksum e EEPROM_SIZE = Some (checksum_of e)"
  by (simp add: ft2232_checksum_def ft2232_loop_fold EEPROM_SIZE_def checksum_of_def)

lemma checksum_of_cong:
  assumes "\<And>k. k < 126 \<Longrightarrow> e ! k = e' ! k"
  shows "checksum_of e = checksum_of e'"
  unfolding checksum_of_def word_at_def
  by (intro arg_cong [where f = "\<lambda>l. fold checksum_step l 0xAAAA"] map_cong refl) (simp add: assms)

lemma copy_from_eq:
  "off + n \<le> length e \<Longrightarrow> n \<le> length o' \<Longrightarrow>
   copy_from e o' off n = Some (blit o' 0 (take n (drop off e)))"
proof (induction n)
  case (Suc n)
  have "take (Suc n) (drop off e) = take n (drop off e) @ [e ! (off + n)]"
    using Suc.prems by (simp add: take_Suc_conv_app_nth)
  moreover have "length (take n (drop off e)) = n" using Suc.prems by simp
  ultimately show ?case
    using Suc blit_snoc [of 0 "take n (drop off e)" o' "e ! (off + n)"] by (simp add: cmem)
qed simp

lemma copy_to_eq:
  "off + n \<le> length e \<Longrightarrow> n \<le> length o' \<Longrightarrow> copy_to e o' off n = Some (blit e off (take n o'))"
proof (induction n)
  case (Suc n)
  have "take (Suc n) o' = take n o' @ [o' ! n]"
    using Suc.prems by (simp add: take_Suc_conv_app_nth)
  then show ?case
    using Suc blit_snoc [of off "take n o'" e "o' ! n"] by (simp add: cmem min_def)
qed simp

lemma checksum_bytes:
  fixes c :: "16 word"
  shows "push_bit 8 (ucast (ucast (drop_bit 8 c) :: byte)) OR ucast (ucast c :: byte) = c"
  by (rule bit_word_eqI) (auto simp: bit_simps)

subsection \<open>Sealed options\<close>

text \<open>The content of a chip after options were written to it: the options, then the checksum.\<close>

definition sealed :: "bytes \<Rightarrow> bytes \<Rightarrow> bytes" where
  "sealed e o' = (let b = blit e OPTION_OFFSET_FTDI o'; c = checksum_of b in
     b[126 := ucast c, 127 := ucast (drop_bit 8 c)])"

definition chip_options :: "bytes \<Rightarrow> bytes" where
  "chip_options e = take OPTION_SIZE_FTDI (drop OPTION_OFFSET_FTDI e)"

definition chip_valid :: "bytes \<Rightarrow> bool" where
  "chip_valid e \<longleftrightarrow> checksum_of e = push_bit 8 (ucast (e ! 127)) OR ucast (e ! 126)"

lemma sealed_props:
  assumes "length e = 128" "length o' = 14"
  shows "length (sealed e o') = 128" "chip_options (sealed e o') = o'" "chip_valid (sealed e o')"
    "take 112 (sealed e o') = take 112 e"
proof -
  define b where "b = blit e 112 o'"
  have lb: "length b = 128" using assms by (simp add: b_def)
  have s: "sealed e o' = b[126 := ucast (checksum_of b), 127 := ucast (drop_bit 8 (checksum_of b))]"
    by (simp add: sealed_def Let_def ftdi_sizes b_def)
  show "length (sealed e o') = 128" using lb by (simp add: s)
  have t: "take 126 (sealed e o') = take 126 b" by (simp add: s)
  have "chip_options (sealed e o') = take 14 (drop 112 (take 126 (sealed e o')))"
    by (simp add: chip_options_def ftdi_sizes drop_take)
  also have "\<dots> = o'" using assms unfolding t b_def by (simp add: drop_take blit_def)
  finally show "chip_options (sealed e o') = o'" .
  have "checksum_of (sealed e o') = checksum_of b"
    by (rule checksum_of_cong) (simp add: s)
  then show "chip_valid (sealed e o')"
    using lb by (simp add: chip_valid_def s checksum_bytes)
  have "take 112 (sealed e o') = take 112 (take 126 (sealed e o'))" by simp
  then show "take 112 (sealed e o') = take 112 e"
    using assms unfolding t b_def by (simp add: blit_def)
qed

text \<open>What the two functions do on an open chip.\<close>

lemma read_options_eq:
  assumes "ftdi_laws D" "opened D d = Some sn" "ftdi_read_eeprom D d = (ret, b, d')" "length o' = 14"
  shows "read_options (Some o') (D, d, e) =
     (if ret < 0 then Some (EXIT_FAILURE, Some o', D, d', b)
      else if chip_valid (chip D sn d) then Some (0, Some (chip_options (chip D sn d)), D, d', b)
      else Some (-1, Some o', D, d', b))"
proof (cases "ret < 0")
  case True
  then show ?thesis by (simp add: read_options_def assms(3))
next
  case False
  then have b: "b = chip D sn d" "length b = 128"
    using assms(1-3) by (auto simp: ftdi_laws_def EEPROM_SIZE_def)
  have "copy_from b o' OPTION_OFFSET_FTDI OPTION_SIZE_FTDI = Some (chip_options b)"
    using b(2) assms(4) by (simp add: copy_from_eq ftdi_sizes chip_options_def blit_whole)
  then show ?thesis
    using False b ft2232_checksum_eq [OF b(2)]
    by (simp add: read_options_def assms(3) chip_valid_def cmem EEPROM_SIZE_def)
qed

lemma write_options_eq:
  assumes "ftdi_laws D" "opened D d = Some sn" "ftdi_read_eeprom D d = (ret, b, d')" "length o' = 14"
  shows "write_options (Some o') (D, d, e) =
     (if ret < 0 then Some (EXIT_FAILURE, D, d', b)
      else case ftdi_write_eeprom D (sealed (chip D sn d) o') d' of (ret, d'') \<Rightarrow>
        Some (if ret < 0 then EXIT_FAILURE else 0, D, d'', sealed (chip D sn d) o'))"
proof (cases "ret < 0")
  case True
  then show ?thesis by (simp add: write_options_def assms(3))
next
  case False
  then have b: "b = chip D sn d" "length b = 128"
    using assms(1-3) by (auto simp: ftdi_laws_def EEPROM_SIZE_def)
  define w where "w = blit b 112 o'"
  have w: "copy_to b o' OPTION_OFFSET_FTDI OPTION_SIZE_FTDI = Some w" "length w = 128"
    using b(2) assms(4) by (simp_all add: copy_to_eq ftdi_sizes w_def)
  have "sealed b o' = w[126 := ucast (checksum_of w), 127 := ucast (drop_bit 8 (checksum_of w))]"
    by (simp add: sealed_def w_def OPTION_OFFSET_FTDI_def Let_def)
  then show ?thesis
    using False b(2) w ft2232_checksum_eq [OF b(2)] ft2232_checksum_eq [OF w(2)]
    by (simp add: write_options_def assms(3) cmem EEPROM_SIZE_def b(1) [symmetric])
qed

subsection \<open>The contract\<close>

definition ftdi_ok :: "'d ftdi_state \<Rightarrow> bool" where
  "ftdi_ok s \<longleftrightarrow> ftdi_laws (fst s)"

definition ftdi_options :: "os \<Rightarrow> int \<Rightarrow> 'd ftdi_state \<Rightarrow> bytes" where
  "ftdi_options os i s = chip_options (chip (fst s) (slot_serial os i) (fst (snd s)))"

lemma chip_length: "ftdi_laws D \<Longrightarrow> length (chip D sn d) = 128"
  by (simp add: ftdi_laws_def EEPROM_SIZE_def)

lemma sys_init_zero:
  assumes "ftdi_laws D" "sys_init sn (D, d, e) = (0, s1)"
  obtains d1 where "s1 = (D, d1, e)" "opened D d1 = Some (cstr sn)" "\<And>sn'. chip D sn' d1 = chip D sn' d"
proof -
  obtain r0 d0 where i: "ftdi_init D d = (r0, d0)" by (cases "ftdi_init D d")
  obtain r1 d1 where o: "ftdi_usb_open_desc D (cstr sn) d0 = (r1, d1)"
    by (cases "ftdi_usb_open_desc D (cstr sn) d0")
  have r: "s1 = (D, d1, e)" "0 \<le> r1" using assms(2) i o by (auto simp: sys_init_def split: if_splits)
  have "chip D sn' d0 = chip D sn' d" for sn'
    using assms(1) i unfolding ftdi_laws_def by (metis snd_conv)
  moreover have "chip D sn' d1 = chip D sn' d0 \<and> opened D d1 = Some (cstr sn)" for sn'
    using assms(1) o r(2) unfolding ftdi_laws_def by blast
  ultimately show thesis using that r(1) by metis
qed

lemma ftdi_read_keeps:
  assumes "ftdi_laws D" "ftdi_read_eeprom D d = (r, b, d')"
  shows "chip D sn d' = chip D sn d" "opened D d' = opened D d"
  using assms unfolding ftdi_laws_def by blast+

lemma ftdi_write_chip:
  assumes "ftdi_laws D" "length e = 128" "ftdi_write_eeprom D e d = (r, d')" "opened D d = Some sn" "0 \<le> r"
  shows "chip D sn' d' = (if sn' = sn then e else chip D sn' d)"
  using assms unfolding ftdi_laws_def EEPROM_SIZE_def by auto

lemma ftdi_deinit_chip: "ftdi_laws D \<Longrightarrow> chip D sn (ftdi_deinit D d) = chip D sn d"
  by (simp add: ftdi_laws_def)

lemma Read_40g_zero:
  assumes "ftdi_laws D" "ReadOptionBufferIndex_40g os i buff st len (D, d, e) = Some (0, buf', s')"
  shows "\<exists>d' e'. s' = (D, d', e') \<and> (\<forall>sn. chip D sn d' = chip D sn d) \<and>
     memcpy_int buff 0 (ftdi_options os i (D, d, e)) st len = Some buf' \<and>
     chip_valid (chip D (slot_serial os i) d) \<and> 0 \<le> i \<and> i < 6"
proof -
  obtain upto where "int_add st len = Some upto" "\<not> int OPTION_SIZE_FTDI < upto"
    using assms(2) by (auto simp: ReadOptionBufferIndex_40g_def split: bind_splits if_splits)
  then obtain sn s1 where sn: "v400_boardres_ind2sn os i (replicate 256 0) = Some (0, sn)"
      and init: "sys_init sn (D, d, e) = (0, s1)"
    using assms(2)
    by (auto simp: ReadOptionBufferIndex_40g_def split: bind_splits if_splits prod.splits)
  have slot: "0 \<le> i" "i < 6" "cstr sn = slot_serial os i" using ind2sn_zero [OF sn] by simp_all
  obtain d1 where d1: "s1 = (D, d1, e)" "opened D d1 = Some (slot_serial os i)"
      "\<And>sn'. chip D sn' d1 = chip D sn' d"
    using sys_init_zero [OF assms(1) init] slot(3) by metis
  obtain ret b d2 where r: "ftdi_read_eeprom D d1 = (ret, b, d2)"
    by (cases "ftdi_read_eeprom D d1") auto
  note k = ftdi_read_keeps [OF assms(1) r]
  have "length (replicate OPTION_SIZE_FTDI (0 :: byte)) = 14" by (simp add: OPTION_SIZE_FTDI_def)
  note ro = read_options_eq [OF assms(1) d1(2) r this, of e]
  have "\<exists>e'. s' = (D, ftdi_deinit D d2, e') \<and>
     memcpy_int buff 0 (chip_options (chip D (slot_serial os i) d1)) st len = Some buf' \<and>
     chip_valid (chip D (slot_serial os i) d1)"
    using assms(2) \<open>int_add st len = Some upto\<close> \<open>\<not> int OPTION_SIZE_FTDI < upto\<close> sn init d1(1) ro
    by (auto simp: ReadOptionBufferIndex_40g_def deinit_def EXIT_FAILURE_def
        split: bind_splits if_splits)
  then show ?thesis
    using d1(3) k(1) ftdi_deinit_chip [OF assms(1)] slot(1,2) by (auto simp: ftdi_options_def)
qed

text \<open>The options the function gives to \<open>write_options\<close>, whether it read the old ones before or not.\<close>

lemma Write_40g_merged:
  assumes laws: "ftdi_laws D" and run: "WriteOptionBufferIndex_40g os i bs st len (D, d, e) = Some (0, s')"
    and r: "0 \<le> st" "0 < len" "st + len \<le> 14" "nat len \<le> length bs"
    and sn: "v400_boardres_ind2sn os i (replicate 256 0) = Some (0, sn)" "sys_init sn (D, d, e) = (0, D, d1, e)"
    and d1: "opened D d1 = Some (slot_serial os i)" "\<And>sn'. chip D sn' d1 = chip D sn' d"
  defines "w \<equiv> blit (chip_options (chip D (slot_serial os i) d)) (nat st) (take (nat len) bs)"
  shows "\<exists>d2 e2. opened D d2 = Some (slot_serial os i) \<and> (\<forall>sn'. chip D sn' d2 = chip D sn' d) \<and>
      Option.bind (write_options (Some w) (D, d2, e2)) (\<lambda>(r, s). Some (r, deinit s)) = Some (0, s')"
proof -
  let ?c = "chip D (slot_serial os i) d" and ?z = "replicate OPTION_SIZE_FTDI (0 :: byte)"
  have up: "int_add st len = Some (st + len)" "\<not> int OPTION_SIZE_FTDI < st + len"
    using r(1-3) by (auto simp: int_add_def OPTION_SIZE_FTDI_def)
  have lz: "length ?z = 14" by (simp add: OPTION_SIZE_FTDI_def)
  have lo: "length (chip_options ?c) = 14"
    using chip_length [OF laws] by (simp add: chip_options_def ftdi_sizes)
  have n: "nat st + nat len \<le> 14" using r(1-3) by linarith
  show ?thesis
  proof (cases "st \<noteq> 0 \<or> int OPTION_SIZE_FTDI \<noteq> len")
    case True
    obtain ret b d2 where rd: "ftdi_read_eeprom D d1 = (ret, b, d2)"
      by (cases "ftdi_read_eeprom D d1") auto
    have "memcpy_int (chip_options ?c) st bs 0 len = Some w"
      using r(1,2,4) lo n by (simp add: memcpy_int_def memcpy_def w_def)
    then have "Option.bind (write_options (Some w) (D, d2, b)) (\<lambda>(r, s). Some (r, deinit s)) = Some (0, s')"
      using run up sn d1(2) True read_options_eq [OF laws d1(1) rd lz, of e]
      by (auto simp: WriteOptionBufferIndex_40g_def EXIT_FAILURE_def Let_def split: if_splits bind_splits)
    then show ?thesis using ftdi_read_keeps [OF laws rd] d1 by auto
  next
    case False
    then have "w = take 14 bs" "memcpy_int ?z st bs 0 len = Some (take 14 bs)"
      using lo r(4) by (simp_all add: w_def OPTION_SIZE_FTDI_def memcpy_int_def memcpy_def blit_whole)
    then have "Option.bind (write_options (Some w) (D, d1, e)) (\<lambda>(r, s). Some (r, deinit s)) = Some (0, s')"
      using run up sn False
      by (auto simp: WriteOptionBufferIndex_40g_def Let_def split: if_splits bind_splits)
    then show ?thesis using d1 by blast
  qed
qed

text \<open>What \<open>write_options\<close> does when it reports success.\<close>

lemma write_options_zero:
  assumes laws: "ftdi_laws D" and d: "opened D d = Some sn" and w: "length w = 14"
    and run: "Option.bind (write_options (Some w) (D, d, e)) (\<lambda>(r, s). Some (r, deinit s)) = Some (0, s')"
  shows "\<exists>d' e'. s' = (D, d', e') \<and>
     (\<forall>sn'. chip D sn' d' = (if sn' = sn then sealed (chip D sn' d) w else chip D sn' d))"
proof -
  obtain ret b d3 where r: "ftdi_read_eeprom D d = (ret, b, d3)"
    by (cases "ftdi_read_eeprom D d") auto
  obtain rw d4 where wr: "ftdi_write_eeprom D (sealed (chip D sn d) w) d3 = (rw, d4)"
    by (cases "ftdi_write_eeprom D (sealed (chip D sn d) w) d3")
  have ok: "0 \<le> rw" "s' = (D, ftdi_deinit D d4, sealed (chip D sn d) w)"
    using run write_options_eq [OF laws d r w, of e] wr by (auto simp: EXIT_FAILURE_def deinit_def split: if_splits)
  have "length (sealed (chip D sn d) w) = 128" using sealed_props(1) [OF chip_length [OF laws] w] .
  from ftdi_write_chip [OF laws this wr _ ok(1)] show ?thesis
    using ok(2) ftdi_read_keeps [OF laws r] d ftdi_deinit_chip [OF laws] by auto
qed

lemma Write_40g_zero:
  assumes "ftdi_laws D" "WriteOptionBufferIndex_40g os i bs st len (D, d, e) = Some (0, s')"
    "0 \<le> st" "0 < len" "st + len \<le> 14" "nat len \<le> length bs"
  shows "\<exists>d' e'. s' = (D, d', e') \<and>
     (\<forall>sn. chip D sn d' = (if sn = slot_serial os i
        then sealed (chip D sn d) (blit (ftdi_options os i (D, d, e)) (nat st) (take (nat len) bs))
        else chip D sn d)) \<and> 0 \<le> i \<and> i < 6"
proof -
  have "int_add st len = Some (st + len)" "\<not> int OPTION_SIZE_FTDI < st + len"
    using assms(3-5) by (auto simp: int_add_def OPTION_SIZE_FTDI_def)
  then obtain sn s1 where sn: "v400_boardres_ind2sn os i (replicate 256 0) = Some (0, sn)"
      and init: "sys_init sn (D, d, e) = (0, s1)"
    using assms(2)
    by (auto simp: WriteOptionBufferIndex_40g_def split: bind_splits if_splits prod.splits)
  have slot: "0 \<le> i" "i < 6" "cstr sn = slot_serial os i" using ind2sn_zero [OF sn] by simp_all
  obtain d1 where d1: "s1 = (D, d1, e)" "opened D d1 = Some (slot_serial os i)"
      "\<And>sn'. chip D sn' d1 = chip D sn' d"
    using sys_init_zero [OF assms(1) init] slot(3) by metis
  define w where "w = blit (chip_options (chip D (slot_serial os i) d)) (nat st) (take (nat len) bs)"
  have lw: "length w = 14"
    using chip_length [OF assms(1)] assms(3-6) by (simp add: w_def chip_options_def ftdi_sizes)
  obtain d2 e2 where s2: "opened D d2 = Some (slot_serial os i)" "\<And>sn'. chip D sn' d2 = chip D sn' d"
      "Option.bind (write_options (Some w) (D, d2, e2)) (\<lambda>(r, s). Some (r, deinit s)) = Some (0, s')"
    using Write_40g_merged [OF assms sn init [unfolded d1(1)] d1(2,3)] unfolding w_def by blast
  show ?thesis
    using write_options_zero [OF assms(1) s2(1) lw s2(3)] slot(1,2) s2(2) by (auto simp: w_def ftdi_options_def)
qed

text \<open>Whatever a read returns, it changes no chip.\<close>

lemma Read_40g_keeps:
  assumes "ftdi_laws D" "ReadOptionBufferIndex_40g os i buff st len (D, d, e) = Some (r, buf', s')"
  shows "\<exists>d' e'. s' = (D, d', e') \<and> (\<forall>sn. chip D sn d' = chip D sn d)"
proof -
  have init: "\<exists>d1. s1 = (D, d1, e) \<and> (\<forall>sn. chip D sn d1 = chip D sn d)" if "sys_init sn0 (D, d, e) = (r0, s1)" for r0 sn0 s1
  proof -
    obtain ra da where i: "ftdi_init D d = (ra, da)" by (cases "ftdi_init D d")
    obtain rb db where o: "ftdi_usb_open_desc D (cstr sn0) da = (rb, db)" by (cases "ftdi_usb_open_desc D (cstr sn0) da")
    have "chip D sn da = chip D sn d" "chip D sn db = chip D sn da" for sn
      using assms(1) i o unfolding ftdi_laws_def by (metis snd_conv)+
    then show ?thesis using that i o by (auto simp: sys_init_def split: if_splits)
  qed
  have rd: "\<exists>d2 e2. s2 = (D, d2, e2) \<and> (\<forall>sn. chip D sn d2 = chip D sn d1)"
    if "read_options o' (D, d1, e1) = Some (r1, o'', s2)" for d1 e1 o' r1 o'' s2
  proof -
    obtain rr b d2 where R: "ftdi_read_eeprom D d1 = (rr, b, d2)" by (cases "ftdi_read_eeprom D d1") auto
    show ?thesis using that R ftdi_read_keeps [OF assms(1) R]
      by (auto simp: read_options_def Let_def split: if_splits option.splits bind_splits)
  qed
  consider "s' = (D, d, e)" | sn r1 s1 where "sys_init sn (D, d, e) = (r1, s1)" "s' = s1"
    | sn r1 s1 o' r2 s2 where "sys_init sn (D, d, e) = (r1, s1)"
        "read_options (Some (replicate OPTION_SIZE_FTDI 0)) s1 = Some (r2, o', s2)" "s' = deinit s2"
    using assms(2)
    by (auto simp: ReadOptionBufferIndex_40g_def split: if_splits bind_splits prod.splits)
  then show ?thesis
  proof cases
    case 2
    then show ?thesis using init by blast
  next
    case 3
    obtain d1 where d1: "s1 = (D, d1, e)" "\<forall>sn. chip D sn d1 = chip D sn d" using init [OF 3(1)] by blast
    obtain d2 e2 where "s2 = (D, d2, e2)" "\<forall>sn. chip D sn d2 = chip D sn d1"
      using rd 3(2) unfolding d1(1) by blast
    then show ?thesis using d1(2) 3(3) ftdi_deinit_chip [OF assms(1)] by (simp add: deinit_def)
  qed simp
qed

interpretation ftdi: option_store "ReadOptionBufferIndex_40g os index"
  "WriteOptionBufferIndex_40g os index" "ftdi_options os index" ftdi_ok 14
  for os index
proof unfold_locales
  fix s s' :: "'d ftdi_state" and buf buf' start len
  assume a: "ftdi_ok s" "ReadOptionBufferIndex_40g os index buf start len s = Some (0, buf', s')"
    "0 \<le> start" "0 < len" "start + len \<le> 14"
  obtain D d e where s: "s = (D, d, e)" by (cases s) auto
  obtain d' e' where r: "s' = (D, d', e')" "\<forall>sn. chip D sn d' = chip D sn d"
      "memcpy_int buf 0 (ftdi_options os index (D, d, e)) start len = Some buf'"
    using Read_40g_zero [of D os index buf start len d e buf' s'] a(1,2) by (auto simp: s ftdi_ok_def)
  from memcpy_int_Some [OF r(3)]
  have "take (nat len) buf' = take (nat len) (drop (nat start) (ftdi_options os index (D, d, e)))"
    by (auto simp: take_blit_slice)
  then show "take (nat len) buf' = take (nat len) (drop (nat start) (ftdi_options os index s)) \<and>
      ftdi_options os index s' = ftdi_options os index s \<and> ftdi_ok s'"
    using r(1,2) a(1) by (simp add: s ftdi_ok_def ftdi_options_def)
next
  fix s s' :: "'d ftdi_state" and buf buf' start len r
  assume a: "ftdi_ok s" "ReadOptionBufferIndex_40g os index buf start len s = Some (r, buf', s')"
  obtain D d e where s: "s = (D, d, e)" by (cases s) auto
  show "ftdi_options os index s' = ftdi_options os index s \<and> ftdi_ok s'"
    using Read_40g_keeps [of D os index buf start len d e r buf' s'] a
    by (auto simp: s ftdi_ok_def ftdi_options_def)
next
  fix s s' :: "'d ftdi_state" and bs start len
  assume a: "ftdi_ok s" "WriteOptionBufferIndex_40g os index bs start len s = Some (0, s')"
    "0 \<le> start" "0 < len" "start + len \<le> 14" "nat len \<le> length bs"
  obtain D d e where s: "s = (D, d, e)" by (cases s) auto
  have l: "ftdi_laws D" using a(1) by (simp add: s ftdi_ok_def)
  obtain d' e' where r: "s' = (D, d', e')" "chip D (slot_serial os index) d' =
      sealed (chip D (slot_serial os index) d) (blit (ftdi_options os index (D, d, e)) (nat start) (take (nat len) bs))"
    using Write_40g_zero [OF l a(2) [unfolded s] a(3-6)] by auto
  have "length (ftdi_options os index (D, d, e)) = 14"
    using chip_length [OF l] by (simp add: ftdi_options_def chip_options_def ftdi_sizes)
  then have "length (blit (ftdi_options os index (D, d, e)) (nat start) (take (nat len) bs)) = 14"
    using a(3-6) by simp
  from sealed_props(2) [OF chip_length [OF l] this]
  show "ftdi_options os index s' = blit (ftdi_options os index s) (nat start) (take (nat len) bs) \<and> ftdi_ok s'"
    using r l by (simp add: s ftdi_ok_def ftdi_options_def)
next
  fix s :: "'d ftdi_state"
  assume "ftdi_ok s"
  then show "length (ftdi_options os index s) = nat 14"
    using chip_length [of "fst s" "slot_serial os index" "fst (snd s)"]
    by (simp add: ftdi_ok_def ftdi_options_def chip_options_def ftdi_sizes)
qed

subsection \<open>Chips that work\<close>

definition ftdi_works :: "'d ftdi \<Rightarrow> bool" where
  "ftdi_works D \<longleftrightarrow> (\<forall>d. 0 \<le> fst (ftdi_init D d) \<and> 0 \<le> fst (ftdi_read_eeprom D d) \<and>
     (\<forall>sn. 0 \<le> fst (ftdi_usb_open_desc D sn d)) \<and> (\<forall>e. 0 \<le> fst (ftdi_write_eeprom D e d)))"

lemma sys_init_works: "ftdi_works (fst s) \<Longrightarrow> \<exists>s'. sys_init sn s = (0, s') \<and> fst s' = fst s"
proof -
  assume w: "ftdi_works (fst s)"
  obtain D d e where s: "s = (D, d, e)" by (cases s) auto
  obtain r0 d0 where i: "ftdi_init D d = (r0, d0)" by (cases "ftdi_init D d")
  obtain r1 d1 where o: "ftdi_usb_open_desc D (cstr sn) d0 = (r1, d1)"
    by (cases "ftdi_usb_open_desc D (cstr sn) d0")
  have "0 \<le> r0" "0 \<le> r1" using w i o unfolding s ftdi_works_def by (metis fst_conv)+
  then show ?thesis by (simp add: sys_init_def s i o)
qed

lemma slot_sn:
  assumes "0 \<le> i" "i < 6"
  obtains sn where "v400_boardres_ind2sn os i (replicate 256 0) = Some (0, sn)"
  using ind2sn_slot [OF assms, of "replicate 256 0" os] by auto

lemma Read_40g_works:
  assumes "ftdi_laws (fst s)" "ftdi_works (fst s)" "0 \<le> i" "i < 6"
    "chip_valid (chip (fst s) (slot_serial os i) (fst (snd s)))"
    "0 \<le> st" "0 < len" "st + len \<le> 14" "nat len \<le> length buff"
  shows "\<exists>buf' s'. ReadOptionBufferIndex_40g os i buff st len s = Some (0, buf', s') \<and> fst s' = fst s"
proof -
  obtain D d e where s: "s = (D, d, e)" by (cases s) auto
  obtain sn where sn: "v400_boardres_ind2sn os i (replicate 256 0) = Some (0, sn)"
    using slot_sn [OF assms(3,4)] .
  have cs: "cstr sn = slot_serial os i" using ind2sn_zero [OF sn] by simp
  obtain s1 where s1: "sys_init sn s = (0, s1)" using sys_init_works [OF assms(2)] by blast
  have l: "ftdi_laws D" using assms(1) by (simp add: s)
  obtain d1 where d1: "s1 = (D, d1, e)" "opened D d1 = Some (slot_serial os i)"
      "\<And>sn'. chip D sn' d1 = chip D sn' d"
    using sys_init_zero [OF l s1 [unfolded s]] cs by metis
  obtain ret b d2 where r: "ftdi_read_eeprom D d1 = (ret, b, d2)"
    by (cases "ftdi_read_eeprom D d1") auto
  have ret: "0 \<le> ret" using assms(2) r unfolding s ftdi_works_def by (metis fst_conv)
  have "length (replicate OPTION_SIZE_FTDI (0 :: byte)) = 14" by (simp add: OPTION_SIZE_FTDI_def)
  note ro = read_options_eq [OF l d1(2) r this, of e]
  have lo: "length (chip_options (chip D (slot_serial os i) d)) = 14"
    using chip_length [OF l] by (simp add: chip_options_def ftdi_sizes)
  have "nat st + nat len \<le> 14" using assms(6-8) by linarith
  then have "\<exists>b'. memcpy_int buff 0 (chip_options (chip D (slot_serial os i) d)) st len = Some b'"
    using assms(6,7,9) lo by (simp add: memcpy_int_def memcpy_def)
  moreover have "int_add st len = Some (st + len)" using assms(6-8) by (simp add: int_add_def)
  ultimately show ?thesis
    using sn s1 d1(1,3) ro ret assms(5,8)
    by (auto simp: ReadOptionBufferIndex_40g_def s deinit_def OPTION_SIZE_FTDI_def)
qed

lemma Write_40g_works:
  assumes "ftdi_laws (fst s)" "ftdi_works (fst s)" "0 \<le> i" "i < 6"
    "chip_valid (chip (fst s) (slot_serial os i) (fst (snd s))) \<or> st = 0 \<and> len = 14"
    "0 \<le> st" "0 < len" "st + len \<le> 14" "nat len \<le> length bs"
  shows "\<exists>s'. WriteOptionBufferIndex_40g os i bs st len s = Some (0, s') \<and> fst s' = fst s"
proof -
  obtain D d e where s: "s = (D, d, e)" by (cases s) auto
  obtain sn where sn: "v400_boardres_ind2sn os i (replicate 256 0) = Some (0, sn)"
    using slot_sn [OF assms(3,4)] .
  have cs: "cstr sn = slot_serial os i" using ind2sn_zero [OF sn] by simp
  obtain s1 where s1: "sys_init sn s = (0, s1)" using sys_init_works [OF assms(2)] by blast
  have l: "ftdi_laws D" using assms(1) by (simp add: s)
  obtain d1 where d1: "s1 = (D, d1, e)" "opened D d1 = Some (slot_serial os i)"
      "\<And>sn'. chip D sn' d1 = chip D sn' d"
    using sys_init_zero [OF l s1 [unfolded s]] cs by metis
  have lz: "length (replicate OPTION_SIZE_FTDI (0 :: byte)) = 14" by (simp add: OPTION_SIZE_FTDI_def)
  have lo: "length (chip_options (chip D (slot_serial os i) d)) = 14"
    using chip_length [OF l] by (simp add: chip_options_def ftdi_sizes)
  have n: "nat st + nat len \<le> 14" using assms(6-8) by linarith
  have wr: "\<exists>s'. write_options (Some t) (D, d2, e2) = Some (0, s') \<and> fst s' = D"
    if "opened D d2 = Some (slot_serial os i)" "length t = 14" for t d2 e2
  proof -
    obtain ret b d3 where r: "ftdi_read_eeprom D d2 = (ret, b, d3)"
      by (cases "ftdi_read_eeprom D d2") auto
    obtain rw d4 where w: "ftdi_write_eeprom D (sealed (chip D (slot_serial os i) d2) t) d3 = (rw, d4)"
      by (cases "ftdi_write_eeprom D (sealed (chip D (slot_serial os i) d2) t) d3")
    have "0 \<le> ret" "0 \<le> rw" using assms(2) r w unfolding s ftdi_works_def by (metis fst_conv)+
    then show ?thesis using write_options_eq [OF l that(1) r that(2), of e2] w by simp
  qed
  have m: "\<exists>t'. memcpy_int t st bs 0 len = Some t' \<and> length t' = 14" if "length t = 14" for t
    using that assms(6,7,9) n by (auto simp: memcpy_int_def memcpy_def)
  have up: "int_add st len = Some (st + len)" "\<not> int OPTION_SIZE_FTDI < st + len"
    using assms(6-8) by (simp_all add: int_add_def OPTION_SIZE_FTDI_def)
  show ?thesis
  proof (cases "st \<noteq> 0 \<or> int OPTION_SIZE_FTDI \<noteq> len")
    case True
    then have v: "chip_valid (chip D (slot_serial os i) d)" using assms(5) by (auto simp: s OPTION_SIZE_FTDI_def)
    obtain ret b d2 where r: "ftdi_read_eeprom D d1 = (ret, b, d2)"
      by (cases "ftdi_read_eeprom D d1") auto
    have ret: "0 \<le> ret" using assms(2) r unfolding s ftdi_works_def by (metis fst_conv)
    have op: "opened D d2 = Some (slot_serial os i)" using ftdi_read_keeps(2) [OF l r] d1(2) by simp
    obtain t where t: "memcpy_int (chip_options (chip D (slot_serial os i) d)) st bs 0 len = Some t" "length t = 14"
      using m [OF lo] by blast
    obtain s2 where "write_options (Some t) (D, d2, b) = Some (0, s2)" "fst s2 = D"
      using wr [OF op t(2)] by blast
    then show ?thesis
      using up sn s1 d1(1,3) True read_options_eq [OF l d1(2) r lz, of e] ret v t
      by (cases s2) (simp add: WriteOptionBufferIndex_40g_def s deinit_def Let_def)
  next
    case False
    obtain t where t: "memcpy_int (replicate OPTION_SIZE_FTDI 0) st bs 0 len = Some t" "length t = 14"
      using m [OF lz] by blast
    obtain s2 where "write_options (Some t) (D, d1, e) = Some (0, s2)" "fst s2 = D"
      using wr [OF d1(2) t(2)] by blast
    then show ?thesis
      using up sn s1 d1(1) False t
      by (cases s2) (simp add: WriteOptionBufferIndex_40g_def s deinit_def Let_def)
  qed
qed

subsection \<open>Properties\<close>

text \<open>A bus with any number of chips, for the witnesses.\<close>

definition pad128 :: "bytes \<Rightarrow> bytes" where
  "pad128 e = take 128 (e @ replicate 128 0)"

definition ftdi_sim :: "(bytes option \<times> (bytes \<Rightarrow> bytes)) ftdi" where
  "ftdi_sim = \<lparr>ftdi_init = (\<lambda>d. (0, None, snd d)), ftdi_usb_open_desc = (\<lambda>sn d. (0, Some sn, snd d)),
     ftdi_read_eeprom = (\<lambda>d. (0, case fst d of None \<Rightarrow> replicate 128 0 | Some sn \<Rightarrow> pad128 (snd d sn), d)),
     ftdi_write_eeprom = (\<lambda>e d. (0, fst d, case fst d of None \<Rightarrow> snd d | Some sn \<Rightarrow> (snd d)(sn := e))),
     ftdi_deinit = (\<lambda>d. (None, snd d)), chip = (\<lambda>sn d. pad128 (snd d sn)), opened = fst\<rparr>"

definition ftdi_sim_state :: "bytes \<Rightarrow> (bytes option \<times> (bytes \<Rightarrow> bytes)) ftdi_state" where
  "ftdi_sim_state e = (ftdi_sim, (None, \<lambda>_. e), [])"

definition os_sim :: "bytes \<Rightarrow> os" where
  "os_sim sn = \<lparr>os_access = (\<lambda>_. True), os_read = (\<lambda>_. Some sn), os_opendir = (\<lambda>_. None), os_isdir = (\<lambda>_. False)\<rparr>"

lemma length_pad128 [simp]: "length (pad128 e) = 128"
  by (simp add: pad128_def)

lemma pad128_id [simp]: "length e = 128 \<Longrightarrow> pad128 e = e"
  by (simp add: pad128_def)

lemma ftdi_sim_laws: "ftdi_laws ftdi_sim"
  by (auto simp: ftdi_laws_def ftdi_sim_def EEPROM_SIZE_def split: option.splits)

lemma ftdi_sim_works: "ftdi_works ftdi_sim"
  by (auto simp: ftdi_works_def ftdi_sim_def)

text \<open>
  C12: On a working bus, writing options of a module and reading them gives the bytes that were
  written. It needs a chip with a right checksum, or a write of the whole area. Outside the
  options area and its checksum, and on chips with another serial number, nothing changes.
\<close>

theorem module_options_roundtrip:
  assumes "ftdi_laws (fst s)" "ftdi_works (fst s)" "0 \<le> i" "i < 6"
    "chip_valid (chip (fst s) (slot_serial os i) (fst (snd s))) \<or> st = 0 \<and> len = 14"
    "0 \<le> st" "0 < len" "st + len \<le> 14" "nat len \<le> length bs" "nat len \<le> length buff"
  shows "\<exists>s1 buf' s2. WriteOptionBufferIndex_40g os i bs st len s = Some (0, s1) \<and>
     ReadOptionBufferIndex_40g os i buff st len s1 = Some (0, buf', s2) \<and>
     take (nat len) buf' = take (nat len) bs \<and>
     (\<forall>sn. if sn = slot_serial os i
        then take 112 (chip (fst s) sn (fst (snd s2))) = take 112 (chip (fst s) sn (fst (snd s)))
        else chip (fst s) sn (fst (snd s2)) = chip (fst s) sn (fst (snd s)))"
proof -
  obtain D d e where s: "s = (D, d, e)" by (cases s) auto
  have ok: "ftdi_ok s" and l: "ftdi_laws D" using assms(1) by (simp_all add: ftdi_ok_def s)
  obtain s1 where w: "WriteOptionBufferIndex_40g os i bs st len s = Some (0, s1)" "fst s1 = D"
    using Write_40g_works [OF assms(1-9)] by (auto simp: s)
  let ?o = "blit (ftdi_options os i s) (nat st) (take (nat len) bs)"
  have "nat st + nat len \<le> 14" using assms(6-8) by linarith
  then have lo: "length ?o = 14"
    using chip_length [OF assms(1)] assms(9) by (simp add: ftdi_options_def chip_options_def ftdi_sizes)
  obtain d1 e1 where s1: "s1 = (D, d1, e1)"
      "\<And>sn. chip D sn d1 = (if sn = slot_serial os i then sealed (chip D sn d) ?o else chip D sn d)"
    using Write_40g_zero [OF l w(1) [unfolded s] assms(6-9)] by (auto simp: s)
  note sp = sealed_props [OF chip_length [OF l] lo]
  obtain buf' s2 where r: "ReadOptionBufferIndex_40g os i buff st len s1 = Some (0, buf', s2)"
    using Read_40g_works [of s1 i os st len buff] assms sp(3) by (auto simp: s1 s)
  obtain d2 e2 where "s2 = (D, d2, e2)" "\<And>sn. chip D sn d2 = chip D sn d1"
    using Read_40g_zero [OF l r [unfolded s1(1)]] by auto
  then show ?thesis
    using w(1) r ftdi.read_back [OF ok w(1) r assms(6-9)] s1(2) sp(4) by (simp add: s)
qed

theorem module_options_roundtrip_witness:
  "\<exists>s1 buf' s2. WriteOptionBufferIndex_40g (os_sim [1]) 0 (replicate 14 7) 0 14
       (ftdi_sim_state []) = Some (0, s1) \<and>
     ReadOptionBufferIndex_40g (os_sim [1]) 0 (replicate 14 0) 0 14 s1 = Some (0, buf', s2) \<and>
     buf' \<noteq> []"
proof -
  obtain s1 buf' s2 where "WriteOptionBufferIndex_40g (os_sim [1]) 0 (replicate 14 7) 0 14
       (ftdi_sim_state []) = Some (0, s1)"
     "ReadOptionBufferIndex_40g (os_sim [1]) 0 (replicate 14 0) 0 14 s1 = Some (0, buf', s2)"
     "take (nat 14) buf' = take (nat 14) (replicate 14 7)"
    using module_options_roundtrip [of "ftdi_sim_state []" 0 "os_sim [1]" 0 14 "replicate 14 7" "replicate 14 0"]
      ftdi_sim_laws ftdi_sim_works by (auto simp: ftdi_sim_state_def)
  then show ?thesis by (intro exI [of _ s1] exI [of _ buf'] exI [of _ s2]) auto
qed

text \<open>The step of the checksum loses nothing of either argument.\<close>

lemma rotate_inject:
  fixes x y :: "16 word"
  assumes "push_bit 1 x OR drop_bit 15 x = push_bit 1 y OR drop_bit 15 y"
  shows "x = y"
proof (rule bit_word_eqI)
  fix n assume n: "n < LENGTH(16)"
  have e: "bit (push_bit 1 x OR drop_bit 15 x) m = bit (push_bit 1 y OR drop_bit 15 y) m" for m
    by (simp only: assms)
  show "bit x n = bit y n"
  proof (cases "n = 15")
    case True
    have "\<not> bit (push_bit 1 z) 0" for z :: "16 word" by (simp only: bit_push_bit_iff) simp
    then show ?thesis using e [of 0] True unfolding bit_or_iff bit_drop_bit_eq by simp
  next
    case False
    then have "n + 1 < LENGTH(16)" "\<not> bit z (15 + (n + 1))" for z :: "16 word"
      using n bit_imp_le_length [of z "15 + (n + 1)"] by auto
    then show ?thesis using e [of "n + 1"] unfolding bit_or_iff bit_drop_bit_eq o_def bit_push_bit_iff by simp
  qed
qed

lemma checksum_step_inject:
  assumes "checksum_step v c = checksum_step v' c'" and "v = v' \<or> c = c'"
  shows "v = v' \<and> c = c'"
proof -
  have "v XOR c = v' XOR c'" using assms(1) unfolding checksum_step_def Let_def by (rule rotate_inject)
  moreover have "x XOR (x XOR y) = y" "(x XOR y) XOR y = x" for x y :: "16 word"
    by (simp_all add: xor.assoc [symmetric] xor.assoc)
  ultimately show ?thesis using assms(2) by metis
qed

lemma checksum_fold_inject: "fold checksum_step vs c = fold checksum_step vs c' \<Longrightarrow> c = c'"
proof (induction vs arbitrary: c c')
  case (Cons v vs)
  then have "checksum_step v c = checksum_step v c'" by simp
  then show ?case using checksum_step_inject by blast
qed simp

text \<open>
  The checksum of the EEPROM detects every change that is confined to one of its 63 words
  of two bytes, so in particular every change of one byte.
\<close>

lemma checksum_detects:
  assumes "length e = 128" "length e' = 128" "k < 63" "word_at e k \<noteq> word_at e' k"
    "\<forall>j < 63. j \<noteq> k \<longrightarrow> word_at e j = word_at e' j"
  shows "\<exists>c c'. ft2232_checksum e EEPROM_SIZE = Some c \<and> ft2232_checksum e' EEPROM_SIZE = Some c' \<and> c \<noteq> c'"
proof -
  have sp: "[0..<63] = [0..<k] @ k # [Suc k..<63]"
    using assms(3) upt_add_eq_append [of 0 k "63 - k"] by (simp add: upt_conv_Cons)
  have pre: "map (word_at e) [0..<k] = map (word_at e') [0..<k]" and
      post: "map (word_at e) [Suc k..<63] = map (word_at e') [Suc k..<63]"
    using assms(3,5) by auto
  have "checksum_of e \<noteq> checksum_of e'"
  proof
    assume "checksum_of e = checksum_of e'"
    then have "checksum_step (word_at e k) (fold checksum_step (map (word_at e') [0..<k]) 0xAAAA) =
        checksum_step (word_at e' k) (fold checksum_step (map (word_at e') [0..<k]) 0xAAAA)"
      unfolding checksum_of_def sp using pre post
      by (auto dest: checksum_fold_inject)
    then show False using assms(4) checksum_step_inject by blast
  qed
  then show ?thesis using assms(1,2) by (simp add: ft2232_checksum_eq)
qed

text \<open>
  C37: On a chip with a wrong checksum, reading options and writing a part of them give -1 and
  change no chip; a write of the whole area succeeds and leaves a right checksum.
\<close>

theorem bad_checksum:
  assumes "ftdi_laws (fst s)" "ftdi_works (fst s)" "0 \<le> i" "i < 6"
    "\<not> chip_valid (chip (fst s) (slot_serial os i) (fst (snd s)))"
    "0 \<le> st" "0 < len" "st + len \<le> 14" "nat len \<le> length bs"
  shows "\<exists>s'. (\<forall>buff. ReadOptionBufferIndex_40g os i buff st len s = Some (-1, buff, s')) \<and>
     (\<forall>sn. chip (fst s') sn (fst (snd s')) = chip (fst s) sn (fst (snd s))) \<and>
     (if len < 14 then WriteOptionBufferIndex_40g os i bs st len s = Some (-1, s')
      else \<exists>s''. WriteOptionBufferIndex_40g os i bs st len s = Some (0, s'') \<and>
        chip_valid (chip (fst s) (slot_serial os i) (fst (snd s''))))"
proof -
  obtain D d e where s: "s = (D, d, e)" by (cases s) auto
  obtain sn where sn: "v400_boardres_ind2sn os i (replicate 256 0) = Some (0, sn)"
    using slot_sn [OF assms(3,4)] .
  have cs: "cstr sn = slot_serial os i" using ind2sn_zero [OF sn] by simp
  obtain s1 where s1: "sys_init sn s = (0, s1)" using sys_init_works [OF assms(2)] by blast
  have l: "ftdi_laws D" using assms(1) by (simp add: s)
  obtain d1 where d1: "s1 = (D, d1, e)" "opened D d1 = Some (slot_serial os i)"
      "\<And>sn'. chip D sn' d1 = chip D sn' d"
    using sys_init_zero [OF l s1 [unfolded s]] cs by metis
  obtain ret b d2 where r: "ftdi_read_eeprom D d1 = (ret, b, d2)"
    by (cases "ftdi_read_eeprom D d1") auto
  have ret: "0 \<le> ret" using assms(2) r unfolding s ftdi_works_def by (metis fst_conv)
  have "length (replicate OPTION_SIZE_FTDI (0 :: byte)) = 14" by (simp add: OPTION_SIZE_FTDI_def)
  note ro = read_options_eq [OF l d1(2) r this, of e]
  have up: "int_add st len = Some (st + len)" using assms(6-8) by (simp add: int_add_def)
  have bad: "\<not> chip_valid (chip D (slot_serial os i) d1)" using assms(5) d1(3) by (simp add: s)
  let ?s' = "(D, ftdi_deinit D d2, b)"
  have "ReadOptionBufferIndex_40g os i buff st len s = Some (-1, buff, ?s')" for buff
    using sn s1 d1(1) ro ret assms(8) up bad
    by (simp add: ReadOptionBufferIndex_40g_def s deinit_def OPTION_SIZE_FTDI_def)
  moreover have "\<forall>sn. chip D sn (ftdi_deinit D d2) = chip D sn d"
    using ftdi_deinit_chip [OF l] ftdi_read_keeps(1) [OF l r] d1(3) by simp
  moreover have "WriteOptionBufferIndex_40g os i bs st len s = Some (-1, ?s')" if "len < 14"
    using sn s1 d1(1) ro ret assms(8) up bad that
    by (simp add: WriteOptionBufferIndex_40g_def s deinit_def OPTION_SIZE_FTDI_def Let_def)
  moreover have "\<exists>s''. WriteOptionBufferIndex_40g os i bs st len s = Some (0, s'') \<and>
        chip_valid (chip D (slot_serial os i) (fst (snd s'')))" if "\<not> len < 14"
  proof -
    have f: "st = 0" "len = 14" using that assms(6-8) by auto
    obtain s'' where w: "WriteOptionBufferIndex_40g os i bs st len s = Some (0, s'')" "fst s'' = D"
      using Write_40g_works [OF assms(1-4) disjI2 [OF conjI [OF f]] assms(6-9), of os]
      unfolding s by force
    have lo: "length (blit (ftdi_options os i (D, d, e)) (nat st) (take (nat len) bs)) = 14"
      using chip_length [OF l] f assms(9) by (simp add: ftdi_options_def chip_options_def ftdi_sizes)
    obtain d4 e4 where "s'' = (D, d4, e4)" "chip D (slot_serial os i) d4 =
        sealed (chip D (slot_serial os i) d) (blit (ftdi_options os i (D, d, e)) (nat st) (take (nat len) bs))"
      using Write_40g_zero [OF l w(1) [unfolded s] assms(6-9)] by auto
    then show ?thesis
      using w(1) sealed_props(3) [OF chip_length [OF l] lo] by (intro exI [of _ s'']) simp
  qed
  ultimately show ?thesis by (intro exI [of _ ?s']) (simp add: s)
qed

theorem bad_checksum_witness:
  "\<exists>s'. WriteOptionBufferIndex_40g (os_sim [66]) 1 [5] 3 1 (ftdi_sim_state (replicate 128 1)) = Some (-1, s')"
proof -
  have "ftdi_laws (fst (ftdi_sim_state (replicate 128 1)))" "ftdi_works (fst (ftdi_sim_state (replicate 128 1)))"
    by (simp_all add: ftdi_sim_state_def ftdi_sim_laws ftdi_sim_works)
  moreover have "checksum_of (replicate 128 1) \<noteq> push_bit 8 (ucast (1 :: byte)) OR ucast (1 :: byte)"
    by code_simp
  then have "\<not> chip_valid (chip (fst (ftdi_sim_state (replicate 128 1))) (slot_serial (os_sim [66]) 1)
      (fst (snd (ftdi_sim_state (replicate 128 1)))))"
    by (simp add: ftdi_sim_state_def ftdi_sim_def chip_valid_def)
  ultimately show ?thesis
    using bad_checksum [of "ftdi_sim_state (replicate 128 1)" 1 "os_sim [66]" 3 1 "[5]"] by auto
qed

subsection \<open>The list of all devices\<close>

text \<open>
  \<^verbatim>\<open>FindAllSN\<close>, which keeps the serial number of the first device; \<open>devs\<close> is what
  \<^verbatim>\<open>ftdi_usb_get_strings\<close> returns and stores for each device on the list. The program never calls it.
\<close>

fun FindAllSN_loop :: "(int \<times> bytes) list \<Rightarrow> bool \<Rightarrow> bytes \<Rightarrow> (int \<times> bytes) option" where
  "FindAllSN_loop [] bIsTest testSN = Some (0, testSN)"
| "FindAllSN_loop ((ret, serialno) # devs) bIsTest testSN =
     (if ret < 0 then Some (3, testSN)
      else if 0 \<notin> set serialno then None
      else if \<not> bIsTest then do {
        testSN \<leftarrow> memcpy testSN 0 serialno 0 (strlen serialno);
        FindAllSN_loop devs True testSN
      }
      else FindAllSN_loop devs bIsTest testSN)"

definition FindAllSN :: "int \<Rightarrow> int \<Rightarrow> (int \<times> bytes) list \<Rightarrow> bytes \<Rightarrow> (int \<times> bytes) option" where
  "FindAllSN initialized found devs testSN =
     (if initialized < 0 then Some (1, testSN)
      else if found < 0 then Some (2, testSN)
      else FindAllSN_loop devs False testSN)"

lemma FindAllSN_loop_True:
  "\<forall>(ret, sn) \<in> set devs. 0 \<in> set sn \<Longrightarrow>
     FindAllSN_loop devs True testSN = Some (if \<exists>(ret, sn) \<in> set devs. ret < 0 then 3 else 0, testSN)"
  by (induction devs True testSN rule: FindAllSN_loop.induct) auto

text \<open>The terminator is not copied: a shorter serial number leaves the end of the one before.\<close>

lemma FindAllSN_first:
  assumes "0 \<le> initialized" "0 \<le> found" "0 \<le> ret" "0 \<in> set sn" "length sn = 128" "length testSN = 256"
    "\<forall>(ret, sn) \<in> set devs. 0 \<le> ret \<and> 0 \<in> set sn"
  shows "FindAllSN initialized found ((ret, sn) # devs) testSN = Some (0, blit testSN 0 (cstr sn))"
proof -
  have n: "strlen sn \<le> 128" using length_takeWhile_le [of _ sn] assms(5) by (simp add: strlen_def cstr_def)
  have t: "take (strlen sn) sn = cstr sn" by (simp add: strlen_def cstr_def takeWhile_eq_take [symmetric])
  have "FindAllSN_loop devs True (blit testSN 0 (cstr sn)) = Some (0, blit testSN 0 (cstr sn))"
    using assms(7) by (subst FindAllSN_loop_True) force+
  then show ?thesis using assms(1-6) n t by (simp add: FindAllSN_def memcpy_def)
qed

end
