(* ===== verification/NetClient.thy ===== *)
theory NetClient
  imports OptionStore BoardRes
begin

text \<open>
  The options of the modules that are reached over their own network interface
  (\<^verbatim>\<open>recv_timeout\<close>, the \<^verbatim>\<open>_netclient_cmd\<close> functions, \<^verbatim>\<open>CreateModuleSocketClient\<close>,
  \<^verbatim>\<open>ReadOptionBufferIndex\<close> and \<^verbatim>\<open>WriteOptionBufferIndex\<close> of \<^verbatim>\<open>common/VControlServer.cpp\<close>).
  The program broadcasts a text command on the interface and reads hexadecimal text back.
  The socket calls and the module behind them are the record \<open>modnet\<close>; its last three fields
  are observers for the statement of its laws.
\<close>

definition SIZE_EEPRom :: nat where "SIZE_EEPRom = 4096"
definition MODULE_MAXSIZE :: nat where "MODULE_MAXSIZE = 255"
definition MILLION :: int where "MILLION = 1000000"

lemmas net_sizes = SIZE_EEPRom_def MODULE_MAXSIZE_def

record 'd modnet =
  mn_socket :: "'d \<Rightarrow> int \<times> 'd"
  mn_bind :: "int \<Rightarrow> string \<Rightarrow> 'd \<Rightarrow> 'd"      \<comment> \<open>\<^verbatim>\<open>SO_BROADCAST\<close> and \<^verbatim>\<open>SO_BINDTODEVICE\<close>\<close>
  mn_sendto :: "int \<Rightarrow> bytes \<Rightarrow> 'd \<Rightarrow> int \<times> 'd"
  mn_select :: "int \<Rightarrow> int \<times> int \<Rightarrow> 'd \<Rightarrow> bool \<times> 'd"
  mn_recv :: "int \<Rightarrow> nat \<Rightarrow> 'd \<Rightarrow> int \<times> bytes \<times> 'd"
  mn_close :: "int \<Rightarrow> 'd \<Rightarrow> 'd"
  mn_image :: "string \<Rightarrow> 'd \<Rightarrow> bytes"         \<comment> \<open>options of the module behind an interface\<close>
  mn_bound :: "int \<Rightarrow> 'd \<Rightarrow> string option"    \<comment> \<open>interface of a socket\<close>
  mn_answer :: "int \<Rightarrow> 'd \<Rightarrow> bytes"           \<comment> \<open>datagram that waits on a socket\<close>

text \<open>The socket calls, the network and the global \<^verbatim>\<open>g_szArg_netif\<close>.\<close>

type_synonym 'd mod_state = "'d modnet \<times> 'd \<times> string"

subsection \<open>Hexadecimal text\<close>

definition hex_digit :: "byte \<Rightarrow> byte" where
  "hex_digit n = (if n < 10 then 48 + n else 55 + n)"

definition hex2 :: "byte \<Rightarrow> bytes" where      \<comment> \<open>\<^verbatim>\<open>%02X\<close>\<close>
  "hex2 b = [hex_digit (b div 16), hex_digit (b mod 16)]"

definition is_hex :: "byte \<Rightarrow> bool" where
  "is_hex c \<longleftrightarrow> (48 \<le> c \<and> c \<le> 57) \<or> (97 \<le> c \<and> c \<le> 102) \<or> (65 \<le> c \<and> c \<le> 70)"

definition hex_val :: "byte \<Rightarrow> byte" where
  "hex_val c = (if c \<le> 57 then c - 48 else if c \<le> 70 then c - 55 else c - 87)"

text \<open>\<^verbatim>\<open>(UCHAR)iValue\<close> after \<^verbatim>\<open>sscanf(s, "%x", &iValue)\<close> on digits only, with 0 before it.\<close>

definition sscanf_x :: "bytes \<Rightarrow> byte" where
  "sscanf_x s = foldl (\<lambda>v c. 16 * v + hex_val c) 0 (takeWhile is_hex (cstr s))"

definition DebugPrintfArray :: "bytes \<Rightarrow> int \<Rightarrow> unit option" where
  "DebugPrintfArray arr iLen = (if iLen \<le> int (length arr) then Some () else None)"

subsection \<open>Commands\<close>

definition recv_timeout ::
  "int \<Rightarrow> bytes \<Rightarrow> nat \<Rightarrow> int \<Rightarrow> 'd mod_state \<Rightarrow> (int \<times> bytes \<times> 'd mod_state) option" where
  "recv_timeout skClient buff size' to_usecs = (\<lambda>(M, d, netif).
     let recv_wait = (if to_usecs \<le> 0 then (0, 0) else (to_usecs div MILLION, to_usecs mod MILLION)) in
     case mn_select M skClient recv_wait d of (ready, d) \<Rightarrow>
       if \<not> ready then Some (-1, buff, M, d, netif)
       else case mn_recv M skClient size' d of (recv_size, bs, d) \<Rightarrow> do {
         buff \<leftarrow> memcpy buff 0 bs 0 (nat recv_size);
         Some (recv_size, buff, M, d, netif)
       })"

definition netclient_cmd_opt ::
  "int \<Rightarrow> bytes option \<Rightarrow> nat \<Rightarrow> bytes option \<Rightarrow> bool \<Rightarrow> 'd mod_state \<Rightarrow>
     (int \<times> bytes option \<times> 'd mod_state) option" where
  "netclient_cmd_opt skClient cmd size_send temp_buff bIsWrite s =
     (case temp_buff of None \<Rightarrow> Some (15, None, s) | Some temp_buff \<Rightarrow> do {
        temp_buff \<leftarrow> store temp_buff 0 0;
        (case cmd of None \<Rightarrow> Some (20, Some temp_buff, s) | Some cmd \<Rightarrow> do {
           msg \<leftarrow> memcpy (replicate size_send 0) 0 cmd 0 size_send;
           (case s of (M, d, netif) \<Rightarrow>
            case mn_sendto M skClient msg d of (size_send, d) \<Rightarrow>
              if size_send \<le> 0 then Some (16, Some temp_buff, M, d, netif)
              else do {
                (size_recv, temp_buff, s) \<leftarrow> recv_timeout skClient temp_buff 4095
                   (if bIsWrite then MILLION * 60 else MILLION) (M, d, netif);
                (if size_recv \<le> 0 then Some (17, Some temp_buff, s)
                 else do {
                   temp_buff \<leftarrow> store temp_buff (nat size_recv) 0;
                   err \<leftarrow> memcmp0 temp_buff (str ''ERR:'') 4;
                   Some (if err then 18 else 0, Some temp_buff, s)
                 })
              })
         })
      })"

definition netclient_cmd_ReadEEPRom ::
  "int \<Rightarrow> bytes option \<Rightarrow> 'd mod_state \<Rightarrow> (int \<times> bytes option \<times> 'd mod_state) option" where
  "netclient_cmd_ReadEEPRom skClient pBuff s =
     (case pBuff of None \<Rightarrow> Some (15, None, s) | Some pBuff \<Rightarrow> do {
        let cmd = replicate 1024 0;
        pBuff \<leftarrow> store pBuff 0 0;
        cmd \<leftarrow> memcpy cmd 0 (str ''opthex'' @ [0]) 0 7;
        let size_send = strlen cmd;
        cmd \<leftarrow> store cmd size_send 0;
        netclient_cmd_opt skClient (Some cmd) size_send (Some pBuff) False s
      })"

fun hex_fill :: "bytes \<Rightarrow> bytes \<Rightarrow> nat \<Rightarrow> bytes option" where
  "hex_fill buff pBuff 0 = Some buff"
| "hex_fill buff pBuff (Suc i) = do {
     buff \<leftarrow> hex_fill buff pBuff i;
     b \<leftarrow> load pBuff i;
     memcpy buff (i * 2) (hex2 b @ [0]) 0 3
   }"

definition netclient_cmd_WriteEEPRom ::
  "int \<Rightarrow> int \<Rightarrow> int \<Rightarrow> bytes option \<Rightarrow> 'd mod_state \<Rightarrow> (int \<times> 'd mod_state) option" where
  "netclient_cmd_WriteEEPRom skClient iStart iLen pBuff s =
     (case pBuff of None \<Rightarrow> Some (15, s) | Some pBuff \<Rightarrow> do {
        _ \<leftarrow> DebugPrintfArray pBuff iLen;
        let cmd = replicate 1024 0;
        buff \<leftarrow> hex_fill (replicate (MODULE_MAXSIZE * 2) 0) pBuff (nat iLen);
        buff \<leftarrow> (if iLen < 0 then None else store buff (nat iLen * 2) 0);
        let text = str ''optfill --begin'' @ [32] @ str (dec iStart) @ [32] @ cstr buff;
        cmd \<leftarrow> memcpy cmd 0 (text @ [0]) 0 (length text + 1);
        let size_send = strlen cmd;
        cmd \<leftarrow> store cmd size_send 0;
        (iRet, _, s) \<leftarrow> netclient_cmd_opt skClient (Some cmd) size_send (Some (replicate SIZE_EEPRom 0)) True s;
        Some (iRet, s)
      })"

text \<open>Nothing in the \<^verbatim>\<open>try\<close> block throws, so the last result is 0.\<close>

definition CreateModuleSocketClient ::
  "os \<Rightarrow> 'd mod_state \<Rightarrow> (int \<times> int \<times> 'd mod_state) option" where
  "CreateModuleSocketClient os = (\<lambda>(M, d, netif).
     if netif = [] then Some (11, -1, M, d, netif)
     else do {
       temp_buff \<leftarrow> sprintf 1024 (''/sys/class/net/'' @ netif);
       (if \<not> os_access os temp_buff then Some (12, -1, M, d, netif)
        else case mn_socket M d of (skClient, d) \<Rightarrow>
          if skClient < 0 then Some (13, skClient, M, d, netif)
          else Some (0, skClient, M, mn_bind M skClient netif d, netif))
     })"

definition close_client :: "int \<Rightarrow> 'd mod_state \<Rightarrow> 'd mod_state" where
  "close_client skClient = (\<lambda>(M, d, netif).
     (M, if 0 < skClient then mn_close M skClient d else d, netif))"

subsection \<open>Reading and writing\<close>

text \<open>
  The hexadecimal digits of the answer are moved to its front, then taken two by two. The
  length of the string is computed anew in each pass, as the condition of the loop does.
\<close>

function hex_filter :: "bytes \<Rightarrow> nat \<Rightarrow> nat \<Rightarrow> (bytes \<times> nat) option" where
  "hex_filter pBuff i j =
     (if i < strlen pBuff then do {
        c \<leftarrow> load pBuff i;
        (if is_hex c then
           (if j < length pBuff then hex_filter (pBuff[j := c]) (i + 1) (j + 1) else None)
         else hex_filter pBuff (i + 1) j)
      }
      else Some (pBuff, j))"
  by auto
termination
proof (relation "measure (\<lambda>(p, i, _). length p - i)", goal_cases)
  case (2 p i j c)
  then show ?case using strlen_le [of p] by simp
next
  case (3 p i j c)
  then show ?case using strlen_le [of p] by simp
qed simp

declare hex_filter.simps [simp del]

function hex_decode :: "bytes \<Rightarrow> nat \<Rightarrow> nat \<Rightarrow> bytes \<Rightarrow> nat \<Rightarrow> bytes option" where
  "hex_decode pBuff n i temp_data k =
     (if i < n then do {
        temp_small \<leftarrow> memcpy (replicate 3 0) 0 pBuff i 2;
        temp_data \<leftarrow> store temp_data k (sscanf_x temp_small);
        hex_decode pBuff n (i + 2) temp_data (k + 1)
      }
      else Some temp_data)"
  by auto
termination by (relation "measure (\<lambda>(_, n, i, _). n - i)") auto

declare hex_decode.simps [simp del]

definition ReadOptionBufferIndex ::
  "os \<Rightarrow> int \<Rightarrow> bytes \<Rightarrow> int \<Rightarrow> int \<Rightarrow> 'd mod_state \<Rightarrow> (int \<times> bytes \<times> 'd mod_state) option" where
  "ReadOptionBufferIndex os index buff start iLen = (\<lambda>(M, d, _). do {
     (iRet, netif, _) \<leftarrow> v400_boardres_ind2netif os index;
     let s = (M, d, netif);
     (if iRet \<noteq> 0 then Some (iRet, buff, s)
      else if netif = [] then Some (11, buff, s)
      else do {
        (iRet, skClient, s) \<leftarrow> CreateModuleSocketClient os s;
        (if iRet \<noteq> 0 then Some (iRet, buff, s)
         else do {
           (iRet, pBuff, s) \<leftarrow> netclient_cmd_ReadEEPRom skClient (Some (replicate SIZE_EEPRom 0)) s;
           pBuff \<leftarrow> pBuff;
           let s = close_client skClient s;
           (pBuff, j) \<leftarrow> hex_filter pBuff 0 0;
           pBuff \<leftarrow> store pBuff j 0;
           temp_data \<leftarrow> hex_decode pBuff (if j \<le> MODULE_MAXSIZE * 2 then j else MODULE_MAXSIZE * 2) 0
              (replicate MODULE_MAXSIZE 0) 0;
           upto \<leftarrow> int_add start iLen;
           buff \<leftarrow> (if upto \<le> int MODULE_MAXSIZE then do {
                      buff \<leftarrow> memset buff 0 0 MODULE_MAXSIZE;
                      memcpy_int buff 0 temp_data start iLen
                    }
                    else Some buff);
           _ \<leftarrow> DebugPrintfArray buff iLen;
           Some (iRet, buff, s)
         })
      })
   })"

definition WriteOptionBufferIndex ::
  "os \<Rightarrow> int \<Rightarrow> bytes \<Rightarrow> int \<Rightarrow> int \<Rightarrow> 'd mod_state \<Rightarrow> (int \<times> 'd mod_state) option" where
  "WriteOptionBufferIndex os index pBuff start iLen = (\<lambda>(M, d, _). do {
     (iRet, netif, _) \<leftarrow> v400_boardres_ind2netif os index;
     let s = (M, d, netif);
     (if iRet \<noteq> 0 then Some (iRet, s)
      else if netif = [] then Some (11, s)
      else do {
        (iRet, skClient, s) \<leftarrow> CreateModuleSocketClient os s;
        (if iRet \<noteq> 0 then Some (iRet, s)
         else do {
           (iRet, s) \<leftarrow> netclient_cmd_WriteEEPRom skClient start iLen (Some pBuff) s;
           Some (iRet, close_client skClient s)
         })
      })
   })"

subsection \<open>Hexadecimal text, both ways\<close>

definition hex_text :: "bytes \<Rightarrow> bytes" where
  "hex_text bs = concat (map hex2 bs)"

fun unhex :: "bytes \<Rightarrow> bytes" where
  "unhex [] = []"
| "unhex [a] = [hex_val a]"
| "unhex (a # b # cs) = (16 * hex_val a + hex_val b) # unhex cs"

lemma hex_digit_props: "n < 16 \<Longrightarrow> is_hex (hex_digit n) \<and> hex_val (hex_digit n) = n"
proof -
  assume "n < 16"
  then have "unat n < 16" by (simp add: word_less_nat_alt)
  then have "n \<in> of_nat ` {0..<16}" by (intro image_eqI [of _ _ "unat n"]) auto
  also have "of_nat ` {0..<16} = {0, 1, 2, 3, 4, 5, 6, 7, 8, 9, 10, 11, 12, 13, 14, 15 :: byte}"
    by (simp add: atLeastLessThan_nat_numeral insert_commute)
  finally show ?thesis by (auto simp: is_hex_def hex_digit_def hex_val_def)
qed

lemma nibbles: "b div 16 < 16" "b mod 16 < 16" "16 * (b div 16) + b mod 16 = b" for b :: byte
proof -
  have "unat b < 256" using unsigned_less [of b] by simp
  then show "b div 16 < 16" by (simp add: word_less_nat_alt unat_div)
  show "b mod 16 < 16" by (simp add: word_less_nat_alt unat_mod)
  show "16 * (b div 16) + b mod 16 = b" by (metis mult.commute div_mult_mod_eq)
qed

lemma hex2_props: "\<forall>c \<in> set (hex2 b). is_hex c" "length (hex2 b) = 2"
  using hex_digit_props nibbles by (auto simp: hex2_def)

lemma hex_text_props: "\<forall>c \<in> set (hex_text bs). is_hex c" "length (hex_text bs) = 2 * length bs"
  using hex2_props by (induction bs) (auto simp: hex_text_def)

lemma is_hex_not_nul: "is_hex c \<Longrightarrow> c \<noteq> 0"
  by (auto simp: is_hex_def)

lemma unhex_hex_text [simp]: "unhex (hex_text bs) = bs"
  by (induction bs) (simp_all add: hex_text_def hex2_def hex_digit_props nibbles)

lemma hex_text_append: "hex_text (xs @ ys) = hex_text xs @ hex_text ys"
  by (simp add: hex_text_def)

lemma length_unhex: "length (unhex h) = (length h + 1) div 2"
  by (induction h rule: unhex.induct) auto

subsection \<open>What the loops compute\<close>

lemma hex_fill_eq:
  "n \<le> length bs \<Longrightarrow> 2 * n < N \<Longrightarrow>
   hex_fill (replicate N 0) bs n = Some (hex_text (take n bs) @ replicate (N - 2 * n) 0)"
proof (induction n)
  case (Suc n)
  have t: "take (Suc n) bs = take n bs @ [bs ! n]" using Suc.prems by (simp add: take_Suc_conv_app_nth)
  have l: "length (hex_text (take n bs)) = n * 2" using Suc.prems by (simp add: hex_text_props)
  have r: "replicate (N - 2 * n) 0 = (0 :: byte) # 0 # 0 # replicate (N - 2 * n - 3) 0"
    using Suc.prems by (simp add: numeral_3_eq_3 replicate_Suc [symmetric] del: replicate_Suc)
  obtain x y where h: "hex2 (bs ! n) = [x, y]" by (simp add: hex2_def)
  have "memcpy (hex_text (take n bs) @ replicate (N - 2 * n) 0) (n * 2) (hex2 (bs ! n) @ [0]) 0 3 =
      Some (hex_text (take n bs) @ hex2 (bs ! n) @ 0 # replicate (N - 2 * n - 3) 0)"
    using l Suc.prems unfolding h by (simp add: memcpy_def blit_def r)
  moreover have "0 # replicate (N - 2 * n - 3) 0 = replicate (N - 2 * Suc n) (0 :: byte)"
    using Suc.prems by (simp add: replicate_Suc [symmetric] del: replicate_Suc)
  moreover have "hex_text [bs ! n] = hex2 (bs ! n)" by (simp add: hex_text_def)
  ultimately show ?case using Suc by (simp add: t hex_text_append cmem)
qed (simp add: hex_text_def)

lemma hex_fill_short: "length bs < n \<Longrightarrow> hex_fill buff bs n = None"
proof (induction n)
  case (Suc n)
  show ?case
  proof (cases "length bs < n")
    case False
    then have "load bs n = None" using Suc.prems by (simp add: load_None)
    then show ?thesis by (cases "hex_fill buff bs n") simp_all
  qed (use Suc in simp)
qed simp

lemma hex_fill_length: "hex_fill buff bs n = Some b \<Longrightarrow> length b = length buff"
  by (induction n arbitrary: b) (auto split: bind_splits dest!: memcpy_length)

lemma hex_fill_long:
  assumes "length buff \<le> 2 * n" "0 < n"
  shows "hex_fill buff bs n = None"
proof -
  obtain m where n: "n = Suc m" using assms(2) by (cases n) auto
  have "memcpy b (m * 2) (hex2 c @ [0]) 0 3 = None" if "length b = length buff" for b c
    using that assms(1) by (simp add: memcpy_def n)
  then show ?thesis
    unfolding n by (auto split: bind_splits dest: hex_fill_length)
qed

lemma strlen_append_nul: "0 \<notin> set xs \<Longrightarrow> strlen (xs @ 0 # ys) = length xs"
  by (simp add: strlen_def cstr_append_nul)

lemma hex_filter_eq:
  assumes "0 \<notin> set xs" "0 \<notin> set ys" "j \<le> length ys"
  shows "\<exists>p. hex_filter (ys @ xs @ 0 # zs) (length ys) j = Some (p, j + length (filter is_hex xs)) \<and>
     take (j + length (filter is_hex xs)) p = take j ys @ filter is_hex xs \<and>
     length p = length (ys @ xs @ 0 # zs)"
  using assms
proof (induction xs arbitrary: ys j)
  case Nil
  then have "strlen (ys @ [] @ 0 # zs) = length ys" by (simp add: strlen_append_nul)
  then show ?case by (subst hex_filter.simps) (use Nil in simp)
next
  case (Cons x xs)
  have sl: "strlen (ys @ x # xs @ 0 # zs) = length ys + Suc (length xs)"
    using Cons.prems strlen_append_nul [of "ys @ x # xs" zs] by simp
  have ld: "load (ys @ x # xs @ 0 # zs) (length ys) = Some x" by (simp add: load_def)
  show ?case
  proof (cases "is_hex x")
    case True
    let ?ys = "(ys @ [x])[j := x]"
    have u: "(ys @ (x # xs) @ 0 # zs)[j := x] = ?ys @ xs @ 0 # zs"
      using Cons.prems(3) list_update_append [of "ys @ [x]" "xs @ 0 # zs" j x] by simp
    have "hex_filter (ys @ (x # xs) @ 0 # zs) (length ys) j =
        hex_filter (?ys @ xs @ 0 # zs) (length ?ys) (j + 1)"
      using Cons.prems(3) True unfolding u [symmetric]
      by (subst hex_filter.simps) (simp add: sl ld del: list_update_append)
    moreover have "0 \<notin> set ?ys"
      using Cons.prems set_update_subset_insert [of "ys @ [x]" j x] by auto
    moreover have "take (j + 1) ?ys = take j ys @ [x]"
      using Cons.prems(3) by (simp add: take_Suc_conv_app_nth)
    ultimately show ?thesis
      using Cons.IH [of ?ys "j + 1"] Cons.prems True by (auto simp del: list_update_append)
  next
    case False
    have "hex_filter (ys @ (x # xs) @ 0 # zs) (length ys) j =
        hex_filter ((ys @ [x]) @ xs @ 0 # zs) (length (ys @ [x])) j"
      using False by (subst hex_filter.simps) (simp add: sl ld)
    then show ?thesis using Cons.IH [of "ys @ [x]" j] Cons.prems False by auto
  qed
qed

lemma sscanf_x_pair: "is_hex a \<Longrightarrow> is_hex b \<Longrightarrow> sscanf_x [a, b, 0] = 16 * hex_val a + hex_val b"
  by (simp add: sscanf_x_def cstr_def is_hex_not_nul)

lemma sscanf_x_single: "is_hex a \<Longrightarrow> sscanf_x [a, 0, 0] = hex_val a"
  by (simp add: sscanf_x_def cstr_def is_hex_not_nul)

lemma hex_decode_eq:
  assumes "\<forall>c \<in> set h. is_hex c" "take (length h) p = h" "length h < length p" "p ! length h = 0 \<or> even (length h)"
    "i = 2 * k" "k + length (unhex (drop i h)) \<le> length t"
  shows "hex_decode p (length h) i t k = Some (blit t k (unhex (drop i h)))"
  using assms(5,6)
proof (induction "length h - i" arbitrary: i k t rule: less_induct)
  case less
  have ph: "p ! m = h ! m" if "m < length h" for m using assms(2) that by (metis nth_take)
  show ?case
  proof (cases "i < length h")
    case False
    then show ?thesis by (subst hex_decode.simps) simp
  next
    case True
    have small: "memcpy (replicate 3 0) 0 p i 2 = Some [p ! i, p ! (i + 1), 0]"
    proof -
      have "take 2 (drop i p) = [p ! i, p ! (i + 1)]"
        using True assms(3) by (simp add: numeral_2_eq_2 take_Suc_conv_app_nth)
      then show ?thesis using True assms(3) by (simp add: memcpy_def blit_def numeral_3_eq_3 numeral_2_eq_2)
    qed
    have d: "drop i h = h ! i # drop (i + 1) h" using True by (simp add: Cons_nth_drop_Suc)
    have hi: "is_hex (h ! i)" using True assms(1) by simp
    have kt: "k < length t" using less(3) d by (cases "drop (i + 1) h") auto
    have "hex_decode p (length h) (i + 2) (t[k := v]) (k + 1) = Some (blit (t[k := v]) (k + 1) (unhex (drop (i + 2) h)))" for v
    proof -
      have "k + 1 + length (unhex (drop (i + 2) h)) \<le> length t"
        using less(3) True by (simp add: length_unhex) presburger
      then show ?thesis using less(2) True by (intro less(1)) auto
    qed
    then have step: "hex_decode p (length h) i t k =
        Some (blit t k (sscanf_x [p ! i, p ! (i + 1), 0] # unhex (drop (i + 2) h)))"
      using True kt small blit_Cons [OF kt] by (subst hex_decode.simps) (simp add: cmem blit_def upd_conv_take_nth_drop)
    show ?thesis
    proof (cases "i + 1 < length h")
      case True
      then have "drop i h = h ! i # h ! (i + 1) # drop (i + 2) h"
        unfolding d by (simp add: Cons_nth_drop_Suc)
      moreover have "is_hex (h ! (i + 1))" using True assms(1) by simp
      ultimately show ?thesis using step hi True by (simp add: ph sscanf_x_pair)
    next
      case False
      then have e: "i + 1 = length h" using \<open>i < length h\<close> by simp
      then have "odd (length h)" using less(2) by presburger
      then have "p ! (i + 1) = 0" using assms(4) e by simp
      then show ?thesis using step hi e \<open>i < length h\<close> d by (simp add: ph sscanf_x_single)
    qed
  qed
qed

subsection \<open>The command that is sent\<close>

definition optfill_cmd :: "int \<Rightarrow> bytes \<Rightarrow> bytes" where
  "optfill_cmd st bs = str ''optfill --begin'' @ [32] @ str (dec st) @ [32] @ hex_text bs"

lemma WriteEEPRom_eq:
  assumes "-(2 ^ 31) \<le> st" "st < 2 ^ 31" "0 \<le> iLen" "iLen < 255" "nat iLen \<le> length bs"
  shows "netclient_cmd_WriteEEPRom sk st iLen (Some bs) s = (let cmd = optfill_cmd st (take (nat iLen) bs) in
     do {
       (iRet, _, s) \<leftarrow> netclient_cmd_opt sk (Some (cmd @ replicate (1024 - length cmd) 0)) (length cmd)
          (Some (replicate SIZE_EEPRom 0)) True s;
       Some (iRet, s)
     })"
proof -
  define h where "h = hex_text (take (nat iLen) bs)"
  define cmd where "cmd = optfill_cmd st (take (nat iLen) bs)"
  have lh: "length h = 2 * nat iLen" using assms(5) by (simp add: h_def hex_text_props)
  have h0: "0 \<notin> set h" using hex_text_props(1) is_hex_not_nul unfolding h_def by blast
  have hf: "hex_fill (replicate 510 0) bs (nat iLen) = Some (h @ replicate (510 - 2 * nat iLen) 0)"
    using assms by (simp add: hex_fill_eq h_def)
  have z: "replicate (510 - 2 * nat iLen) 0 = (0 :: byte) # replicate (509 - 2 * nat iLen) 0"
    using assms(4) by (simp add: replicate_Suc [symmetric] del: replicate_Suc)
  have st: "store (h @ replicate (510 - 2 * nat iLen) 0) (nat iLen * 2) 0 =
      Some (h @ replicate (510 - 2 * nat iLen) 0)"
    unfolding store_def z using lh assms(4) by (simp add: list_update_append mult.commute)
  have c: "cstr (h @ replicate (510 - 2 * nat iLen) 0) = h"
    unfolding z by (rule cstr_append_nul [OF h0])
  have cmd: "cmd = str ''optfill --begin'' @ [32] @ str (dec st) @ [32] @ h"
    by (simp add: cmd_def optfill_cmd_def h_def)
  have lc: "length cmd < 600" using lh assms(4) str_dec_props(2) [OF assms(1,2)] by (simp add: cmd)
  have c0: "0 \<notin> set cmd" using h0 str_dec_props(1) [OF assms(1,2)] by (auto simp: cmd str_def)
  have m: "memcpy (replicate 1024 0) 0 (cmd @ [0]) 0 (length cmd + 1) = Some (cmd @ replicate (1024 - length cmd) 0)"
  proof -
    have "replicate (1024 - length cmd) 0 = (0 :: byte) # replicate (1023 - length cmd) 0"
      using lc by (simp add: replicate_Suc [symmetric] del: replicate_Suc)
    then show ?thesis using lc by (simp add: memcpy_def blit_def)
  qed
  have s: "strlen (cmd @ replicate (1024 - length cmd) 0) = length cmd"
    "store (cmd @ replicate (1024 - length cmd) 0) (length cmd) 0 = Some (cmd @ replicate (1024 - length cmd) 0)"
  proof -
    obtain n where n: "1024 - length cmd = Suc n" using lc by (cases "1024 - length cmd") auto
    show "strlen (cmd @ replicate (1024 - length cmd) 0) = length cmd"
      unfolding n by (simp add: strlen_append_nul [OF c0])
    show "store (cmd @ replicate (1024 - length cmd) 0) (length cmd) 0 = Some (cmd @ replicate (1024 - length cmd) 0)"
      unfolding n by (simp add: store_def list_update_append)
  qed
  have "DebugPrintfArray bs iLen = Some ()" using assms(3,5) by (simp add: DebugPrintfArray_def)
  moreover have "MODULE_MAXSIZE * 2 = 510" "(iLen < 0) = False" using assms(3) by (simp_all add: net_sizes)
  ultimately show ?thesis
    by (simp only: netclient_cmd_WriteEEPRom_def option.case Let_def Option.bind.bind_lunit if_False
        hf st c cmd [symmetric] m s cmd_def [symmetric])
qed

lemma ReadEEPRom_eq:
  "netclient_cmd_ReadEEPRom sk (Some (replicate SIZE_EEPRom 0)) s =
     netclient_cmd_opt sk (Some (str ''opthex'' @ replicate 1018 0)) 6 (Some (replicate SIZE_EEPRom 0)) False s"
proof -
  have r: "replicate 1018 0 = (0 :: byte) # replicate 1017 0" by (simp add: numeral_eq_Suc)
  have "memcpy (replicate 1024 0) 0 (str ''opthex'' @ [0]) 0 7 = Some (str ''opthex'' @ replicate 1018 0)"
    by (simp add: memcpy_def blit_def r)
  moreover have "strlen (str ''opthex'' @ replicate 1018 0) = 6"
    unfolding r by (subst strlen_append_nul) (simp_all add: str_def)
  moreover have "store (str ''opthex'' @ replicate 1018 0) 6 0 = Some (str ''opthex'' @ replicate 1018 0)"
    unfolding r by (simp add: store_def list_update_append)
  moreover have "store (replicate SIZE_EEPRom 0) 0 0 = Some (replicate SIZE_EEPRom (0 :: byte))"
    by (simp add: store_def net_sizes list_update_same_conv)
  ultimately show ?thesis by (simp add: netclient_cmd_ReadEEPRom_def)
qed

subsection \<open>Modules\<close>

text \<open>
  What the program relies on: a socket that was bound to an interface reaches the module behind
  it and no other; the module answers \<^verbatim>\<open>opthex\<close> with a text whose hexadecimal digits spell its
  255 bytes of options, or with an error; it executes \<^verbatim>\<open>optfill\<close> or answers with an error.
\<close>

definition opthex_reply :: "bytes \<Rightarrow> bytes \<Rightarrow> bool" where
  "opthex_reply img a \<longleftrightarrow> length a \<le> 4095 \<and>
     (take 4 a = str ''ERR:'' \<or> 0 \<notin> set a \<and> filter is_hex a = hex_text img)"

definition modnet_laws :: "'d modnet \<Rightarrow> bool" where
  "modnet_laws M \<longleftrightarrow>
     (\<forall>n d. length (mn_image M n d) = MODULE_MAXSIZE) \<and>
     (\<forall>n d. mn_image M n (snd (mn_socket M d)) = mn_image M n d) \<and>
     (\<forall>sk n m d. mn_image M m (mn_bind M sk n d) = mn_image M m d \<and>
        mn_bound M sk (mn_bind M sk n d) = Some n) \<and>
     (\<forall>sk n d. mn_image M n (mn_close M sk d) = mn_image M n d) \<and>
     (\<forall>sk w d ok d'. mn_select M sk w d = (ok, d') \<longrightarrow>
        (\<forall>n. mn_image M n d' = mn_image M n d) \<and> mn_answer M sk d' = mn_answer M sk d) \<and>
     (\<forall>sk k d r bs d'. mn_recv M sk k d = (r, bs, d') \<longrightarrow>
        (\<forall>n. mn_image M n d' = mn_image M n d) \<and> nat r \<le> k \<and> nat r \<le> length bs \<and>
        (0 < r \<longrightarrow> take (nat r) bs = take k (mn_answer M sk d))) \<and>
     (\<forall>sk d r d' n. mn_bound M sk d = Some n \<longrightarrow> mn_sendto M sk (str ''opthex'') d = (r, d') \<longrightarrow>
        (\<forall>m. mn_image M m d' = mn_image M m d) \<and>
        (0 < r \<longrightarrow> opthex_reply (mn_image M n d) (mn_answer M sk d'))) \<and>
     (\<forall>sk st bs d r d' n. mn_bound M sk d = Some n \<longrightarrow> 0 \<le> st \<longrightarrow> bs \<noteq> [] \<longrightarrow>
        nat st + length bs \<le> MODULE_MAXSIZE \<longrightarrow> mn_sendto M sk (optfill_cmd st bs) d = (r, d') \<longrightarrow>
        (\<forall>m. m \<noteq> n \<longrightarrow> mn_image M m d' = mn_image M m d) \<and>
        (0 < r \<longrightarrow> take 4 (mn_answer M sk d') = str ''ERR:'' \<or>
           mn_image M n d' = blit (mn_image M n d) (nat st) bs))"

lemma mod_image_length: "modnet_laws M \<Longrightarrow> length (mn_image M n d) = MODULE_MAXSIZE"
  by (simp add: modnet_laws_def)

lemma mod_optfill:
  assumes "modnet_laws M" "mn_bound M sk d = Some n" "0 \<le> st" "bs \<noteq> []"
    "nat st + length bs \<le> MODULE_MAXSIZE" "mn_sendto M sk (optfill_cmd st bs) d = (r, d')"
  shows "m \<noteq> n \<Longrightarrow> mn_image M m d' = mn_image M m d"
    and "0 < r \<Longrightarrow> take 4 (mn_answer M sk d') = str ''ERR:'' \<or> mn_image M n d' = blit (mn_image M n d) (nat st) bs"
proof -
  note law = assms(1) [unfolded modnet_laws_def, THEN conjunct2, THEN conjunct2, THEN conjunct2,
    THEN conjunct2, THEN conjunct2, THEN conjunct2, THEN conjunct2, rule_format, OF assms(2-6)]
  show "m \<noteq> n \<Longrightarrow> mn_image M m d' = mn_image M m d" using law by blast
  show "0 < r \<Longrightarrow> take 4 (mn_answer M sk d') = str ''ERR:'' \<or> mn_image M n d' = blit (mn_image M n d) (nat st) bs"
    using law by blast
qed

definition slot_netif :: "os \<Rightarrow> int \<Rightarrow> string" where
  "slot_netif os i = (case v400_boardres_ind2netif os i of Some (r, n, _) \<Rightarrow> n | None \<Rightarrow> [])"

definition mod_options :: "os \<Rightarrow> int \<Rightarrow> 'd mod_state \<Rightarrow> bytes" where
  "mod_options os i s = mn_image (fst s) (slot_netif os i) (fst (snd s))"

definition mod_ok :: "'d mod_state \<Rightarrow> bool" where
  "mod_ok s \<longleftrightarrow> modnet_laws (fst s)"

lemma cmd_opt_zero:
  assumes "modnet_laws M" "netclient_cmd_opt sk (Some cmd) n (Some (replicate SIZE_EEPRom 0)) w (M, d, nf) = Some (0, buf, s')"
  shows "\<exists>r d1 d'. mn_sendto M sk (take n cmd) d = (r, d1) \<and> 0 < r \<and> s' = (M, d', nf) \<and>
     (\<forall>m. mn_image M m d' = mn_image M m d1) \<and> take 4 (mn_answer M sk d1) \<noteq> str ''ERR:'' \<and>
     (\<exists>zs. buf = Some (take 4095 (mn_answer M sk d1) @ 0 # zs))"
proof -
  have z: "store (replicate SIZE_EEPRom 0) 0 0 = Some (replicate SIZE_EEPRom (0 :: byte))"
    by (simp add: store_def net_sizes list_update_same_conv)
  obtain r d1 where sd: "mn_sendto M sk (take n cmd) d = (r, d1)" by (cases "mn_sendto M sk (take n cmd) d")
  let ?to = "if w then MILLION * 60 else MILLION"
  let ?wait = "(?to div MILLION, ?to mod MILLION)"
  obtain ok d2 where sl: "mn_select M sk ?wait d1 = (ok, d2)" by (cases "mn_select M sk ?wait d1")
  obtain rv bs d3 where rc: "mn_recv M sk 4095 d2 = (rv, bs, d3)" by (cases "mn_recv M sk 4095 d2") auto
  have law: "\<And>m. mn_image M m d3 = mn_image M m d1" "nat rv \<le> 4095" "nat rv \<le> length bs"
      "0 < rv \<Longrightarrow> take (nat rv) bs = take 4095 (mn_answer M sk d1)"
    using assms(1) sl rc unfolding modnet_laws_def by metis+
  have to: "\<not> ?to \<le> 0" by (simp add: MILLION_def)
  have len: "n \<le> length cmd" using assms(2) by (auto simp: netclient_cmd_opt_def z memcpy_def split: if_splits)
  have msg: "memcpy (replicate n 0) 0 cmd 0 n = Some (take n cmd)" using len by (simp add: memcpy_def blit_def)
  define a where "a = take (nat rv) bs"
  define R where "R = a @ 0 # replicate (4095 - nat rv) 0"
  have la: "length a = nat rv" using law(3) by (simp add: a_def)
  have rz: "replicate (4096 - nat rv) 0 = (0 :: byte) # replicate (4095 - nat rv) 0"
    using law(2) by (simp add: replicate_Suc [symmetric] del: replicate_Suc)
  have b: "memcpy (replicate SIZE_EEPRom 0) 0 bs 0 (nat rv) = Some R"
    using law(2,3) by (simp add: memcpy_def blit_def net_sizes R_def a_def rz)
  have st: "store R (nat rv) 0 = Some R"
    unfolding store_def R_def using la by (simp add: list_update_append)
  have cmp: "memcmp0 R (str ''ERR:'') 4 = Some (take 4 R = str ''ERR:'')"
    using la law(2) by (simp add: memcmp0_def R_def)
  have ret: "0 < r" "ok" "0 < rv" "s' = (M, d3, nf)" "buf = Some R" "take 4 R \<noteq> str ''ERR:''"
    using assms(2) z msg sd sl rc b st cmp to
    by (auto simp: netclient_cmd_opt_def recv_timeout_def Let_def split: if_splits bind_splits)
  have "take 4 (mn_answer M sk d1) \<noteq> str ''ERR:''"
  proof
    assume e: "take 4 (mn_answer M sk d1) = str ''ERR:''"
    have "4 \<le> length (mn_answer M sk d1)" using arg_cong [OF e, of length] by simp
    then show False using ret(6) e law(4) [OF ret(3)] by (simp add: R_def a_def)
  qed
  then show ?thesis using sd ret(1,4,5) law(1) law(4) [OF ret(3)] unfolding R_def a_def by (intro exI [of _ r] exI [of _ d1] exI [of _ d3]) auto
qed

lemma Create_zero:
  assumes "modnet_laws M" "CreateModuleSocketClient os (M, d, nf) = Some (0, sk, s')"
  shows "\<exists>d'. s' = (M, d', nf) \<and> mn_bound M sk d' = Some nf \<and> (\<forall>m. mn_image M m d' = mn_image M m d)"
proof -
  obtain r d1 where sk: "mn_socket M d = (r, d1)" by (cases "mn_socket M d")
  have "mn_image M m d1 = mn_image M m d" for m
    using assms(1) sk unfolding modnet_laws_def by (metis snd_conv)
  moreover have "s' = (M, mn_bind M sk nf d1, nf)"
    using assms(2) sk by (auto simp: CreateModuleSocketClient_def split: if_splits bind_splits)
  ultimately show ?thesis using assms(1) unfolding modnet_laws_def by simp
qed

lemma close_client_image:
  "modnet_laws M \<Longrightarrow> \<exists>d'. close_client sk (M, d, nf) = (M, d', nf) \<and> (\<forall>m. mn_image M m d' = mn_image M m d)"
  unfolding close_client_def modnet_laws_def by auto

text \<open>What the two loops make of an answer.\<close>

lemma hex_answer:
  assumes "0 \<notin> set a" "filter is_hex a = hex_text img" "length img = MODULE_MAXSIZE"
  shows "\<exists>p. hex_filter (a @ 0 # zs) 0 0 = Some (p, 510) \<and> 510 < length p \<and>
     hex_decode (p[510 := 0]) 510 0 (replicate MODULE_MAXSIZE 0) 0 = Some img"
proof -
  have l: "length (filter is_hex a) = 510" using assms(2,3) by (simp add: hex_text_props net_sizes)
  obtain p where p: "hex_filter (a @ 0 # zs) 0 0 = Some (p, 510)" "take 510 p = filter is_hex a"
      "length p = length (a @ 0 # zs)"
    using hex_filter_eq [OF assms(1), of "[]" 0 zs] l by auto
  have lp: "510 < length p" using p(3) l length_filter_le [of is_hex a] by simp
  have "hex_decode (p[510 := 0]) (length (hex_text img)) 0 (replicate MODULE_MAXSIZE 0) 0 =
      Some (blit (replicate MODULE_MAXSIZE 0) 0 (unhex (drop 0 (hex_text img))))"
    using p lp l assms(2,3) hex_text_props by (intro hex_decode_eq) (simp_all add: net_sizes)
  then show ?thesis using p lp assms(3) l assms(2) by (simp add: blit_whole net_sizes)
qed

subsection \<open>The contract\<close>

lemma Read_index_zero:
  assumes "modnet_laws M" "ReadOptionBufferIndex os i buff st len (M, d, nf) = Some (0, buf', s')"
  shows "\<exists>d' nf'. s' = (M, d', nf') \<and> (\<forall>m. mn_image M m d' = mn_image M m d) \<and>
     (st + len \<le> 255 \<longrightarrow> (\<exists>b. memset buff 0 0 255 = Some b \<and>
        memcpy_int b 0 (mod_options os i (M, d, nf)) st len = Some buf')) \<and>
     (255 < st + len \<longrightarrow> buf' = buff)"
proof -
  obtain n od where nf: "v400_boardres_ind2netif os i = Some (0, n, od)" and n: "n \<noteq> []"
    using assms(2) by (auto simp: ReadOptionBufferIndex_def Let_def split: if_splits bind_splits)
  have sn: "slot_netif os i = n" by (simp add: slot_netif_def nf)
  obtain sk s1 where cr: "CreateModuleSocketClient os (M, d, n) = Some (0, sk, s1)"
    using assms(2) nf n by (auto simp: ReadOptionBufferIndex_def Let_def split: if_splits bind_splits)
  obtain d1 where s1: "s1 = (M, d1, n)" "mn_bound M sk d1 = Some n" "\<And>m. mn_image M m d1 = mn_image M m d"
    using Create_zero [OF assms(1) cr] by auto
  obtain ret pB s2 where rd: "netclient_cmd_ReadEEPRom sk (Some (replicate SIZE_EEPRom 0)) s1 = Some (ret, pB, s2)"
    using assms(2) nf n cr by (auto simp: ReadOptionBufferIndex_def Let_def split: if_splits bind_splits)
  have "ret = 0"
    using assms(2) nf n cr rd by (auto simp: ReadOptionBufferIndex_def Let_def split: if_splits bind_splits)
  then obtain r d2 d3 zs where sd: "mn_sendto M sk (str ''opthex'') d1 = (r, d2)" "0 < r" "s2 = (M, d3, n)"
      "\<And>m. mn_image M m d3 = mn_image M m d2" "take 4 (mn_answer M sk d2) \<noteq> str ''ERR:''"
      "pB = Some (take 4095 (mn_answer M sk d2) @ 0 # zs)"
    using cmd_opt_zero [OF assms(1) rd [unfolded ReadEEPRom_eq s1(1) \<open>ret = 0\<close>]] by auto
  have law: "\<And>m. mn_image M m d2 = mn_image M m d1" "opthex_reply (mn_image M n d1) (mn_answer M sk d2)"
    using assms(1) s1(2) sd(1,2) unfolding modnet_laws_def by blast+
  have li: "length (mn_image M n d) = MODULE_MAXSIZE" using mod_image_length [OF assms(1)] .
  obtain p where p: "hex_filter (mn_answer M sk d2 @ 0 # zs) 0 0 = Some (p, 510)" "510 < length p"
      "hex_decode (p[510 := 0]) 510 0 (replicate MODULE_MAXSIZE 0) 0 = Some (mn_image M n d)"
    using law(2) sd(5) hex_answer [OF _ _ li, of "mn_answer M sk d2" zs] s1(3) by (auto simp: opthex_reply_def)
  have pB: "pB = Some (mn_answer M sk d2 @ 0 # zs)" using sd(6) law(2) by (simp add: opthex_reply_def)
  obtain d4 where cl: "close_client sk (M, d3, n) = (M, d4, n)" "\<And>m. mn_image M m d4 = mn_image M m d3"
    using close_client_image [OF assms(1)] by blast
  have "(510 \<le> MODULE_MAXSIZE * 2) = True" "int MODULE_MAXSIZE = 255" "MODULE_MAXSIZE = 255"
    by (simp_all add: net_sizes)
  then have "s' = (M, d4, n) \<and> (st + len \<le> 255 \<longrightarrow> (\<exists>b. memset buff 0 0 255 = Some b \<and>
        memcpy_int b 0 (mn_image M n d) st len = Some buf')) \<and> (255 < st + len \<longrightarrow> buf' = buff)"
    using assms(2) nf n cr rd \<open>ret = 0\<close> p pB cl(1) sd(3)
    by (auto simp: ReadOptionBufferIndex_def Let_def cmem dest!: int_add_Some split: if_splits bind_splits)
  then show ?thesis using cl(2) sd(4) law(1) s1(3) by (simp add: mod_options_def sn)
qed

text \<open>Whatever a read returns, it changes no module.\<close>

lemma cmd_opt_keeps:
  assumes "modnet_laws M" "netclient_cmd_opt sk (Some cmd) n (Some buf) w (M, d, nf) = Some (r, buf', s')"
    "mn_bound M sk d = Some nt" "take n cmd = str ''opthex''" "n \<le> length cmd"
  shows "\<exists>d'. s' = (M, d', nf) \<and> (\<forall>m. mn_image M m d' = mn_image M m d)"
proof -
  let ?to = "if w then MILLION * 60 else MILLION"
  let ?wait = "(?to div MILLION, ?to mod MILLION)"
  obtain r1 d1 where sd: "mn_sendto M sk (take n cmd) d = (r1, d1)" by (cases "mn_sendto M sk (take n cmd) d")
  obtain ok d2 where sl: "mn_select M sk ?wait d1 = (ok, d2)" by (cases "mn_select M sk ?wait d1")
  obtain rv bs d3 where rc: "mn_recv M sk 4095 d2 = (rv, bs, d3)" by (cases "mn_recv M sk 4095 d2") auto
  have law: "mn_image M m d3 = mn_image M m d" "mn_image M m d2 = mn_image M m d" "mn_image M m d1 = mn_image M m d" for m
    using assms(1,3,4) sd sl rc unfolding modnet_laws_def by metis+
  have to: "\<not> ?to \<le> 0" by (simp add: MILLION_def)
  have msg: "memcpy (replicate n 0) 0 cmd 0 n = Some (take n cmd)" using assms(5) by (simp add: memcpy_def blit_def)
  show ?thesis
    using assms(2) msg sd sl rc to law
    by (auto simp: netclient_cmd_opt_def recv_timeout_def Let_def split: if_splits bind_splits)
qed

lemma Read_index_keeps:
  assumes "modnet_laws M" "ReadOptionBufferIndex os i buff st len (M, d, nf) = Some (r, buf', s')"
  shows "\<exists>d' nf'. s' = (M, d', nf') \<and> (\<forall>m. mn_image M m d' = mn_image M m d)"
proof -
  obtain ri n od where nf: "v400_boardres_ind2netif os i = Some (ri, n, od)"
    using assms(2) by (auto simp: ReadOptionBufferIndex_def split: bind_splits)
  consider "s' = (M, d, n)" | rc sk s1 where "CreateModuleSocketClient os (M, d, n) = Some (rc, sk, s1)" "s' = s1"
    | sk s1 ret pB s2 where "CreateModuleSocketClient os (M, d, n) = Some (0, sk, s1)"
      "netclient_cmd_ReadEEPRom sk (Some (replicate SIZE_EEPRom 0)) s1 = Some (ret, pB, s2)"
      "s' = close_client sk s2"
    using assms(2) nf by (auto simp: ReadOptionBufferIndex_def Let_def split: if_splits bind_splits)
  then show ?thesis
  proof cases
    case 2
    obtain rs ds where "mn_socket M d = (rs, ds)" by (cases "mn_socket M d")
    moreover from this have "mn_image M m ds = mn_image M m d" for m
      using assms(1) unfolding modnet_laws_def by (metis snd_conv)
    ultimately show ?thesis using 2 assms(1) unfolding modnet_laws_def
      by (auto simp: CreateModuleSocketClient_def split: if_splits bind_splits)
  next
    case 3
    obtain d1 where s1: "s1 = (M, d1, n)" "mn_bound M sk d1 = Some n" "\<And>m. mn_image M m d1 = mn_image M m d"
      using Create_zero [OF assms(1) 3(1)] by auto
    have t: "take 6 (str ''opthex'' @ replicate 1018 0) = str ''opthex''" by simp
    have "netclient_cmd_opt sk (Some (str ''opthex'' @ replicate 1018 0)) 6 (Some (replicate SIZE_EEPRom 0))
        False (M, d1, n) = Some (ret, pB, s2)"
      using 3(2) by (simp only: ReadEEPRom_eq s1(1))
    from cmd_opt_keeps [OF assms(1) this s1(2) t]
    obtain d2 where "s2 = (M, d2, n)" "\<And>m. mn_image M m d2 = mn_image M m d1" by auto
    then show ?thesis using 3(3) s1(3) close_client_image [OF assms(1), of sk d2 n] by auto
  qed simp
qed

lemma WriteEEPRom_bounds:
  assumes "netclient_cmd_WriteEEPRom sk st len (Some bs) s = Some r"
  shows "0 \<le> len \<and> len < 255 \<and> nat len \<le> length bs"
proof -
  have n: "0 \<le> len" using assms by (auto simp: netclient_cmd_WriteEEPRom_def split: bind_splits if_splits)
  then obtain b where b: "hex_fill (replicate 510 0) bs (nat len) = Some b"
    using assms by (auto simp: netclient_cmd_WriteEEPRom_def net_sizes split: bind_splits)
  have "nat len < 255"
  proof (rule ccontr)
    assume "\<not> nat len < 255"
    then have "hex_fill (replicate 510 0) bs (nat len) = None" by (intro hex_fill_long) auto
    then show False using b by simp
  qed
  moreover have "nat len \<le> length bs" using b hex_fill_short [of bs "nat len"] by fastforce
  ultimately show ?thesis using n by linarith
qed

lemma Write_index_zero:
  assumes "modnet_laws M" "WriteOptionBufferIndex os i bs st len (M, d, nf) = Some (0, s')"
    "0 \<le> st" "0 < len" "st + len \<le> 255"
  shows "\<exists>d' nf'. s' = (M, d', nf') \<and>
     (\<forall>m. mn_image M m d' = (if m = slot_netif os i
        then blit (mn_image M m d) (nat st) (take (nat len) bs) else mn_image M m d))"
proof -
  obtain n od where nf: "v400_boardres_ind2netif os i = Some (0, n, od)" and n: "n \<noteq> []"
    using assms(2) by (auto simp: WriteOptionBufferIndex_def Let_def split: if_splits bind_splits)
  have sn: "slot_netif os i = n" by (simp add: slot_netif_def nf)
  obtain sk s1 where cr: "CreateModuleSocketClient os (M, d, n) = Some (0, sk, s1)"
    using assms(2) nf n by (auto simp: WriteOptionBufferIndex_def Let_def split: if_splits bind_splits)
  obtain d1 where s1: "s1 = (M, d1, n)" "mn_bound M sk d1 = Some n" "\<And>m. mn_image M m d1 = mn_image M m d"
    using Create_zero [OF assms(1) cr] by auto
  obtain s2 where wr: "netclient_cmd_WriteEEPRom sk st len (Some bs) s1 = Some (0, s2)"
      and s': "s' = close_client sk s2"
    using assms(2) nf n cr by (auto simp: WriteOptionBufferIndex_def Let_def split: if_splits bind_splits)
  have lb: "len < 255" "nat len \<le> length bs" using WriteEEPRom_bounds [OF wr] by auto
  let ?c = "optfill_cmd st (take (nat len) bs)"
  obtain buf where "netclient_cmd_opt sk (Some (?c @ replicate (1024 - length ?c) 0)) (length ?c)
      (Some (replicate SIZE_EEPRom 0)) True (M, d1, n) = Some (0, buf, s2)"
    using wr WriteEEPRom_eq [of st len bs sk s1] assms(3-5) lb by (auto simp: Let_def s1(1) split: bind_splits)
  from cmd_opt_zero [OF assms(1) this]
  obtain r d2 d3 where sd: "mn_sendto M sk ?c d1 = (r, d2)" "0 < r" "s2 = (M, d3, n)"
      "\<And>m. mn_image M m d3 = mn_image M m d2" "take 4 (mn_answer M sk d2) \<noteq> str ''ERR:''"
    by auto
  have ne: "take (nat len) bs \<noteq> []" "nat st + length (take (nat len) bs) \<le> MODULE_MAXSIZE"
    using assms(3-5) lb by (auto simp: net_sizes)
  have "mn_image M m d2 = (if m = n then blit (mn_image M m d1) (nat st) (take (nat len) bs) else mn_image M m d1)" for m
    using mod_optfill [OF assms(1) s1(2) assms(3) ne sd(1)] sd(2,5) by auto
  moreover obtain d4 where "close_client sk (M, d3, n) = (M, d4, n)" "\<And>m. mn_image M m d4 = mn_image M m d3"
    using close_client_image [OF assms(1)] by blast
  ultimately show ?thesis using s' sd(3,4) s1(3) by (simp add: sn)
qed

interpretation modopt: option_store "ReadOptionBufferIndex os index"
  "WriteOptionBufferIndex os index" "mod_options os index" mod_ok 255
  for os index
proof unfold_locales
  fix s s' :: "'d mod_state" and buf buf' start len
  assume a: "mod_ok s" "ReadOptionBufferIndex os index buf start len s = Some (0, buf', s')"
    "0 \<le> start" "0 < len" "start + len \<le> 255"
  obtain M d nf where s: "s = (M, d, nf)" by (cases s) auto
  have M: "modnet_laws M" using a(1) by (simp add: mod_ok_def s)
  obtain d' nf' b where r: "s' = (M, d', nf')" "\<forall>m. mn_image M m d' = mn_image M m d"
      "memcpy_int b 0 (mod_options os index (M, d, nf)) start len = Some buf'"
    using Read_index_zero [OF M a(2) [unfolded s]] a(5) by auto
  from memcpy_int_Some [OF r(3)]
  have "take (nat len) buf' = take (nat len) (drop (nat start) (mod_options os index (M, d, nf)))"
    by (auto simp: take_blit_slice)
  then show "take (nat len) buf' = take (nat len) (drop (nat start) (mod_options os index s)) \<and>
      mod_options os index s' = mod_options os index s \<and> mod_ok s'"
    using r(1,2) M by (simp add: s mod_ok_def mod_options_def)
next
  fix s s' :: "'d mod_state" and buf buf' start len r
  assume a: "mod_ok s" "ReadOptionBufferIndex os index buf start len s = Some (r, buf', s')"
  obtain M d nf where s: "s = (M, d, nf)" by (cases s) auto
  show "mod_options os index s' = mod_options os index s \<and> mod_ok s'"
    using Read_index_keeps [of M os index buf start len d nf r buf' s'] a
    by (auto simp: s mod_ok_def mod_options_def)
next
  fix s s' :: "'d mod_state" and bs start len
  assume a: "mod_ok s" "WriteOptionBufferIndex os index bs start len s = Some (0, s')"
    "0 \<le> start" "0 < len" "start + len \<le> 255" "nat len \<le> length bs"
  obtain M d nf where s: "s = (M, d, nf)" by (cases s) auto
  have M: "modnet_laws M" using a(1) by (simp add: mod_ok_def s)
  show "mod_options os index s' = blit (mod_options os index s) (nat start) (take (nat len) bs) \<and> mod_ok s'"
    using Write_index_zero [OF M a(2) [unfolded s] a(3-5)] M by (auto simp: s mod_ok_def mod_options_def)
next
  fix s :: "'d mod_state"
  assume "mod_ok s"
  then show "length (mod_options os index s) = nat 255"
    by (simp add: mod_ok_def mod_options_def modnet_laws_def net_sizes)
qed

subsection \<open>Modules that answer\<close>

definition modnet_works :: "'d modnet \<Rightarrow> bool" where
  "modnet_works M \<longleftrightarrow> (\<forall>d sk. 0 \<le> fst (mn_socket M d) \<and> (\<forall>m. 0 < fst (mn_sendto M sk m d)) \<and>
     (\<forall>w. fst (mn_select M sk w d)) \<and> 0 < fst (mn_recv M sk 4095 d) \<and>
     take 4 (mn_answer M sk d) \<noteq> str ''ERR:'')"

definition slot_up :: "os \<Rightarrow> int \<Rightarrow> bool" where
  "slot_up os i \<longleftrightarrow> (\<exists>od. v400_boardres_ind2netif os i = Some (0, slot_netif os i, od)) \<and>
     slot_netif os i \<noteq> [] \<and> os_access os (''/sys/class/net/'' @ slot_netif os i)"

lemma cmd_opt_works:
  assumes "modnet_laws M" "modnet_works M" "n \<le> length cmd"
  shows "\<exists>buf s'. netclient_cmd_opt sk (Some cmd) n (Some (replicate SIZE_EEPRom 0)) w (M, d, nf) = Some (0, Some buf, s') \<and>
     fst s' = M"
proof -
  have z: "store (replicate SIZE_EEPRom 0) 0 0 = Some (replicate SIZE_EEPRom (0 :: byte))"
    by (simp add: store_def net_sizes list_update_same_conv)
  let ?to = "if w then MILLION * 60 else MILLION"
  let ?wait = "(?to div MILLION, ?to mod MILLION)"
  obtain r d1 where sd: "mn_sendto M sk (take n cmd) d = (r, d1)" by (cases "mn_sendto M sk (take n cmd) d")
  obtain ok d2 where sl: "mn_select M sk ?wait d1 = (ok, d2)" by (cases "mn_select M sk ?wait d1")
  obtain rv bs d3 where rc: "mn_recv M sk 4095 d2 = (rv, bs, d3)" by (cases "mn_recv M sk 4095 d2") auto
  have pos: "0 < r" "ok" "0 < rv" "take 4 (mn_answer M sk d2) \<noteq> str ''ERR:''"
    using assms(2) sd sl rc unfolding modnet_works_def by (metis fst_conv)+
  have law: "nat rv \<le> 4095" "nat rv \<le> length bs" "take (nat rv) bs = take 4095 (mn_answer M sk d2)"
    using assms(1) rc pos(3) unfolding modnet_laws_def by metis+
  have to: "\<not> ?to \<le> 0" by (simp add: MILLION_def)
  have msg: "memcpy (replicate n 0) 0 cmd 0 n = Some (take n cmd)" using assms(3) by (simp add: memcpy_def blit_def)
  define R where "R = take (nat rv) bs @ 0 # replicate (4095 - nat rv) 0"
  have rz: "replicate (4096 - nat rv) 0 = (0 :: byte) # replicate (4095 - nat rv) 0"
    using law(1) by (simp add: replicate_Suc [symmetric] del: replicate_Suc)
  have b: "memcpy (replicate SIZE_EEPRom 0) 0 bs 0 (nat rv) = Some R"
    using law(1,2) by (simp add: memcpy_def blit_def net_sizes R_def rz)
  have st: "store R (nat rv) 0 = Some R"
    unfolding store_def R_def using law(2) by (simp add: list_update_append)
  have "take 4 R \<noteq> str ''ERR:''"
  proof
    assume e: "take 4 R = str ''ERR:''"
    have "4 \<le> nat rv"
    proof (rule ccontr)
      assume "\<not> 4 \<le> nat rv"
      then have "take 4 R ! nat rv = 0" "nat rv < 4" using law(2) by (simp_all add: R_def nth_append)
      moreover have "str ''ERR:'' ! k \<noteq> 0" if "k < 4" for k
        using nth_mem [of k "str ''ERR:''"] that by (auto simp: str_def)
      ultimately show False using e by metis
    qed
    then have "take 4 R = take 4 (take (nat rv) bs)" using law(2) by (simp add: R_def)
    then show False using e pos(4) unfolding law(3) by simp
  qed
  moreover have "length R = 4096" using law(1,2) by (simp add: R_def)
  ultimately have "memcmp0 R (str ''ERR:'') 4 = Some False" by (simp add: memcmp0_def)
  then show ?thesis
    using z msg sd sl rc b st to pos(1-3)
    by (simp add: netclient_cmd_opt_def recv_timeout_def Let_def)
qed

lemma Create_works:
  assumes "modnet_works M" "slot_up os i"
  shows "\<exists>sk s'. CreateModuleSocketClient os (M, d, slot_netif os i) = Some (0, sk, s') \<and> fst s' = M"
proof -
  obtain od where nf: "v400_boardres_ind2netif os i = Some (0, slot_netif os i, od)"
      and ne: "slot_netif os i \<noteq> []" "os_access os (''/sys/class/net/'' @ slot_netif os i)"
    using assms(2) by (auto simp: slot_up_def)
  obtain r d1 where sk: "mn_socket M d = (r, d1)" by (cases "mn_socket M d")
  have "0 \<le> r" using assms(1) sk unfolding modnet_works_def by (metis fst_conv)
  moreover have "length (slot_netif os i) \<le> 63" using netif_short [OF nf] .
  ultimately show ?thesis using ne sk by (simp add: CreateModuleSocketClient_def sprintf_def)
qed

lemma Write_index_works:
  assumes "modnet_laws (fst s)" "modnet_works (fst s)" "slot_up os i"
    "0 \<le> st" "0 < len" "len < 255" "st + len \<le> 255" "nat len \<le> length bs"
  shows "\<exists>s'. WriteOptionBufferIndex os i bs st len s = Some (0, s') \<and> fst s' = fst s"
proof -
  obtain M d nf where s: "s = (M, d, nf)" by (cases s) auto
  have M: "modnet_laws M" "modnet_works M" using assms(1,2) by (simp_all add: s)
  obtain od where nf: "v400_boardres_ind2netif os i = Some (0, slot_netif os i, od)" "slot_netif os i \<noteq> []"
    using assms(3) by (auto simp: slot_up_def)
  obtain sk d1 nf1 where cr: "CreateModuleSocketClient os (M, d, slot_netif os i) = Some (0, sk, (M, d1, nf1))"
    using Create_works [OF M(2) assms(3), of d] by auto
  let ?c = "optfill_cmd st (take (nat len) bs)"
  obtain buf d2 nf2 where "netclient_cmd_opt sk (Some (?c @ replicate (1024 - length ?c) 0)) (length ?c)
      (Some (replicate SIZE_EEPRom 0)) True (M, d1, nf1) = Some (0, Some buf, (M, d2, nf2))"
    using cmd_opt_works [OF M, of "length ?c" "?c @ replicate (1024 - length ?c) 0" sk True d1 nf1] by auto
  then have "netclient_cmd_WriteEEPRom sk st len (Some bs) (M, d1, nf1) = Some (0, (M, d2, nf2))"
    using WriteEEPRom_eq [of st len bs sk "(M, d1, nf1)"] assms(4-8) by (simp add: Let_def)
  then show ?thesis using nf cr by (simp add: WriteOptionBufferIndex_def s close_client_def)
qed

lemma Read_index_works:
  assumes "modnet_laws (fst s)" "modnet_works (fst s)" "slot_up os i"
    "0 \<le> st" "0 < len" "st + len \<le> 255" "255 \<le> length buff"
  shows "\<exists>buf' s'. ReadOptionBufferIndex os i buff st len s = Some (0, buf', s') \<and> fst s' = fst s"
proof -
  obtain M d nf where s: "s = (M, d, nf)" by (cases s) auto
  have M: "modnet_laws M" "modnet_works M" using assms(1,2) by (simp_all add: s)
  obtain od where nf: "v400_boardres_ind2netif os i = Some (0, slot_netif os i, od)" "slot_netif os i \<noteq> []"
    using assms(3) by (auto simp: slot_up_def)
  obtain sk d1 nf1 where cr: "CreateModuleSocketClient os (M, d, slot_netif os i) = Some (0, sk, (M, d1, nf1))"
    using Create_works [OF M(2) assms(3), of d] by auto
  obtain n where n: "mn_bound M sk d1 = Some n"
    using Create_zero [OF M(1) cr] by auto
  obtain buf d2 nf2 where op: "netclient_cmd_opt sk (Some (str ''opthex'' @ replicate 1018 0)) 6
      (Some (replicate SIZE_EEPRom 0)) False (M, d1, nf1) = Some (0, Some buf, (M, d2, nf2))"
    using cmd_opt_works [OF M, of 6 "str ''opthex'' @ replicate 1018 0" sk False d1 nf1] by auto
  obtain r e zs where sd: "mn_sendto M sk (str ''opthex'') d1 = (r, e)" "0 < r"
      "take 4 (mn_answer M sk e) \<noteq> str ''ERR:''" "buf = take 4095 (mn_answer M sk e) @ 0 # zs"
    using cmd_opt_zero [OF M(1) op] by auto
  have "opthex_reply (mn_image M n d1) (mn_answer M sk e)"
    using M(1) n sd(1,2) unfolding modnet_laws_def by blast
  then obtain p where p: "hex_filter buf 0 0 = Some (p, 510)" "510 < length p"
      "hex_decode (p[510 := 0]) 510 0 (replicate MODULE_MAXSIZE 0) 0 = Some (mn_image M n d1)"
    using hex_answer [OF _ _ mod_image_length [OF M(1)], of "mn_answer M sk e" n d1 zs] sd(3,4)
    by (auto simp: opthex_reply_def)
  have li: "length (mn_image M n d1) = 255" using mod_image_length [OF M(1)] by (simp add: net_sizes)
  have ms: "memset buff 0 0 255 = Some (blit buff 0 (replicate 255 0))" using assms(7) by (simp add: cmem)
  have up: "int_add st len = Some (st + len)" using assms(4-6) by (simp add: int_add_def)
  have "nat st + nat len \<le> 255" using assms(4-6) by linarith
  then have mc: "memcpy_int (blit buff 0 (replicate 255 0)) 0 (mn_image M n d1) st len =
      Some (blit (blit buff 0 (replicate 255 0)) 0 (take (nat len) (drop (nat st) (mn_image M n d1))))"
    using assms(4,5,7) li by (simp add: memcpy_int_def memcpy_def)
  have pr: "DebugPrintfArray b len = Some ()" if "length b = length buff" for b
    using that assms(4-7) by (simp add: DebugPrintfArray_def)
  have lb: "length (blit (blit buff 0 (replicate 255 0)) 0 (take (nat len) (drop (nat st) (mn_image M n d1)))) = length buff"
    using \<open>nat st + nat len \<le> 255\<close> assms(7) li by simp
  have rd: "netclient_cmd_ReadEEPRom sk (Some (replicate SIZE_EEPRom 0)) (M, d1, nf1) = Some (0, Some buf, (M, d2, nf2))"
    using op by (simp add: ReadEEPRom_eq)
  have "(if 510 \<le> MODULE_MAXSIZE * 2 then 510 else MODULE_MAXSIZE * 2) = 510" "(st + len \<le> int MODULE_MAXSIZE) = True"
    "MODULE_MAXSIZE = 255" using assms(6) by (simp_all add: net_sizes)
  then show ?thesis
    using nf cr rd p ms up mc pr [OF lb]
    by (simp add: ReadOptionBufferIndex_def s close_client_def store_Some)
qed

subsection \<open>Properties\<close>

text \<open>A network of modules that parse their commands, for the witnesses.\<close>

definition pad255 :: "bytes \<Rightarrow> bytes" where
  "pad255 e = take 255 (e @ replicate 255 0)"

lemma length_pad255 [simp]: "length (pad255 e) = 255"
  by (simp add: pad255_def)

lemma pad255_id [simp]: "length e = 255 \<Longrightarrow> pad255 e = e"
  by (simp add: pad255_def)

definition sim_execute :: "bytes \<Rightarrow> bytes \<Rightarrow> bytes" where
  "sim_execute m img =
     (let args = drop 16 m; ds = takeWhile (\<lambda>c. c \<noteq> 32) args; hx = drop (length ds + 1) args
      in if take 16 m = str ''optfill --begin '' then blit img (undec ds) (unhex hx) else img)"

type_synonym modsim = "(int \<Rightarrow> string option) \<times> (string \<Rightarrow> bytes) \<times> bytes"

definition mod_sim :: "modsim modnet" where
  "mod_sim = \<lparr>mn_socket = (\<lambda>d. (3, d)), mn_bind = (\<lambda>sk n (b, im, a). (b(sk \<mapsto> n), im, a)),
     mn_sendto = (\<lambda>sk m (b, im, a). (1, case b sk of None \<Rightarrow> (b, im, a) | Some n \<Rightarrow>
        (b, im(n := sim_execute m (pad255 (im n))), hex_text (pad255 (im n))))),
     mn_select = (\<lambda>sk w d. (True, d)),
     mn_recv = (\<lambda>sk k (b, im, a). let a' = take k (hex_text (pad255 (unhex a))) in
        (int (length a'), a', (b, im, a))),
     mn_close = (\<lambda>sk d. d), mn_image = (\<lambda>n (b, im, a). pad255 (im n)),
     mn_bound = (\<lambda>sk (b, im, a). b sk), mn_answer = (\<lambda>sk (b, im, a). hex_text (pad255 (unhex a)))\<rparr>"

lemma sim_execute_optfill:
  assumes "0 \<le> st"
  shows "sim_execute (optfill_cmd st bs) img = blit img (nat st) bs"
proof -
  have d: "dec st = digits (nat st)" using assms by (simp add: dec_def)
  have n: "32 \<notin> set (str (digits (nat st)))" using str_digits [of "nat st"] by force
  have "optfill_cmd st bs = str ''optfill --begin '' @ (str (dec st) @ 32 # hex_text bs)"
    by (simp add: optfill_cmd_def str_def)
  moreover have "length (str ''optfill --begin '') = 16" by simp
  ultimately have "take 16 (optfill_cmd st bs) = str ''optfill --begin ''"
      "drop 16 (optfill_cmd st bs) = str (dec st) @ 32 # hex_text bs"
    by (metis append_eq_conv_conj)+
  moreover have "takeWhile (\<lambda>c. c \<noteq> 32) (str (dec st) @ 32 # hex_text bs) = str (dec st)"
    using n d by (subst takeWhile_append2) auto
  ultimately show ?thesis
    by (simp add: sim_execute_def Let_def d undec_digits)
qed

lemma sim_execute_opthex: "sim_execute (str ''opthex'') img = img"
  by (simp add: sim_execute_def str_def)

lemma hex_text_reply: "length img = 255 \<Longrightarrow> opthex_reply img (hex_text img)"
  using hex_text_props [of img] is_hex_not_nul by (auto simp: opthex_reply_def filter_id_conv)

lemma mod_sim_laws: "modnet_laws mod_sim"
  unfolding modnet_laws_def mod_sim_def
  by (auto simp: net_sizes sim_execute_optfill sim_execute_opthex hex_text_reply Let_def
      split: option.splits prod.splits)

lemma hex_text_not_error: "take 4 (hex_text bs) \<noteq> str ''ERR:''"
proof
  assume e: "take 4 (hex_text bs) = str ''ERR:''"
  have "82 \<in> set (str ''ERR:'')" by (simp add: str_def)
  then have "82 \<in> set (hex_text bs)" using e by (metis in_set_takeD)
  then have "is_hex 82" using hex_text_props(1) by blast
  then show False by (simp add: is_hex_def)
qed

lemma mod_sim_works: "modnet_works mod_sim"
  unfolding modnet_works_def mod_sim_def
  by (auto simp: Let_def hex_text_not_error hex_text_props split: option.splits prod.splits)

text \<open>
  C30: On a module that is up and answers, options written over the network are read back, the
  other bytes of the module and the other modules keep their options.
\<close>

theorem module_hex_roundtrip:
  assumes "modnet_laws (fst s)" "modnet_works (fst s)" "slot_up os i"
    "0 \<le> st" "0 < len" "len < 255" "st + len \<le> 255" "nat len \<le> length bs" "255 \<le> length buff"
  shows "\<exists>s1 buf' s2. WriteOptionBufferIndex os i bs st len s = Some (0, s1) \<and>
     ReadOptionBufferIndex os i buff 0 255 s1 = Some (0, buf', s2) \<and>
     take 255 buf' = blit (mod_options os i s) (nat st) (take (nat len) bs) \<and>
     (\<forall>j. slot_netif os j \<noteq> slot_netif os i \<longrightarrow> mod_options os j s2 = mod_options os j s)"
proof -
  obtain M d nf where s: "s = (M, d, nf)" by (cases s) auto
  have M: "modnet_laws M" and ok: "mod_ok s" using assms(1) by (simp_all add: s mod_ok_def)
  obtain s1 where w: "WriteOptionBufferIndex os i bs st len s = Some (0, s1)" "fst s1 = fst s"
    using Write_index_works [OF assms(1-8)] by blast
  obtain buf' s2 where r: "ReadOptionBufferIndex os i buff 0 255 s1 = Some (0, buf', s2)"
    using Read_index_works [of s1 os i 0 255 buff] assms(1-3,9) w(2) by auto
  have i1: "mod_options os i s1 = blit (mod_options os i s) (nat st) (take (nat len) bs)" "mod_ok s1"
    using modopt.wr_bytes [OF ok w(1) assms(4,5,7,8)] by auto
  have "take 255 buf' = mod_options os i s1"
    using modopt.rd_bytes [OF i1(2) r] modopt.img_size [OF i1(2), of os i] by simp
  moreover obtain d1 nf1 where s1: "s1 = (M, d1, nf1)"
      "\<And>m. m \<noteq> slot_netif os i \<Longrightarrow> mn_image M m d1 = mn_image M m d"
    using Write_index_zero [OF M w(1) [unfolded s] assms(4,5,7)] by auto
  moreover obtain d2 nf2 where "s2 = (M, d2, nf2)" "\<And>m. mn_image M m d2 = mn_image M m d1"
    using Read_index_zero [OF M r [unfolded s1(1)]] by auto
  ultimately show ?thesis using w(1) r i1(1) by (simp add: mod_options_def s)
qed

definition os_net :: os where
  "os_net = \<lparr>os_access = (\<lambda>_. True), os_read = (\<lambda>_. None),
     os_opendir = (\<lambda>_. Some [''usb3'']), os_isdir = (\<lambda>_. True)\<rparr>"

lemma os_net_up: "slot_up os_net 3"
proof -
  have "v400_boardres_ind2netif os_net 3 = Some (0, ''usb3'', 0)"
    by (simp add: os_net_def v400_boardres_ind2netif_def v400_boardres_ind2usbpath_def net_path_def
        usb_dir_def dec_def digits.simps sprintf_def)
  then show ?thesis by (simp add: slot_up_def slot_netif_def os_net_def)
qed

theorem module_hex_roundtrip_witness:
  "\<exists>s1 buf' s2. WriteOptionBufferIndex os_net 3 [0xAB, 0xCD] 48 2
       (mod_sim, (\<lambda>_. None, \<lambda>_. [], []), []) = Some (0, s1) \<and>
     ReadOptionBufferIndex os_net 3 (replicate 255 7) 0 255 s1 = Some (0, buf', s2) \<and>
     buf' ! 48 = 0xAB"
proof -
  let ?s = "(mod_sim, (\<lambda>_. None, \<lambda>_. [], []), []) :: modsim mod_state"
  obtain s1 buf' s2 where r: "WriteOptionBufferIndex os_net 3 [0xAB, 0xCD] 48 2 ?s = Some (0, s1)"
     "ReadOptionBufferIndex os_net 3 (replicate 255 7) 0 255 s1 = Some (0, buf', s2)"
     "take 255 buf' = blit (mod_options os_net 3 ?s) (nat 48) (take (nat 2) [0xAB, 0xCD])"
    using module_hex_roundtrip [of ?s os_net 3 48 2 "[0xAB, 0xCD]" "replicate 255 7"]
      mod_sim_laws mod_sim_works os_net_up by auto
  have "length (mod_options os_net 3 ?s) = 255"
    using modopt.img_size [of ?s] mod_sim_laws by (simp add: mod_ok_def)
  then have "take 255 buf' ! 48 = 0xAB" unfolding r(3) by (simp add: blit_nth)
  then show ?thesis using r(1,2) by (intro exI [of _ s1] exI [of _ buf'] exI [of _ s2]) auto
qed

text \<open>
  \<^verbatim>\<open>_netclient_cmd_WriteEEPRom\<close> has room for 254 bytes: a length of 255, which is the size
  of the EEPROM and which its caller does not check, writes the hexadecimal text past its buffer.
\<close>

lemma optfill_overruns:
  assumes "slot_up os i" "modnet_works (fst s)" "255 \<le> len"
  shows "WriteOptionBufferIndex os i bs st len s = None"
proof -
  obtain M d nf where s: "s = (M, d, nf)" by (cases s) auto
  obtain od where nf: "v400_boardres_ind2netif os i = Some (0, slot_netif os i, od)" "slot_netif os i \<noteq> []"
    using assms(1) by (auto simp: slot_up_def)
  obtain sk s1 where cr: "CreateModuleSocketClient os (M, d, slot_netif os i) = Some (0, sk, s1)"
    using Create_works [of M os i d] assms(1,2) by (auto simp: s)
  have "netclient_cmd_WriteEEPRom sk st len (Some bs) s1 = None"
    using WriteEEPRom_bounds [of sk st len bs s1] assms(3) by (cases "netclient_cmd_WriteEEPRom sk st len (Some bs) s1") auto
  then show ?thesis using nf cr by (simp add: WriteOptionBufferIndex_def s)
qed

end
