(* ===== verification/Options.thy ===== *)
theory Options
  imports Md5 Eeprom Ftdi NetClient
begin

text \<open>
  The options of the instrument and its modules: the password of an option (\<^verbatim>\<open>CheckPwd\<close>), setting
  one bit (\<^verbatim>\<open>BitOptionDeal\<close>, \<^verbatim>\<open>WriteOptionBit\<close>) and the buffers a client reads and writes by
  address (\<^verbatim>\<open>ReadModuleBuf\<close>, \<^verbatim>\<open>WriteModuleBuf\<close>), all of \<^verbatim>\<open>common/VControlServer.cpp\<close>. Which
  of the three stores is meant is decided by the slot number and the type of the module.
\<close>

definition EEPRomStart :: int where "EEPRomStart = 0x30"

definition IndexValid :: "int \<Rightarrow> bool" where
  "IndexValid index \<longleftrightarrow> 0 \<le> index \<and> index \<le> 5"

record OPTTABLEINFO300 =
  opt_offset :: int
  szPwd :: bytes

record OPTIONINFO =
  optTableInfo :: OPTTABLEINFO300
  opt_data :: int
  opt_index :: int

record MODULEINFO =
  iStartAddr :: int
  iLength :: int
  iIndex :: int

text \<open>The three stores: the EEPROM of the instrument, FTDI chips, modules on the network.\<close>

type_synonym ('a, 'b, 'c) board = "'a susi_state \<times> 'b ftdi_state \<times> 'c mod_state"

subsection \<open>Passwords\<close>

definition pwd_char :: "int \<Rightarrow> byte" where
  "pwd_char tmp =
     (if tmp < 26 then word_of_int (65 + tmp)
      else if tmp < 36 then word_of_int (22 + tmp)
      else word_of_int (61 + tmp))"

fun pwd_loop :: "bytes \<Rightarrow> nat \<Rightarrow> bytes option" where
  "pwd_loop md5checksum 0 = Some []"
| "pwd_loop md5checksum (Suc i) = do {
     password \<leftarrow> pwd_loop md5checksum i;
     hi \<leftarrow> load md5checksum (2 * i + 1);
     lo \<leftarrow> load md5checksum (2 * i);
     Some (password @ [pwd_char ((uint hi * 256 + uint lo) mod 62)])
   }"

definition CheckPwd :: "OPTTABLEINFO300 \<Rightarrow> bytes \<Rightarrow> bytes \<Rightarrow> bool option" where
  "CheckPwd stOptTbl mac serAll = do {
     let offset = opt_offset stOptTbl;
     iSnLen \<leftarrow> (if 0 \<in> set serAll then Some (strlen serAll) else None);
     len \<leftarrow> int_add offset (6 + 10 + int iSnLen);
     temp \<leftarrow> (if len < 0 then None else Some (replicate (nat len) 0));
     temp \<leftarrow> memcpy temp 0 mac 0 6;
     temp \<leftarrow> (if offset + 10 < 0 then None
              else memset temp 6 (word_of_int (offset smod 62)) (nat (offset + 10)));
     temp \<leftarrow> memcpy temp (6 + nat (offset + 10)) serAll 0 iSnLen;
     md5checksum \<leftarrow> MD5Data temp (word_of_int len);
     password \<leftarrow> pwd_loop md5checksum 8;
     memcmp0 password (szPwd stOptTbl) 8
   }"

subsection \<open>One bit of a byte\<close>

definition BitOptionDeal :: "int \<Rightarrow> int \<Rightarrow> int \<Rightarrow> int" where
  "BitOptionDeal iSource iBit iData =
     (if iData = 0 then
        (if iBit = 0 then iSource AND 0xFE
         else if iBit = 1 then iSource AND 0xFD
         else if iBit = 2 then iSource AND 0xFB
         else if iBit = 3 then iSource AND 0xF7
         else if iBit = 4 then iSource AND 0xEF
         else if iBit = 5 then iSource AND 0xDF
         else if iBit = 6 then iSource AND 0xBF
         else if iBit = 7 then iSource AND 0x7F
         else iSource)
      else if iData = 1 then
        (if iBit = 0 then iSource OR 0x01
         else if iBit = 1 then iSource OR 0x02
         else if iBit = 2 then iSource OR 0x04
         else if iBit = 3 then iSource OR 0x08
         else if iBit = 4 then iSource OR 0x10
         else if iBit = 5 then iSource OR 0x20
         else if iBit = 6 then iSource OR 0x40
         else if iBit = 7 then iSource OR 0x80
         else iSource)
      else iSource)"

subsection \<open>Writing an option\<close>

definition is_ftdi_type :: "int \<Rightarrow> bool" where
  "is_ftdi_type iType \<longleftrightarrow> iType = board_code eV400_board_40g \<or> iType = board_code eV400_board_2g5"

text \<open>The three branches of \<^verbatim>\<open>WriteOptionBit\<close>, in the order of the source.\<close>

definition WriteOptionBit_40g ::
  "os \<Rightarrow> OPTIONINFO \<Rightarrow> int \<Rightarrow> 'b ftdi_state \<Rightarrow> (int \<times> 'b ftdi_state) option" where
  "WriteOptionBit_40g os pOptionInfo iBit s = do {
     let iCount = opt_offset (optTableInfo pOptionInfo) sdiv 8;
     (if iCount < 0 \<or> int OPTION_SIZE_FTDI \<le> iCount then Some (1, s)
      else do {
        (iRet, sn) \<leftarrow> v400_boardres_ind2sn os (opt_index pOptionInfo) (replicate 256 0);
        (if iRet \<noteq> 0 then Some (iRet, s)
         else do {
           serAll \<leftarrow> memcpy (replicate 16 0) 0 sn 0 15;
           ok \<leftarrow> CheckPwd (optTableInfo pOptionInfo) (replicate 6 0) serAll;
           (if \<not> ok then Some (21, s)
            else do {
              (iRet, pBuff, s) \<leftarrow> ReadOptionBufferIndex_40g os (opt_index pOptionInfo)
                 (replicate OPTION_SIZE_FTDI 0) 0 (int OPTION_SIZE_FTDI) s;
              (if iRet \<noteq> 0 then Some (iRet, s)
               else do {
                 v \<leftarrow> load pBuff (nat iCount);
                 let nValue = BitOptionDeal (uint v) iBit (opt_data pOptionInfo);
                 WriteOptionBufferIndex_40g os (opt_index pOptionInfo) [word_of_int nValue] iCount 1 s
               })
            })
         })
      })
   }"

definition WriteOptionBit_net ::
  "os \<Rightarrow> OPTIONINFO \<Rightarrow> int \<Rightarrow> int \<Rightarrow> 'c mod_state \<Rightarrow> (int \<times> 'c mod_state) option" where
  "WriteOptionBit_net os pOptionInfo iCount iBit s = do {
     (iRet, pBuff, s) \<leftarrow> ReadOptionBufferIndex os (opt_index pOptionInfo) (replicate 255 0) 0 EEPROM_MAXSIZE s;
     (if iRet \<noteq> 0 then Some (iRet, s)
      else do {
        mac \<leftarrow> memcpy (replicate 6 0) 0 pBuff 0 6;
        serAll \<leftarrow> memcpy (replicate 16 0) 0 pBuff 32 15;
        ok \<leftarrow> CheckPwd (optTableInfo pOptionInfo) mac serAll;
        (if \<not> ok then Some (21, s)
         else do {
           v \<leftarrow> load pBuff (nat iCount);
           let nValue = BitOptionDeal (uint v) iBit (opt_data pOptionInfo);
           WriteOptionBufferIndex os (opt_index pOptionInfo) [word_of_int nValue] iCount 1 s
         })
      })
   }"

definition WriteOptionBit_eeprom ::
  "OPTIONINFO \<Rightarrow> int \<Rightarrow> int \<Rightarrow> 'a susi_state \<Rightarrow> (int \<times> 'a susi_state) option" where
  "WriteOptionBit_eeprom pOptionInfo iCount iBit s = do {
     (iRet, pBuff, s) \<leftarrow> ReadOptionBuffer (replicate 255 0) 0 EEPROM_MAXSIZE s;
     (if iRet \<noteq> 0 then Some (iRet, s)
      else do {
        mac \<leftarrow> memcpy (replicate 6 0) 0 pBuff 0 6;
        serAll \<leftarrow> memcpy (replicate 16 0) 0 pBuff 16 14;
        ok \<leftarrow> CheckPwd (optTableInfo pOptionInfo) mac serAll;
        (if \<not> ok then Some (21, s)
         else do {
           v \<leftarrow> load pBuff (nat iCount);
           let nValue = BitOptionDeal (uint v) iBit (opt_data pOptionInfo);
           pBuff \<leftarrow> store pBuff (nat iCount) (word_of_int nValue);
           WriteOptionBuffer pBuff 0 EEPROM_MAXSIZE s
         })
      })
   }"

definition WriteOptionBit ::
  "os \<Rightarrow> OPTIONINFO \<Rightarrow> ('a, 'b, 'c) board \<Rightarrow> (int \<times> ('a, 'b, 'c) board) option" where
  "WriteOptionBit os pOptionInfo = (\<lambda>(E, D, M).
     let iCount = opt_offset (optTableInfo pOptionInfo) sdiv 8 + EEPRomStart;
         iBit = opt_offset (optTableInfo pOptionInfo) smod 8
     in if iCount < EEPRomStart \<or> EEPROM_MAXSIZE \<le> iCount then Some (1, E, D, M)
     else if IndexValid (opt_index pOptionInfo) then do {
       iType \<leftarrow> GetBoardresType os (opt_index pOptionInfo);
       (if is_ftdi_type iType then do {
          (iRet, D) \<leftarrow> WriteOptionBit_40g os pOptionInfo iBit D;
          Some (iRet, E, D, M)
        }
        else do {
          (iRet, M) \<leftarrow> WriteOptionBit_net os pOptionInfo iCount iBit M;
          Some (iRet, E, D, M)
        })
     }
     else do {
       (iRet, E) \<leftarrow> WriteOptionBit_eeprom pOptionInfo iCount iBit E;
       Some (iRet, E, D, M)
     })"

subsection \<open>Buffers by address\<close>

definition ReadModuleBuf ::
  "os \<Rightarrow> MODULEINFO \<Rightarrow> bytes option \<Rightarrow> ('a, 'b, 'c) board \<Rightarrow>
     (int \<times> bytes option \<times> ('a, 'b, 'c) board) option" where
  "ReadModuleBuf os m pBuff = (\<lambda>(E, D, M).
     case pBuff of None \<Rightarrow> Some (2, None, E, D, M) | Some pBuff \<Rightarrow>
       if IndexValid (iIndex m) then do {
         iType \<leftarrow> GetBoardresType os (iIndex m);
         (if is_ftdi_type iType then do {
            (iRet, pBuff, D) \<leftarrow> ReadOptionBufferIndex_40g os (iIndex m) pBuff (iStartAddr m) (iLength m) D;
            Some (iRet, Some pBuff, E, D, M)
          }
          else do {
            (iRet, pBuff, M) \<leftarrow> ReadOptionBufferIndex os (iIndex m) pBuff (iStartAddr m) (iLength m) M;
            Some (iRet, Some pBuff, E, D, M)
          })
       }
       else do {
         (iRet, pBuff, E) \<leftarrow> ReadOptionBuffer pBuff (iStartAddr m) (iLength m) E;
         Some (iRet, Some pBuff, E, D, M)
       })"

definition WriteModuleBuf ::
  "os \<Rightarrow> MODULEINFO \<Rightarrow> bytes option \<Rightarrow> ('a, 'b, 'c) board \<Rightarrow> (int \<times> ('a, 'b, 'c) board) option" where
  "WriteModuleBuf os m pBuff = (\<lambda>(E, D, M).
     case pBuff of None \<Rightarrow> Some (2, E, D, M) | Some pBuff \<Rightarrow>
       if IndexValid (iIndex m) then do {
         iType \<leftarrow> GetBoardresType os (iIndex m);
         (if is_ftdi_type iType then do {
            (iRet, D) \<leftarrow> WriteOptionBufferIndex_40g os (iIndex m) pBuff (iStartAddr m) (iLength m) D;
            Some (iRet, E, D, M)
          }
          else do {
            (iRet, M) \<leftarrow> WriteOptionBufferIndex os (iIndex m) pBuff (iStartAddr m) (iLength m) M;
            Some (iRet, E, D, M)
          })
       }
       else do {
         (iRet, E) \<leftarrow> WriteOptionBuffer pBuff (iStartAddr m) (iLength m) E;
         Some (iRet, E, D, M)
       })"

subsection \<open>The password of an option\<close>

definition option_password :: "bytes \<Rightarrow> bytes \<Rightarrow> int \<Rightarrow> bytes" where
  "option_password mac ser off =
     (let h = md5 (mac @ replicate (nat (off + 10)) (word_of_int (off smod 62)) @ ser)
      in map (\<lambda>i. pwd_char ((uint (h ! (2 * i + 1)) * 256 + uint (h ! (2 * i))) mod 62)) [0..<8])"

lemma pwd_loop_eq:
  "2 * n \<le> length h \<Longrightarrow> pwd_loop h n =
     Some (map (\<lambda>i. pwd_char ((uint (h ! (2 * i + 1)) * 256 + uint (h ! (2 * i))) mod 62)) [0..<n])"
  by (induction n) (simp_all add: cmem)

lemma CheckPwd_eq:
  assumes "length mac = 6" "0 \<in> set serAll" "length serAll \<le> 16" "8 \<le> length (szPwd t)"
    "-10 \<le> opt_offset t" "opt_offset t \<le> 2000"
  shows "CheckPwd t mac serAll =
     Some (take 8 (szPwd t) = option_password mac (cstr serAll) (opt_offset t))"
proof -
  define off where "off = opt_offset t"
  define n where "n = strlen serAll"
  define k where "k = nat (off + 10)"
  define fill where "fill = (word_of_int (off smod 62) :: byte)"
  have n: "n \<le> 16" using strlen_le [of serAll] assms(3) by (simp add: n_def)
  have k: "int k = off + 10" "k \<le> 2010" using assms(5,6) by (auto simp: k_def off_def)
  have tn: "take n serAll = cstr serAll"
    by (metis n_def strlen_def cstr_def takeWhile_eq_take)
  have lc: "length (cstr serAll) = n" by (simp add: n_def strlen_def)
  have len: "int_add off (6 + 10 + int n) = Some (int (6 + k + n))"
    using k n by (simp add: int_add_def)
  have c1: "memcpy (replicate (6 + k + n) 0) 0 mac 0 6 = Some (mac @ replicate (k + n) 0)"
    using assms(1) by (simp add: memcpy_def blit_def)
  have c2: "memset (mac @ replicate (k + n) 0) 6 fill k = Some (mac @ replicate k fill @ replicate n 0)"
    using assms(1) by (simp add: memset_def blit_def)
  have c3: "memcpy (mac @ replicate k fill @ replicate n 0) (6 + k) serAll 0 n =
      Some (mac @ replicate k fill @ cstr serAll)"
    using assms(1) tn strlen_le [of serAll] lc by (simp add: memcpy_def blit_def n_def [symmetric])
  have lm: "length (mac @ replicate k fill @ cstr serAll) = 6 + k + n"
    using assms(1) by (simp add: n_def strlen_def)
  have h: "MD5Data (mac @ replicate k fill @ cstr serAll) (word_of_int (int (6 + k + n))) =
      Some (md5 (mac @ replicate k fill @ cstr serAll))"
    using MDBytes_eq [of "6 + k + n" "mac @ replicate k fill @ cstr serAll"] lm k(2) n
    by (simp add: MD5Data_MDBytes)
  have p: "pwd_loop (md5 (mac @ replicate k fill @ cstr serAll)) 8 =
      Some (option_password mac (cstr serAll) off)"
    by (simp add: pwd_loop_eq option_password_def Let_def k_def fill_def)
  have lp: "length (option_password mac (cstr serAll) off) = 8"
    by (simp add: option_password_def Let_def)
  have "memcmp0 (option_password mac (cstr serAll) off) (szPwd t) 8 =
      Some (take 8 (szPwd t) = option_password mac (cstr serAll) off)"
    using assms(4) lp by (auto simp: memcmp0_def)
  note c4 = this
  have c: "(0 \<in> set serAll) = True" "(off + 10 < 0) = False" "nat (int (6 + k + n)) = 6 + k + n"
    "(int (6 + k + n) < 0) = False"
    using k(1) assms(2) by auto
  show ?thesis
    by (simp only: CheckPwd_def Let_def off_def [symmetric] n_def [symmetric] k_def [symmetric]
        fill_def [symmetric] if_True if_False Option.bind.bind_lunit c len c1 c2 c3 c4 h p)
qed

subsection \<open>One bit\<close>

definition change_bit :: "byte \<Rightarrow> nat \<Rightarrow> int \<Rightarrow> byte" where
  "change_bit b k v = (if v = 0 then unset_bit k b else if v = 1 then set_bit k b else b)"

lemma BitOptionDeal_byte:
  assumes "k < 8"
  shows "word_of_int (BitOptionDeal (uint b) (int k) v) = change_bit b k v"
proof -
  have e: "(254 :: byte) = -2" "(253 :: byte) = -3" "(251 :: byte) = -5" "(247 :: byte) = -9"
    "(239 :: byte) = -17" "(223 :: byte) = -33" "(191 :: byte) = -65" "(127 :: byte) = -129"
    by simp_all
  have m: "b AND 0xFE = unset_bit 0 b" "b AND 0xFD = unset_bit 1 b" "b AND 0xFB = unset_bit 2 b"
    "b AND 0xF7 = unset_bit 3 b" "b AND 0xEF = unset_bit 4 b" "b AND 0xDF = unset_bit 5 b"
    "b AND 0xBF = unset_bit 6 b" "b AND 0x7F = unset_bit 7 b"
    by (simp_all add: unset_bit_eq_and_not push_bit_eq_mult not_eq_complement e)
  have o: "b OR 1 = set_bit 0 b" "b OR 2 = set_bit 1 b" "b OR 4 = set_bit 2 b" "b OR 8 = set_bit 3 b"
    "b OR 0x10 = set_bit 4 b" "b OR 0x20 = set_bit 5 b" "b OR 0x40 = set_bit 6 b" "b OR 0x80 = set_bit 7 b"
    by (simp_all add: set_bit_eq_or push_bit_eq_mult)
  consider "k = 0" | "k = 1" | "k = 2" | "k = 3" | "k = 4" | "k = 5" | "k = 6" | "k = 7"
    using assms by linarith
  then show ?thesis
    by cases (simp_all add: BitOptionDeal_def change_bit_def of_int_and_eq of_int_or_eq m o)
qed

lemma BitOptionDeal_other: "i < 0 \<Longrightarrow> BitOptionDeal b i v = b"
  by (simp add: BitOptionDeal_def)

subsection \<open>The three branches\<close>

lemma cstr_append_nul_any: "cstr (x @ 0 # y) = cstr x"
  by (simp add: cstr_def takeWhile_tail)

lemma offset_bounds:
  assumes "0 \<le> off sdiv 8" "off sdiv 8 < 207"
  shows "-10 \<le> off \<and> off \<le> (2000 :: int)"
  using assms by (cases "off < 0") (auto simp: signed_divide_int_def sgn_if split: if_splits)

lemma offset_nonneg: "0 \<le> (off :: int) \<Longrightarrow> off sdiv 8 = off div 8 \<and> off smod 8 = off mod 8"
  by (auto simp: signed_divide_int_def signed_modulo_int_def sgn_if minus_div_mult_eq_mod [symmetric])

text \<open>The identity a password is made of, read from a store of 255 bytes.\<close>

definition store_password :: "bytes \<Rightarrow> nat \<Rightarrow> nat \<Rightarrow> int \<Rightarrow> bytes" where
  "store_password img at n off = option_password (take 6 img) (cstr (take n (drop at img))) off"

lemma CheckPwd_store:
  assumes "take 255 buf = img" "length img = 255" "at + n \<le> 255" "n < 16" "8 \<le> length (szPwd t)"
    "0 \<le> opt_offset t sdiv 8" "opt_offset t sdiv 8 < 207"
  shows "\<exists>mac ser. memcpy (replicate 6 0) 0 buf 0 6 = Some mac \<and>
     memcpy (replicate 16 0) 0 buf at n = Some ser \<and>
     CheckPwd t mac ser = Some (take 8 (szPwd t) = store_password img at n (opt_offset t))"
proof -
  have lb: "255 \<le> length buf" using assms(1,2) by auto
  have t6: "take 6 buf = take 6 img" using assms(1) by auto
  have tn: "take n (drop at buf) = take n (drop at img)"
    using assms(1,3) by (auto simp: drop_take)
  have m: "memcpy (replicate 6 0) 0 buf 0 6 = Some (take 6 img)"
    using lb t6 assms(2) by (simp add: memcpy_def blit_def)
  let ?ser = "take n (drop at img) @ replicate (16 - n) 0"
  have r: "replicate (16 - n) 0 = (0 :: byte) # replicate (15 - n) 0"
    using assms(4) by (simp add: replicate_Suc [symmetric] del: replicate_Suc)
  have s: "memcpy (replicate 16 0) 0 buf at n = Some ?ser"
    using lb tn assms(2-4) by (simp add: memcpy_def blit_def)
  have "CheckPwd t (take 6 img) ?ser = Some (take 8 (szPwd t) = option_password (take 6 img) (cstr ?ser) (opt_offset t))"
    using assms(2-5) offset_bounds [OF assms(6,7)] r by (intro CheckPwd_eq) auto
  then show ?thesis using m s by (simp add: store_password_def r cstr_append_nul_any)
qed

lemma WriteOptionBit_eeprom_wrong:
  assumes "susi_ok s" "WriteOptionBit_eeprom t iCount iBit s = Some (r, s')"
    "0 \<le> opt_offset (optTableInfo t) sdiv 8" "opt_offset (optTableInfo t) sdiv 8 < 207"
    "8 \<le> length (szPwd (optTableInfo t))"
    "take 8 (szPwd (optTableInfo t)) \<noteq> store_password (susi_image s) 16 14 (opt_offset (optTableInfo t))"
  shows "r \<noteq> 0 \<and> susi_image s' = susi_image s"
proof -
  obtain ret buf s1 where rd: "ReadOptionBuffer (replicate 255 0) 0 255 s = Some (ret, buf, s1)"
    using assms(2) by (auto simp: WriteOptionBit_eeprom_def EEPROM_MAXSIZE_def split: bind_splits)
  have k: "susi_image s1 = susi_image s" using eeprom.rd_keeps [OF assms(1) rd] by simp
  show ?thesis
  proof (cases "ret = 0")
    case False
    then show ?thesis using assms(2) rd k by (auto simp: WriteOptionBit_eeprom_def EEPROM_MAXSIZE_def)
  next
    case True
    have "take 255 buf = susi_image s"
      using eeprom.rd_bytes [OF assms(1) rd [unfolded True]] susi_length [OF assms(1)] by simp
    from CheckPwd_store [OF this susi_length [OF assms(1)], of 16 14 "optTableInfo t"]
    show ?thesis using assms True rd k
      by (auto simp: WriteOptionBit_eeprom_def EEPROM_MAXSIZE_def)
  qed
qed

lemma WriteOptionBit_eeprom_works:
  assumes "susi_ok s" "susi_works (fst s)" "48 \<le> iCount" "iCount < 255"
    "0 \<le> opt_offset (optTableInfo t) sdiv 8" "opt_offset (optTableInfo t) sdiv 8 < 207"
    "8 \<le> length (szPwd (optTableInfo t))"
  shows "\<exists>s'. WriteOptionBit_eeprom t iCount iBit s = Some
     (if take 8 (szPwd (optTableInfo t)) = store_password (susi_image s) 16 14 (opt_offset (optTableInfo t))
      then 0 else 21, s') \<and>
     susi_image s' =
       (if take 8 (szPwd (optTableInfo t)) = store_password (susi_image s) 16 14 (opt_offset (optTableInfo t))
        then (susi_image s)[nat iCount :=
          word_of_int (BitOptionDeal (uint (susi_image s ! nat iCount)) iBit (opt_data t))]
        else susi_image s)"
proof -
  obtain buf s1 where rd: "ReadOptionBuffer (replicate 255 0) 0 255 s = Some (0, buf, s1)"
      and fs: "fst s1 = fst s" and lb: "length buf = 255"
    using ReadOptionBuffer_works [OF assms(1,2), of 0 255 "replicate 255 0"] by auto
  have s1: "susi_image s1 = susi_image s" "susi_ok s1" using eeprom.rd_keeps [OF assms(1) rd] by simp_all
  have tk: "take 255 buf = susi_image s"
    using eeprom.rd_bytes [OF assms(1) rd] susi_length [OF assms(1)] by simp
  obtain mac ser where p: "memcpy (replicate 6 0) 0 buf 0 6 = Some mac"
      "memcpy (replicate 16 0) 0 buf 16 14 = Some ser"
      "CheckPwd (optTableInfo t) mac ser = Some (take 8 (szPwd (optTableInfo t)) =
         store_password (susi_image s) 16 14 (opt_offset (optTableInfo t)))"
    using CheckPwd_store [OF tk susi_length [OF assms(1)], of 16 14 "optTableInfo t"] assms(5-7) by auto
  let ?f = "\<lambda>v. word_of_int (BitOptionDeal (uint v) iBit (opt_data t)) :: byte"
  let ?w = "buf[nat iCount := ?f (buf ! nat iCount)]"
  have lw: "nat 255 \<le> length ?w" using lb by simp
  obtain s2 where wr: "WriteOptionBuffer ?w 0 255 s1 = Some (0, s2)"
    using WriteOptionBuffer_works [OF s1(2), of 0 255 ?w] assms(2) fs lw by auto
  have "susi_image s2 = (susi_image s)[nat iCount := ?f (susi_image s ! nat iCount)]"
    using eeprom.change_byte_whole [OF assms(1) rd, of iCount ?f s2] assms(3,4) lb wr by simp
  moreover have "nat iCount < length buf" using assms(3,4) lb by simp
  ultimately show ?thesis
    using rd p wr s1(1)
    by (cases "take 8 (szPwd (optTableInfo t)) = store_password (susi_image s) 16 14 (opt_offset (optTableInfo t))")
      (simp_all add: WriteOptionBit_eeprom_def EEPROM_MAXSIZE_def cmem)
qed

lemma WriteOptionBit_net_wrong:
  assumes "mod_ok s" "WriteOptionBit_net os t iCount iBit s = Some (r, s')"
    "0 \<le> opt_offset (optTableInfo t) sdiv 8" "opt_offset (optTableInfo t) sdiv 8 < 207"
    "8 \<le> length (szPwd (optTableInfo t))"
    "take 8 (szPwd (optTableInfo t)) \<noteq>
       store_password (mod_options os (opt_index t) s) 32 15 (opt_offset (optTableInfo t))"
  shows "r \<noteq> 0 \<and> mod_options os j s' = mod_options os j s"
proof -
  let ?i = "opt_index t"
  obtain M d nf where s: "s = (M, d, nf)" by (cases s) auto
  have M: "modnet_laws M" using assms(1) by (simp add: mod_ok_def s)
  obtain ret buf s1 where rd: "ReadOptionBufferIndex os ?i (replicate 255 0) 0 255 s = Some (ret, buf, s1)"
    using assms(2) by (auto simp: WriteOptionBit_net_def EEPROM_MAXSIZE_def split: bind_splits)
  have k: "mod_options os j s1 = mod_options os j s"
    using Read_index_keeps [OF M rd [unfolded s]] by (auto simp: mod_options_def s)
  show ?thesis
  proof (cases "ret = 0")
    case False
    then show ?thesis using assms(2) rd k by (auto simp: WriteOptionBit_net_def EEPROM_MAXSIZE_def)
  next
    case True
    have l: "length (mod_options os ?i s) = 255" using modopt.img_size [OF assms(1)] by simp
    have "take 255 buf = mod_options os ?i s"
      using modopt.rd_bytes [OF assms(1) rd [unfolded True]] l by simp
    from CheckPwd_store [OF this l, of 32 15 "optTableInfo t"]
    show ?thesis using assms True rd k
      by (auto simp: WriteOptionBit_net_def EEPROM_MAXSIZE_def)
  qed
qed

lemma WriteOptionBit_net_works:
  assumes "mod_ok s" "modnet_works (fst s)" "slot_up os (opt_index t)" "48 \<le> iCount" "iCount < 255"
    "0 \<le> opt_offset (optTableInfo t) sdiv 8" "opt_offset (optTableInfo t) sdiv 8 < 207"
    "8 \<le> length (szPwd (optTableInfo t))"
  defines "right \<equiv> take 8 (szPwd (optTableInfo t)) =
     store_password (mod_options os (opt_index t) s) 32 15 (opt_offset (optTableInfo t))"
  shows "\<exists>s'. WriteOptionBit_net os t iCount iBit s = Some (if right then 0 else 21, s') \<and>
     mod_options os (opt_index t) s' =
       (if right then (mod_options os (opt_index t) s)[nat iCount :=
          word_of_int (BitOptionDeal (uint (mod_options os (opt_index t) s ! nat iCount)) iBit (opt_data t))]
        else mod_options os (opt_index t) s)"
proof -
  let ?i = "opt_index t"
  obtain M d nf where s: "s = (M, d, nf)" by (cases s) auto
  have M: "modnet_laws (fst s)" using assms(1) by (simp add: mod_ok_def)
  have l: "length (mod_options os ?i s) = 255" using modopt.img_size [OF assms(1)] by simp
  obtain buf s1 where rd: "ReadOptionBufferIndex os ?i (replicate 255 0) 0 255 s = Some (0, buf, s1)"
      and fs: "fst s1 = fst s"
    using Read_index_works [OF M assms(2,3), of 0 255 "replicate 255 0"] by auto
  have s1: "mod_options os ?i s1 = mod_options os ?i s" "mod_ok s1" using modopt.rd_keeps [OF assms(1) rd] by simp_all
  have tk: "take 255 buf = mod_options os ?i s"
    using modopt.rd_bytes [OF assms(1) rd] l by simp
  have lb: "255 \<le> length buf" using arg_cong [OF tk, of length] l by simp
  obtain mac ser where p: "memcpy (replicate 6 0) 0 buf 0 6 = Some mac"
      "memcpy (replicate 16 0) 0 buf 32 15 = Some ser" "CheckPwd (optTableInfo t) mac ser = Some right"
    using CheckPwd_store [OF tk l, of 32 15 "optTableInfo t"] assms(6-8) by (auto simp: right_def)
  let ?f = "\<lambda>v. word_of_int (BitOptionDeal (uint v) iBit (opt_data t)) :: byte"
  obtain s2 where wr: "WriteOptionBufferIndex os ?i [?f (buf ! nat iCount)] iCount 1 s1 = Some (0, s2)"
    using Write_index_works [of s1 os ?i iCount 1 "[?f (buf ! nat iCount)]"] M assms(2-5) fs by auto
  have "mod_options os ?i s2 = (mod_options os ?i s)[nat iCount := ?f (mod_options os ?i s ! nat iCount)]"
    using modopt.change_byte [OF assms(1) rd, of iCount ?f s2] assms(4,5) wr by simp
  moreover have "nat iCount < length buf" using assms(4,5) lb by simp
  ultimately show ?thesis
    using rd p wr s1(1) by (cases right) (simp_all add: WriteOptionBit_net_def EEPROM_MAXSIZE_def cmem)
qed

lemma ftdi_identity:
  assumes "0 \<le> i" "i < 6" "8 \<le> length (szPwd t)"
    "0 \<le> opt_offset t sdiv 8" "opt_offset t sdiv 8 < 207"
  shows "\<exists>sn ser. v400_boardres_ind2sn os i (replicate 256 0) = Some (0, sn) \<and>
     memcpy (replicate 16 0) 0 sn 0 15 = Some ser \<and>
     CheckPwd t (replicate 6 0) ser = Some (take 8 (szPwd t) =
       option_password (replicate 6 0) (take 15 (slot_serial os i)) (opt_offset t))"
proof -
  let ?s = "slot_serial os i"
  obtain rest where sn: "v400_boardres_ind2sn os i (replicate 256 0) =
      Some (0, ?s @ replicate (17 - length ?s) 0 @ rest)" "length rest = 239"
    using ind2sn_slot [OF assms(1,2), of "replicate 256 0" os] by auto
  have s: "length ?s \<le> 16" "\<forall>b \<in> set ?s. isalnum b"
    using serial_of_props by (auto simp: slot_serial_def split: option.splits)
  let ?sn = "?s @ replicate (17 - length ?s) 0 @ rest"
  have "length (take 15 ?sn) = 15" using sn(2) by simp
  then have "blit (replicate 16 0) 0 (take 15 ?sn) = take 15 ?sn @ [0]"
    unfolding blit_def by (simp del: take_append length_take length_append)
  moreover have "memcpy (replicate 16 0) 0 ?sn 0 15 = Some (blit (replicate 16 0) 0 (take 15 ?sn))"
    using sn(2) by (simp add: memcpy_def)
  ultimately have m: "memcpy (replicate 16 0) 0 ?sn 0 15 = Some (take 15 ?sn @ [0])" by simp
  have "0 \<notin> set ?s" using s(2) by (auto simp: isalnum_def)
  then have n: "0 \<notin> set (take 15 ?s)" using in_set_takeD by metis
  have "cstr (take 15 ?sn @ [0]) = take 15 ?s"
  proof (cases "15 \<le> length ?s")
    case True
    then show ?thesis using cstr_append_nul [OF n, of "[]"] by simp
  next
    case False
    then have "take 15 ?sn @ [0] = take 15 ?s @ 0 # replicate (15 - length ?s) 0"
      by (simp add: take_replicate min_def replicate_append_same [symmetric] del: replicate_append_same)
    then show ?thesis using cstr_append_nul [OF n] by simp
  qed
  moreover have "CheckPwd t (replicate 6 0) (take 15 ?sn @ [0]) = Some (take 8 (szPwd t) =
      option_password (replicate 6 0) (cstr (take 15 ?sn @ [0])) (opt_offset t))"
    using assms(3) offset_bounds [OF assms(4,5)] by (intro CheckPwd_eq) simp_all
  ultimately show ?thesis using sn(1) m by metis
qed

lemma WriteOptionBit_40g_wrong:
  assumes "0 \<le> opt_index t" "opt_index t < 6" "8 \<le> length (szPwd (optTableInfo t))"
    "0 \<le> opt_offset (optTableInfo t) sdiv 8" "opt_offset (optTableInfo t) sdiv 8 < 207"
    "take 8 (szPwd (optTableInfo t)) \<noteq> option_password (replicate 6 0)
       (take 15 (slot_serial os (opt_index t))) (opt_offset (optTableInfo t))"
  shows "WriteOptionBit_40g os t iBit s =
    Some (if opt_offset (optTableInfo t) sdiv 8 < 14 then 21 else 1, s)"
  using ftdi_identity [OF assms(1-5), of os] assms(4,6)
  by (auto simp: WriteOptionBit_40g_def OPTION_SIZE_FTDI_def Let_def)

lemma WriteOptionBit_40g_works:
  assumes "ftdi_ok s" "ftdi_works (fst s)" "0 \<le> opt_index t" "opt_index t < 6"
    "chip_valid (chip (fst s) (slot_serial os (opt_index t)) (fst (snd s)))"
    "8 \<le> length (szPwd (optTableInfo t))"
    "0 \<le> opt_offset (optTableInfo t) sdiv 8" "opt_offset (optTableInfo t) sdiv 8 < 14"
    "take 8 (szPwd (optTableInfo t)) = option_password (replicate 6 0)
       (take 15 (slot_serial os (opt_index t))) (opt_offset (optTableInfo t))"
  defines "n \<equiv> nat (opt_offset (optTableInfo t) sdiv 8)"
  shows "\<exists>s'. WriteOptionBit_40g os t iBit s = Some (0, s') \<and>
     ftdi_options os (opt_index t) s' = (ftdi_options os (opt_index t) s)
       [n := word_of_int (BitOptionDeal (uint (ftdi_options os (opt_index t) s ! n)) iBit (opt_data t))]"
proof -
  let ?i = "opt_index t" and ?c = "opt_offset (optTableInfo t) sdiv 8"
  have l: "ftdi_laws (fst s)" using assms(1) by (simp add: ftdi_ok_def)
  obtain buf s1 where rd: "ReadOptionBufferIndex_40g os ?i (replicate 14 0) 0 14 s = Some (0, buf, s1)"
      and fs: "fst s1 = fst s"
    using Read_40g_works [OF l assms(2-5), of 0 14 "replicate 14 0"] by auto
  have s1: "ftdi_options os ?i s1 = ftdi_options os ?i s" "ftdi_ok s1" using ftdi.rd_keeps [OF assms(1) rd] by simp_all
  have v: "chip_valid (chip (fst s1) (slot_serial os ?i) (fst (snd s1)))"
    using Read_40g_zero [of "fst s" os ?i "replicate 14 0" 0 14 "fst (snd s)" "snd (snd s)" buf s1] l rd assms(5) by auto
  have "take 14 buf = ftdi_options os ?i s"
    using ftdi.rd_bytes [OF assms(1) rd] ftdi.img_size [OF assms(1), of os ?i] by simp
  from arg_cong [OF this, of length] have lb: "14 \<le> length buf"
    using ftdi.img_size [OF assms(1), of os ?i] by simp
  obtain sn ser where p: "v400_boardres_ind2sn os ?i (replicate 256 0) = Some (0, sn)"
     "memcpy (replicate 16 0) 0 sn 0 15 = Some ser"
     "CheckPwd (optTableInfo t) (replicate 6 0) ser = Some True"
    using ftdi_identity [OF assms(3,4,6,7), of os] assms(8,9) by auto
  let ?f = "\<lambda>v. word_of_int (BitOptionDeal (uint v) iBit (opt_data t)) :: byte"
  obtain s2 where wr: "WriteOptionBufferIndex_40g os ?i [?f (buf ! n)] ?c 1 s1 = Some (0, s2)"
    using Write_40g_works [of s1 ?i os ?c 1 "[?f (buf ! n)]"] l assms(2-4,7,8) v fs by auto
  have "ftdi_options os ?i s2 = (ftdi_options os ?i s)[n := ?f (ftdi_options os ?i s ! n)]"
    using ftdi.change_byte [OF assms(1) rd, of ?c ?f s2] assms(7,8) wr by (simp add: n_def)
  moreover have "n < length buf" using assms(7,8) lb by (simp add: n_def)
  ultimately show ?thesis using rd p wr s1(1) assms(7,8)
    by (intro exI [of _ s2]) (simp add: WriteOptionBit_40g_def OPTION_SIZE_FTDI_def cmem n_def [symmetric] Let_def)
qed

subsection \<open>Properties\<close>

definition board_ok :: "('a, 'b, 'c) board \<Rightarrow> bool" where
  "board_ok = (\<lambda>(E, D, M). susi_ok E \<and> ftdi_ok D \<and> mod_ok M)"

text \<open>The store that holds the options of a slot, or of the instrument for any other number.\<close>

definition slot_on_ftdi :: "os \<Rightarrow> int \<Rightarrow> bool" where
  "slot_on_ftdi os i \<longleftrightarrow> (case GetBoardresType os i of Some t \<Rightarrow> is_ftdi_type t | None \<Rightarrow> False)"

definition board_options :: "os \<Rightarrow> int \<Rightarrow> ('a, 'b, 'c) board \<Rightarrow> bytes" where
  "board_options os i = (\<lambda>(E, D, M).
     if \<not> IndexValid i then susi_image E
     else if slot_on_ftdi os i then ftdi_options os i D else mod_options os i M)"

definition right_password :: "os \<Rightarrow> OPTIONINFO \<Rightarrow> ('a, 'b, 'c) board \<Rightarrow> bool" where
  "right_password os t b =
     (let i = opt_index t; off = opt_offset (optTableInfo t); img = board_options os i b in
      take 8 (szPwd (optTableInfo t)) =
        (if \<not> IndexValid i then store_password img 16 14 off
         else if slot_on_ftdi os i then option_password (replicate 6 0) (take 15 (slot_serial os i)) off
         else store_password img 32 15 off))"

definition board_works :: "os \<Rightarrow> int \<Rightarrow> ('a, 'b, 'c) board \<Rightarrow> bool" where
  "board_works os i = (\<lambda>(E, D, M).
     if \<not> IndexValid i then susi_works (fst E)
     else if slot_on_ftdi os i
       then ftdi_works (fst D) \<and> chip_valid (chip (fst D) (slot_serial os i) (fst (snd D)))
     else modnet_works (fst M) \<and> slot_up os i)"

lemma type_known: "IndexValid i \<Longrightarrow> \<exists>t. GetBoardresType os i = Some t"
proof -
  assume "IndexValid i"
  then have i: "0 \<le> i" "i < 6" by (auto simp: IndexValid_def)
  obtain sn where "v400_boardres_ind2sn os i (replicate 256 0) = Some (0, sn)"
    using slot_sn [OF i] .
  moreover have "length (slot_serial os i) \<le> 16"
    using serial_of_props(1) by (auto simp: slot_serial_def split: option.splits)
  then have "length sn = 256" using ind2sn_slot [OF i, of "replicate 256 0" os] calculation by auto
  ultimately show ?thesis
    by (simp add: GetBoardresType_def v400_boardres_sn2type_def memcmp0_def split: option.splits)
qed

lemma pwd_char_alnum: "isalnum (pwd_char (v mod 62))"
proof -
  define m where "m = nat (v mod 62)"
  have m: "v mod 62 = int m" "m < 62" by (simp_all add: m_def)
  have w: "word_of_int (k + int m) = (of_nat (nat k + m) :: byte)" if "0 \<le> k" for k
  proof -
    have "k + int m = int (nat k + m)" using that by simp
    then show ?thesis by (simp only: of_int_of_nat_eq)
  qed
  show ?thesis
    using m(2) unfolding m(1) pwd_char_def isalnum_def
    by (auto simp: w word_le_nat_alt unat_of_nat unat_word_ariths)
qed

lemma option_password_props:
  "length (option_password mac ser off) = 8" "\<forall>c \<in> set (option_password mac ser off). isalnum c"
  by (auto simp: option_password_def Let_def pwd_char_alnum)

text \<open>
  C31: The password of an option is the eight letters and digits that the MD5 of MAC address, filler
  and serial number selects; \<^verbatim>\<open>CheckPwd\<close> ends, stays in its buffers and accepts that password alone.
\<close>

theorem CheckPwd_password:
  assumes "length mac = 6" "0 \<in> set serAll" "length serAll \<le> 16" "8 \<le> length (szPwd t)"
    "-10 \<le> opt_offset t" "opt_offset t \<le> 2000"
  shows "CheckPwd t mac serAll =
      Some (take 8 (szPwd t) = option_password mac (cstr serAll) (opt_offset t)) \<and>
    length (option_password mac (cstr serAll) (opt_offset t)) = 8 \<and>
    (\<forall>c \<in> set (option_password mac (cstr serAll) (opt_offset t)). isalnum c)"
  using CheckPwd_eq [OF assms] option_password_props by simp

theorem CheckPwd_password_witness:
  "\<exists>b. CheckPwd \<lparr>opt_offset = 7, szPwd = replicate 9 65\<rparr> (replicate 6 0) (str ''BVUX'' @ [0]) = Some b"
  using CheckPwd_password [of "replicate 6 0" "str ''BVUX'' @ [0]" "\<lparr>opt_offset = 7, szPwd = replicate 9 65\<rparr>"]
  by auto


text \<open>
  C13: On a working store, with an offset inside it and the right password, \<^verbatim>\<open>WriteOptionBit\<close>
  returns 0 and sets or clears exactly the bit with that number, counted from the start of
  the store (a module's FTDI chip) or from its byte 0x30 (the others).
\<close>

theorem WriteOptionBit_one_bit:
  assumes "board_ok b" "board_works os (opt_index t) b" "8 \<le> length (szPwd (optTableInfo t))"
    "right_password os t b" "opt_offset (optTableInfo t) = int off"
    "off < (if IndexValid (opt_index t) \<and> slot_on_ftdi os (opt_index t) then 112 else 1656)"
  defines "pos \<equiv> (if IndexValid (opt_index t) \<and> slot_on_ftdi os (opt_index t) then 0 else 0x30) + off div 8"
  shows "\<exists>b'. WriteOptionBit os t b = Some (0, b') \<and>
     board_options os (opt_index t) b' = (board_options os (opt_index t) b)
       [pos := change_bit (board_options os (opt_index t) b ! pos) (off mod 8) (opt_data t)]"
proof -
  obtain E D M where b: "b = (E, D, M)" by (cases b) auto
  let ?c = "opt_offset (optTableInfo t) sdiv 8"
  have ok: "susi_ok E" "ftdi_ok D" "mod_ok M" using assms(1) by (simp_all add: b board_ok_def)
  have cd: "?c = int (off div 8)" and bit: "opt_offset (optTableInfo t) smod 8 = int (off mod 8)"
    using offset_nonneg [of "int off"] assms(5) by (simp_all add: zdiv_int zmod_int)
  have c: "0 \<le> ?c" "?c < 207" unfolding cd using assms(6) by (auto split: if_splits)
  have go: "\<not> (?c + EEPRomStart < EEPRomStart \<or> EEPROM_MAXSIZE \<le> ?c + EEPRomStart)"
    using c by (auto simp: EEPRomStart_def EEPROM_MAXSIZE_def)
  have ic: "48 \<le> ?c + EEPRomStart" "?c + EEPRomStart < 255" using c by (simp_all add: EEPRomStart_def)
  have nc: "nat (?c + EEPRomStart) = 0x30 + off div 8" unfolding cd by (simp add: EEPRomStart_def nat_add_distrib)
  note bd = BitOptionDeal_byte [of "off mod 8"]
  consider "\<not> IndexValid (opt_index t)" | "IndexValid (opt_index t)" "slot_on_ftdi os (opt_index t)"
    | "IndexValid (opt_index t)" "\<not> slot_on_ftdi os (opt_index t)" by blast
  then show ?thesis
  proof cases
    case 1
    obtain E' where "WriteOptionBit_eeprom t (?c + EEPRomStart) (int (off mod 8)) E = Some (0, E')"
        "susi_image E' = (susi_image E)[pos := change_bit (susi_image E ! pos) (off mod 8) (opt_data t)]"
      using WriteOptionBit_eeprom_works [OF ok(1) _ ic c assms(3), of "int (off mod 8)"] assms(2,4) 1
      by (auto simp: b board_works_def right_password_def board_options_def nc bd pos_def)
    then show ?thesis using 1 go bit
      by (intro exI [of _ "(E', D, M)"]) (simp add: WriteOptionBit_def b Let_def board_options_def)
  next
    case 2
    then have i: "0 \<le> opt_index t" "opt_index t < 6" by (auto simp: IndexValid_def)
    have c14: "?c < 14" unfolding cd using assms(6) 2 by auto
    obtain D' where "WriteOptionBit_40g os t (int (off mod 8)) D = Some (0, D')" "ftdi_options os (opt_index t) D' =
        (ftdi_options os (opt_index t) D)[pos := change_bit (ftdi_options os (opt_index t) D ! pos) (off mod 8) (opt_data t)]"
      using WriteOptionBit_40g_works [OF ok(2) _ i _ assms(3) c(1) c14, of os "int (off mod 8)"] assms(2,4) 2
      by (auto simp: b board_works_def right_password_def pos_def bd cd)
    moreover obtain ty where "GetBoardresType os (opt_index t) = Some ty" "is_ftdi_type ty"
      using 2(2) by (auto simp: slot_on_ftdi_def split: option.splits)
    ultimately show ?thesis using 2 go bit
      by (intro exI [of _ "(E, D', M)"]) (simp add: WriteOptionBit_def b Let_def board_options_def)
  next
    case 3
    obtain M' where "WriteOptionBit_net os t (?c + EEPRomStart) (int (off mod 8)) M = Some (0, M')" "mod_options os (opt_index t) M' =
        (mod_options os (opt_index t) M)[pos := change_bit (mod_options os (opt_index t) M ! pos) (off mod 8) (opt_data t)]"
      using WriteOptionBit_net_works [OF ok(3) _ _ ic c assms(3), of os "int (off mod 8)"] assms(2,4) 3
      by (auto simp: b board_works_def right_password_def board_options_def nc bd pos_def)
    moreover obtain ty where "GetBoardresType os (opt_index t) = Some ty" "\<not> is_ftdi_type ty"
      using type_known [OF 3(1), of os] 3(2) by (auto simp: slot_on_ftdi_def)
    ultimately show ?thesis using 3 go bit
      by (intro exI [of _ "(E, D, M')"]) (simp add: WriteOptionBit_def b Let_def board_options_def)
  qed
qed

text \<open>
  An offset from -7 to -1 passes the range test, because C rounds its division towards zero:
  with the right password the call reports success and changes nothing.
\<close>

lemma negative_offset_accepted:
  assumes "board_ok b" "board_works os (opt_index t) b" "8 \<le> length (szPwd (optTableInfo t))"
    "right_password os t b" "-8 < opt_offset (optTableInfo t)" "opt_offset (optTableInfo t) < 0"
    "\<not> IndexValid (opt_index t)"
  shows "\<exists>b'. WriteOptionBit os t b = Some (0, b') \<and>
     board_options os (opt_index t) b' = board_options os (opt_index t) b"
proof -
  obtain E D M where b: "b = (E, D, M)" by (cases b) auto
  let ?o = "opt_offset (optTableInfo t)"
  have ok: "susi_ok E" using assms(1) by (simp add: b board_ok_def)
  have c: "?o sdiv 8 = 0" using assms(5,6) by (simp add: signed_divide_int_def)
  then have bit: "?o smod 8 < 0"
  proof -
    have "- ?o mod 8 = - ?o" using assms(5,6) by simp
    then show ?thesis using assms(6) by (simp add: signed_modulo_int_def sgn_if)
  qed
  have ic: "48 \<le> EEPRomStart" "EEPRomStart < 255" by (simp_all add: EEPRomStart_def)
  obtain E' where E': "WriteOptionBit_eeprom t EEPRomStart (?o smod 8) E = Some (0, E')"
      "susi_image E' = susi_image E"
    using WriteOptionBit_eeprom_works [OF ok _ ic _ _ assms(3), of "?o smod 8"] assms(2,4,7) bit c
    by (auto simp: b board_works_def right_password_def board_options_def BitOptionDeal_other)
  then show ?thesis
    using c assms(7)
    by (intro exI [of _ "(E', D, M)"])
      (simp add: WriteOptionBit_def b Let_def board_options_def EEPRomStart_def EEPROM_MAXSIZE_def)
qed

text \<open>An instrument with simulated stores, for the witnesses.\<close>

definition board_sim :: "(bytes, bytes option \<times> (bytes \<Rightarrow> bytes), modsim) board" where
  "board_sim = ((susi_sim, replicate 255 0), ftdi_sim_state (replicate 128 0),
     (mod_sim, (\<lambda>_. None, \<lambda>_. [], []), []))"

definition info_sim :: "int \<Rightarrow> int \<Rightarrow> OPTIONINFO" where
  "info_sim off v = \<lparr>optTableInfo = \<lparr>opt_offset = off,
     szPwd = store_password (replicate 255 0) 16 14 off @ [0]\<rparr>, opt_data = v, opt_index = -1\<rparr>"

lemma board_sim_ok: "board_ok board_sim" "board_works os (-1) board_sim"
  using susi_sim_ok susi_sim_works ftdi_sim_laws mod_sim_laws
  by (simp_all add: board_ok_def board_works_def board_sim_def ftdi_ok_def mod_ok_def
      ftdi_sim_state_def IndexValid_def)

lemma length_store_password: "length (store_password img at n off) = 8"
  by (simp add: store_password_def option_password_def Let_def)

lemma board_sim_image: "board_options os (-1) board_sim = replicate 255 0"
  by (simp add: board_options_def board_sim_def IndexValid_def susi_image_def susi_sim_def)

lemma info_sim_right: "right_password os (info_sim off v) board_sim"
  by (simp add: right_password_def info_sim_def IndexValid_def board_sim_image length_store_password Let_def)

theorem WriteOptionBit_one_bit_witness:
  "\<exists>b'. WriteOptionBit os_net (info_sim 13 1) board_sim = Some (0, b') \<and> board_options os_net (-1) b' ! 49 = 0x20"
proof -
  have o: "opt_index (info_sim 13 1) = -1" "opt_offset (optTableInfo (info_sim 13 1)) = int 13"
    "8 \<le> length (szPwd (optTableInfo (info_sim 13 1)))" "opt_data (info_sim 13 1) = 1"
    by (simp_all add: info_sim_def length_store_password)
  have n: "\<not> IndexValid (-1)" by (simp add: IndexValid_def)
  obtain b' where "WriteOptionBit os_net (info_sim 13 1) board_sim = Some (0, b')"
     "board_options os_net (-1) b' = (replicate 255 0)[49 := change_bit 0 5 1]"
    using WriteOptionBit_one_bit [of board_sim os_net "info_sim 13 1" 13] board_sim_ok info_sim_right o n
    by (auto simp: board_sim_image)
  then show ?thesis by (intro exI [of _ b']) (simp add: change_bit_def)
qed


end
