(* ===== verification/DeviceCommands.thy ===== *)
theory DeviceCommands
  imports Server Options
begin

text \<open>
  The messages of \<^verbatim>\<open>CCommonServer::OnReceived\<close> (\<^verbatim>\<open>common/CommonServer.cpp\<close>) that read and set
  what the instrument and its modules store: serial numbers, MAC addresses, module types,
  option buffers, single options, and the version of the server. A handler takes the server
  and the three stores; \<open>data\<close> is the memory the message is in and \<open>len\<close> its length.
\<close>

subsection \<open>Structures in a message\<close>

text \<open>
  The handlers cast the data to a pointer to a structure; reading a field behind the end of the
  data is an access outside the array. \<^verbatim>\<open>szPwd\<close> is followed by three bytes of padding.
\<close>

definition SIZEOF_MODULEINFO :: nat where "SIZEOF_MODULEINFO = 12"
definition SIZEOF_OPTIONINFO :: nat where "SIZEOF_OPTIONINFO = 24"

definition MODULEINFO_of :: "bytes \<Rightarrow> MODULEINFO option" where
  "MODULEINFO_of data =
     (if SIZEOF_MODULEINFO \<le> length data
      then Some \<lparr>iStartAddr = sint (read_u32 data 0), iLength = sint (read_u32 data 4),
                 iIndex = sint (read_u32 data 8)\<rparr>
      else None)"

definition OPTIONINFO_of :: "bytes \<Rightarrow> OPTIONINFO option" where
  "OPTIONINFO_of data =
     (if SIZEOF_OPTIONINFO \<le> length data
      then Some \<lparr>optTableInfo = \<lparr>opt_offset = sint (read_u32 data 0), szPwd = take 9 (drop 4 data)\<rparr>,
                 opt_data = sint (read_u32 data 16), opt_index = sint (read_u32 data 20)\<rparr>
      else None)"

subsection \<open>Serial numbers\<close>

text \<open>The loops over the slots fill the buffer \<open>strTemp\<close> from index \<open>i\<close> on.\<close>

fun sn_fixed :: "os \<Rightarrow> int list \<Rightarrow> bytes \<Rightarrow> nat \<Rightarrow> (bytes \<times> nat) option" where
  "sn_fixed os [] strTemp i = Some (strTemp, i)"
| "sn_fixed os (board_index # slots) strTemp i = do {
     (_, sn) \<leftarrow> v400_boardres_ind2sn os board_index (replicate 256 0);
     strTemp \<leftarrow> memcpy strTemp i sn 0 14;
     sn_fixed os slots strTemp (i + 14)
   }"

fun sn_lines :: "os \<Rightarrow> int list \<Rightarrow> bytes \<Rightarrow> nat \<Rightarrow> (bytes \<times> nat) option" where
  "sn_lines os [] strTemp i = Some (strTemp, i)"
| "sn_lines os (board_index # slots) strTemp i = do {
     (_, sn) \<leftarrow> v400_boardres_ind2sn os board_index (replicate 256 0);
     t \<leftarrow> c_string sn;
     strTemp \<leftarrow> memcpy strTemp i sn 0 (length t);
     strTemp \<leftarrow> store strTemp (i + length t) 13;
     sn_lines os slots strTemp (i + length t + 1)
   }"

definition On_GETSERIALNUMBER ::
  "os \<Rightarrow> link \<Rightarrow> CCommonServer \<times> ('a, 'b, 'c) board \<Rightarrow> (CCommonServer \<times> ('a, 'b, 'c) board) option" where
  "On_GETSERIALNUMBER os link = (\<lambda>(s, E, D, M). do {
     let strTemp = replicate NR_MAXPACKLEN 0;
     (_, pSerNumber, E) \<leftarrow> ReadSerialNumber (Some (replicate 14 0)) E;
     pSerNumber \<leftarrow> pSerNumber;
     strTemp \<leftarrow> memcpy strTemp 0 pSerNumber 0 14;
     (strTemp, iStrTempIndex) \<leftarrow> sn_fixed os [0..V400PANEL_BOARDNUM - 1] strTemp 14;
     (_, s) \<leftarrow> SendData link MSG_GETSERIALNUMBER strTemp iStrTempIndex s;
     Some (s, E, D, M)
   })"

definition On_GETSERIALNUMBERALL ::
  "os \<Rightarrow> link \<Rightarrow> CCommonServer \<times> ('a, 'b, 'c) board \<Rightarrow> (CCommonServer \<times> ('a, 'b, 'c) board) option" where
  "On_GETSERIALNUMBERALL os link = (\<lambda>(s, E, D, M). do {
     let strTemp = replicate NR_MAXPACKLEN 0;
     (_, pSerNumber, E) \<leftarrow> ReadSerialNumber (Some (replicate 14 0)) E;
     pSerNumber \<leftarrow> pSerNumber;
     strTemp \<leftarrow> memcpy strTemp 0 pSerNumber 0 14;
     strTemp \<leftarrow> store strTemp 14 13;
     (strTemp, iStrTempIndex) \<leftarrow> sn_lines os [0..V400PANEL_BOARDNUM - 1] strTemp 15;
     (_, s) \<leftarrow> SendData link MSG_GETSERIALNUMBERALL strTemp iStrTempIndex s;
     Some (s, E, D, M)
   })"

definition On_SETSERIALNUMBER ::
  "link \<Rightarrow> bytes \<Rightarrow> CCommonServer \<times> ('a, 'b, 'c) board \<Rightarrow> (CCommonServer \<times> ('a, 'b, 'c) board) option" where
  "On_SETSERIALNUMBER link data = (\<lambda>(s, E, D, M). do {
     (iRet, E) \<leftarrow> WriteSerialNumber data E;
     s \<leftarrow> send_text NR_MAXPACKLEN link MSG_SETSERIALNUMBER (str (dec iRet)) s;
     Some (s, E, D, M)
   })"

subsection \<open>MAC addresses\<close>

fun mac_loop ::
  "os \<Rightarrow> int list \<Rightarrow> bytes \<Rightarrow> nat \<Rightarrow> 'c mod_state \<Rightarrow> (bytes \<times> nat \<times> 'c mod_state) option" where
  "mac_loop os [] strTemp i M = Some (strTemp, i, M)"
| "mac_loop os (board_index # slots) strTemp i M = do {
     iType \<leftarrow> GetBoardresType os board_index;
     let pMAC = replicate 6 0;
     (pMAC, M) \<leftarrow>
       (if \<not> is_ftdi_type iType then do {
          (_, tempBuffer, M) \<leftarrow> ReadOptionBufferIndex os board_index (replicate 255 0) 0 6 M;
          pMAC \<leftarrow> memcpy pMAC 0 tempBuffer 0 6;
          Some (pMAC, M)
        }
        else Some (pMAC, M));
     strTemp \<leftarrow> memcpy strTemp i pMAC 0 6;
     mac_loop os slots strTemp (i + 6) M
   }"

definition On_GETMAC ::
  "os \<Rightarrow> link \<Rightarrow> CCommonServer \<times> ('a, 'b, 'c) board \<Rightarrow> (CCommonServer \<times> ('a, 'b, 'c) board) option" where
  "On_GETMAC os link = (\<lambda>(s, E, D, M). do {
     let strTemp = replicate NR_MAXPACKLEN 0;
     (_, pMAC, E) \<leftarrow> ReadMAC (Some (replicate 6 0)) E;
     pMAC \<leftarrow> pMAC;
     strTemp \<leftarrow> memcpy strTemp 0 pMAC 0 6;
     (strTemp, iStrTempIndex, M) \<leftarrow> mac_loop os [0..V400PANEL_BOARDNUM - 1] strTemp 6 M;
     (_, s) \<leftarrow> SendData link MSG_GETMAC strTemp iStrTempIndex s;
     Some (s, E, D, M)
   })"

definition On_SETMAC ::
  "link \<Rightarrow> bytes \<Rightarrow> CCommonServer \<times> ('a, 'b, 'c) board \<Rightarrow> (CCommonServer \<times> ('a, 'b, 'c) board) option" where
  "On_SETMAC link data = (\<lambda>(s, E, D, M). do {
     (iRet, E) \<leftarrow> WriteMAC data E;
     s \<leftarrow> send_text NR_MAXPACKLEN link MSG_SETMAC (str (dec iRet)) s;
     Some (s, E, D, M)
   })"

subsection \<open>Modules and options\<close>

definition On_GETBOARDTYPE :: "os \<Rightarrow> link \<Rightarrow> bytes \<Rightarrow> CCommonServer \<Rightarrow> CCommonServer option" where
  "On_GETBOARDTYPE os link data s = do {
     index \<leftarrow> atoi data;
     iType \<leftarrow> GetBoardresType os index;
     send_text NR_MAXPACKLEN link MSG_GETBOARDTYPE (str (dec iType)) s
   }"

definition On_READMODULEBUF ::
  "os \<Rightarrow> link \<Rightarrow> bytes \<Rightarrow> CCommonServer \<times> ('a, 'b, 'c) board \<Rightarrow>
     (CCommonServer \<times> ('a, 'b, 'c) board) option" where
  "On_READMODULEBUF os link data = (\<lambda>(s, b). do {
     m \<leftarrow> MODULEINFO_of data;
     let pBuff = replicate 255 0;
     upto \<leftarrow> int_add (iStartAddr m) (iLength m);
     (iRet, pBuff, b) \<leftarrow>
       (if upto \<le> 255 then do {
          (iRet, pBuff, b) \<leftarrow> ReadModuleBuf os m (Some pBuff) b;
          pBuff \<leftarrow> pBuff;
          Some (iRet, pBuff, b)
        }
        else Some (1, pBuff, b));
     let head = str (dec iRet @ '','');
     strTemp \<leftarrow> memcpy (replicate NR_MAXPACKLEN 0) 0 (head @ [0]) 0 (length head + 1);
     strTemp \<leftarrow> memcpy_int strTemp (int (length head)) pBuff 0 (iLength m);
     iLen \<leftarrow> int_add (int (length head)) (iLength m);
     (_, s) \<leftarrow> SendData link MSG_READMODULEBUF strTemp (nat iLen) s;
     Some (s, b)
   })"

text \<open>
  The length is compared as an unsigned number; a negative one asks \<^verbatim>\<open>malloc\<close> and \<^verbatim>\<open>memcpy\<close> for
  almost the whole address space.
\<close>

definition module_buf_written ::
  "os \<Rightarrow> bytes \<Rightarrow> nat \<Rightarrow> ('a, 'b, 'c) board \<Rightarrow> (int \<times> ('a, 'b, 'c) board) option" where
  "module_buf_written os data len b = do {
     m \<leftarrow> MODULEINFO_of data;
     upto \<leftarrow> int_add (iStartAddr m) (iLength m);
     (if upto \<le> 255 \<and> word_of_int (iLength m) + of_nat SIZEOF_MODULEINFO \<le> (of_nat len :: u32) then
        if iLength m < 0 then None
        else do {
          let pBuff = replicate (nat (iLength m)) 0;
          pBuff \<leftarrow> memcpy pBuff 0 data SIZEOF_MODULEINFO (nat (iLength m));
          WriteModuleBuf os m (Some pBuff) b
        }
      else Some (1, b))
   }"

definition On_WRITEMODULEBUF ::
  "os \<Rightarrow> link \<Rightarrow> bytes \<Rightarrow> nat \<Rightarrow> CCommonServer \<times> ('a, 'b, 'c) board \<Rightarrow>
     (CCommonServer \<times> ('a, 'b, 'c) board) option" where
  "On_WRITEMODULEBUF os link data len = (\<lambda>(s, b). do {
     (iRet, b) \<leftarrow> module_buf_written os data len b;
     s \<leftarrow> send_text NR_MAXPACKLEN link MSG_WRITEMODULEBUF (str (dec iRet)) s;
     Some (s, b)
   })"

definition On_WRITEOPTION ::
  "os \<Rightarrow> link \<Rightarrow> bytes \<Rightarrow> CCommonServer \<times> ('a, 'b, 'c) board \<Rightarrow>
     (CCommonServer \<times> ('a, 'b, 'c) board) option" where
  "On_WRITEOPTION os link data = (\<lambda>(s, b). do {
     t \<leftarrow> OPTIONINFO_of data;
     (iRet, b) \<leftarrow> WriteOptionBit os t b;
     s \<leftarrow> send_text NR_MAXPACKLEN link MSG_WRITEOPTION (str (dec iRet)) s;
     Some (s, b)
   })"

definition On_GETVERSION :: "link \<Rightarrow> CCommonServer \<Rightarrow> CCommonServer option" where
  "On_GETVERSION link s = send_text NR_MAXPACKLEN link MSG_GETVERSION (str (dec VERSION)) s"

subsection \<open>Messages that are answered with a code\<close>

text \<open>
  The contract the client relies on: the operation is carried out and its code comes back as one
  message. The client reads it with \<^verbatim>\<open>atoi\<close>.
\<close>

locale coded_reply =
  fixes handle :: "link \<Rightarrow> CCommonServer \<times> 'b \<Rightarrow> (CCommonServer \<times> 'b) option"
    and operation :: "'b \<Rightarrow> (int \<times> 'b) option"
    and type :: u32
  assumes handle_eq: "handle link (s, b) = do {
      (r, b) \<leftarrow> operation b;
      s \<leftarrow> send_text NR_MAXPACKLEN link type (str (dec r)) s;
      Some (s, b)
    }"
begin

lemma answered:
  assumes "operation b = Some (r, b')" "-(2 ^ 31) \<le> r" "r < 2 ^ 31"
  shows "handle link (s, b) = Some (logged link type (str (dec r)) s, b')"
  using assms str_dec_props [OF assms(2,3)]
  by (simp add: handle_eq send_text_eq NR_MAXPACKLEN_def)

lemma stuck_only_below: "operation b = None \<Longrightarrow> handle link (s, b) = None"
  by (simp add: handle_eq)

lemma answered_by_operation:
  assumes "handle link (s, b) = Some (s', b')"
  obtains r where "operation b = Some (r, b')"
  using assms by (auto simp: handle_eq split: bind_splits)

end

definition on_eeprom :: "('a susi_state \<Rightarrow> (int \<times> 'a susi_state) option) \<Rightarrow>
    ('a, 'b, 'c) board \<Rightarrow> (int \<times> ('a, 'b, 'c) board) option" where
  "on_eeprom f = (\<lambda>(E, D, M). map_option (\<lambda>(r, E). (r, E, D, M)) (f E))"

interpretation setsn: coded_reply "\<lambda>link. On_SETSERIALNUMBER link data"
    "on_eeprom (WriteSerialNumber data)" MSG_SETSERIALNUMBER for data
  by unfold_locales (auto simp: On_SETSERIALNUMBER_def on_eeprom_def split: bind_splits prod.splits)

interpretation setmac: coded_reply "\<lambda>link. On_SETMAC link data"
    "on_eeprom (WriteMAC data)" MSG_SETMAC for data
  by unfold_locales (auto simp: On_SETMAC_def on_eeprom_def split: bind_splits prod.splits)

interpretation writeoption: coded_reply "\<lambda>link. On_WRITEOPTION os link data"
    "\<lambda>b. OPTIONINFO_of data \<bind> (\<lambda>t. WriteOptionBit os t b)" MSG_WRITEOPTION for os data
  by unfold_locales (auto simp: On_WRITEOPTION_def split: bind_splits prod.splits)

interpretation writebuf: coded_reply "\<lambda>link. On_WRITEMODULEBUF os link data len"
    "module_buf_written os data len" MSG_WRITEMODULEBUF for os data len
  by unfold_locales (auto simp: On_WRITEMODULEBUF_def split: bind_splits prod.splits)

subsection \<open>The buffers of the slots\<close>

text \<open>
  Each slot, and the instrument as any other number, is a memory of options for the two functions
  the messages call.
\<close>

definition slot_rd ::
  "os \<Rightarrow> int \<Rightarrow> bytes \<Rightarrow> int \<Rightarrow> int \<Rightarrow> ('a, 'b, 'c) board \<Rightarrow> (int \<times> bytes \<times> ('a, 'b, 'c) board) option" where
  "slot_rd os i buf start len b =
     ReadModuleBuf os \<lparr>iStartAddr = start, iLength = len, iIndex = i\<rparr> (Some buf) b \<bind>
       (\<lambda>(r, buf, b). map_option (\<lambda>buf. (r, buf, b)) buf)"

definition slot_wr ::
  "os \<Rightarrow> int \<Rightarrow> bytes \<Rightarrow> int \<Rightarrow> int \<Rightarrow> ('a, 'b, 'c) board \<Rightarrow> (int \<times> ('a, 'b, 'c) board) option" where
  "slot_wr os i bs start len b =
     WriteModuleBuf os \<lparr>iStartAddr = start, iLength = len, iIndex = i\<rparr> (Some bs) b"

definition slot_size :: "os \<Rightarrow> int \<Rightarrow> int" where
  "slot_size os i = (if IndexValid i \<and> slot_on_ftdi os i then 14 else 255)"

text \<open>Which of the three stores it is.\<close>

lemma slot_eeprom:
  assumes "\<not> IndexValid i"
  shows "slot_size os i = 255" "board_options os i (E, D, M) = susi_image E"
    "slot_rd os i buf st len (E, D, M) =
       map_option (\<lambda>(r, buf, E). (r, buf, E, D, M)) (ReadOptionBuffer buf st len E)"
    "slot_wr os i bs st len (E, D, M) =
       map_option (\<lambda>(r, E). (r, E, D, M)) (WriteOptionBuffer bs st len E)"
  using assms
  by (auto simp: slot_rd_def slot_wr_def ReadModuleBuf_def WriteModuleBuf_def slot_size_def
      board_options_def split: bind_splits option.splits)

lemma slot_ftdi:
  assumes "IndexValid i" "slot_on_ftdi os i"
  shows "slot_size os i = 14" "board_options os i (E, D, M) = ftdi_options os i D"
    "slot_rd os i buf st len (E, D, M) =
       map_option (\<lambda>(r, buf, D). (r, buf, E, D, M)) (ReadOptionBufferIndex_40g os i buf st len D)"
    "slot_wr os i bs st len (E, D, M) =
       map_option (\<lambda>(r, D). (r, E, D, M)) (WriteOptionBufferIndex_40g os i bs st len D)"
  using assms
  by (auto simp: slot_rd_def slot_wr_def ReadModuleBuf_def WriteModuleBuf_def slot_size_def
      board_options_def slot_on_ftdi_def split: bind_splits option.splits)

lemma slot_net:
  assumes "IndexValid i" "\<not> slot_on_ftdi os i"
  shows "slot_size os i = 255" "board_options os i (E, D, M) = mod_options os i M"
    "slot_rd os i buf st len (E, D, M) =
       map_option (\<lambda>(r, buf, M). (r, buf, E, D, M)) (ReadOptionBufferIndex os i buf st len M)"
    "slot_wr os i bs st len (E, D, M) =
       map_option (\<lambda>(r, M). (r, E, D, M)) (WriteOptionBufferIndex os i bs st len M)"
  using assms type_known [OF assms(1), of os]
  by (auto simp: slot_rd_def slot_wr_def ReadModuleBuf_def WriteModuleBuf_def slot_size_def
      board_options_def slot_on_ftdi_def split: bind_splits option.splits)

lemma slot_cases3:
  obtains "\<not> IndexValid i" | "IndexValid i" "slot_on_ftdi os i" | "IndexValid i" "\<not> slot_on_ftdi os i"
  by blast

interpretation slotbuf: option_store "slot_rd os i" "slot_wr os i" "board_options os i" board_ok "slot_size os i"
  for os i
proof unfold_locales
  fix s s' :: "('a, 'b, 'c) board" and buf buf' start len
  assume a: "board_ok s" "slot_rd os i buf start len s = Some (0, buf', s')"
    "0 \<le> start" "0 < len" "start + len \<le> slot_size os i"
  obtain E D M where s: "s = (E, D, M)" by (cases s)
  have ok: "susi_ok E" "ftdi_ok D" "mod_ok M" using a(1) by (simp_all add: s board_ok_def)
  show "take (nat len) buf' = take (nat len) (drop (nat start) (board_options os i s)) \<and>
      board_options os i s' = board_options os i s \<and> board_ok s'"
  proof (cases rule: slot_cases3 [where i = i and os = os])
    case 1
    note c = slot_eeprom [OF 1]
    obtain E' where r: "ReadOptionBuffer buf start len E = Some (0, buf', E')" "s' = (E', D, M)"
      using a(2) by (auto simp: s c)
    show ?thesis using eeprom.rd_bytes [OF ok(1) r(1) a(3,4)] a(5) r(2) ok by (simp add: s c board_ok_def)
  next
    case 2
    note c = slot_ftdi [OF 2]
    obtain D' where r: "ReadOptionBufferIndex_40g os i buf start len D = Some (0, buf', D')" "s' = (E, D', M)"
      using a(2) by (auto simp: s c)
    show ?thesis using ftdi.rd_bytes [OF ok(2) r(1) a(3,4)] a(5) r(2) ok by (simp add: s c board_ok_def)
  next
    case 3
    note c = slot_net [OF 3]
    obtain M' where r: "ReadOptionBufferIndex os i buf start len M = Some (0, buf', M')" "s' = (E, D, M')"
      using a(2) by (auto simp: s c)
    show ?thesis using modopt.rd_bytes [OF ok(3) r(1) a(3,4)] a(5) r(2) ok by (simp add: s c board_ok_def)
  qed
next
  fix s s' :: "('a, 'b, 'c) board" and buf buf' start len rt
  assume a: "board_ok s" "slot_rd os i buf start len s = Some (rt, buf', s')"
    "0 \<le> start" "0 < len" "start + len \<le> slot_size os i"
  obtain E D M where s: "s = (E, D, M)" by (cases s)
  have ok: "susi_ok E" "ftdi_ok D" "mod_ok M" using a(1) by (simp_all add: s board_ok_def)
  show "board_options os i s' = board_options os i s \<and> board_ok s'"
  proof (cases rule: slot_cases3 [where i = i and os = os])
    case 1
    note c = slot_eeprom [OF 1]
    obtain E' where r: "ReadOptionBuffer buf start len E = Some (rt, buf', E')" "s' = (E', D, M)"
      using a(2) by (auto simp: s c)
    show ?thesis using eeprom.rd_keeps [OF ok(1) r(1) a(3,4)] a(5) r(2) ok by (simp add: s c board_ok_def)
  next
    case 2
    note c = slot_ftdi [OF 2]
    obtain D' where r: "ReadOptionBufferIndex_40g os i buf start len D = Some (rt, buf', D')" "s' = (E, D', M)"
      using a(2) by (auto simp: s c)
    show ?thesis using ftdi.rd_keeps [OF ok(2) r(1) a(3,4)] a(5) r(2) ok by (simp add: s c board_ok_def)
  next
    case 3
    note c = slot_net [OF 3]
    obtain M' where r: "ReadOptionBufferIndex os i buf start len M = Some (rt, buf', M')" "s' = (E, D, M')"
      using a(2) by (auto simp: s c)
    show ?thesis using modopt.rd_keeps [OF ok(3) r(1) a(3,4)] a(5) r(2) ok by (simp add: s c board_ok_def)
  qed
next
  fix s s' :: "('a, 'b, 'c) board" and bs start len
  assume a: "board_ok s" "slot_wr os i bs start len s = Some (0, s')"
    "0 \<le> start" "0 < len" "start + len \<le> slot_size os i" "nat len \<le> length bs"
  obtain E D M where s: "s = (E, D, M)" by (cases s)
  have ok: "susi_ok E" "ftdi_ok D" "mod_ok M" using a(1) by (simp_all add: s board_ok_def)
  show "board_options os i s' = blit (board_options os i s) (nat start) (take (nat len) bs) \<and> board_ok s'"
  proof (cases rule: slot_cases3 [where i = i and os = os])
    case 1
    note c = slot_eeprom [OF 1]
    obtain E' where r: "WriteOptionBuffer bs start len E = Some (0, E')" "s' = (E', D, M)"
      using a(2) by (auto simp: s c)
    show ?thesis using eeprom.wr_bytes [OF ok(1) r(1) a(3,4)] a(5,6) r(2) ok by (simp add: s c board_ok_def)
  next
    case 2
    note c = slot_ftdi [OF 2]
    obtain D' where r: "WriteOptionBufferIndex_40g os i bs start len D = Some (0, D')" "s' = (E, D', M)"
      using a(2) by (auto simp: s c)
    show ?thesis using ftdi.wr_bytes [OF ok(2) r(1) a(3,4)] a(5,6) r(2) ok by (simp add: s c board_ok_def)
  next
    case 3
    note c = slot_net [OF 3]
    obtain M' where r: "WriteOptionBufferIndex os i bs start len M = Some (0, M')" "s' = (E, D, M')"
      using a(2) by (auto simp: s c)
    show ?thesis using modopt.wr_bytes [OF ok(3) r(1) a(3,4)] a(5,6) r(2) ok by (simp add: s c board_ok_def)
  qed
next
  fix s :: "('a, 'b, 'c) board"
  assume "board_ok s"
  then show "length (board_options os i s) = nat (slot_size os i)"
    using eeprom.img_size ftdi.img_size modopt.img_size
    by (cases s) (auto simp: board_ok_def board_options_def slot_size_def)
qed

lemma slot_wr_works:
  assumes "board_ok b" "board_works os i b" "0 \<le> start" "0 < len" "len < 255"
    "start + len \<le> slot_size os i" "nat len \<le> length bs"
  shows "\<exists>b'. slot_wr os i bs start len b = Some (0, b') \<and> board_ok b' \<and> board_works os i b'"
proof -
  obtain E D M where b: "b = (E, D, M)" by (cases b)
  have ok: "susi_ok E" "ftdi_ok D" "mod_ok M" using assms(1) by (simp_all add: b board_ok_def)
  have "\<exists>b'. slot_wr os i bs start len b = Some (0, b') \<and> board_works os i b'"
  proof (cases rule: slot_cases3 [where i = i and os = os])
    case 1
    note c = slot_eeprom [OF 1]
    obtain E' where "WriteOptionBuffer bs start len E = Some (0, E')" "fst E' = fst E"
      using WriteOptionBuffer_works [OF ok(1) _ assms(3,4) _ assms(7)] assms(2,6) 1 c(1)
      by (auto simp: b board_works_def)
    then show ?thesis using assms(2) 1
      by (intro exI [of _ "(E', D, M)"]) (simp add: b c board_works_def)
  next
    case 2
    note c = slot_ftdi [OF 2]
    have i: "0 \<le> i" "i < 6" using 2(1) by (auto simp: IndexValid_def)
    have l: "ftdi_laws (fst D)" using ok(2) by (simp add: ftdi_ok_def)
    have s14: "start + len \<le> 14" using assms(6) c(1) by simp
    obtain D' where w: "WriteOptionBufferIndex_40g os i bs start len D = Some (0, D')" "fst D' = fst D"
      using Write_40g_works [OF l _ i _ assms(3,4) s14 assms(7), of os] assms(2) 2 by (auto simp: b board_works_def)
    have "chip_valid (chip (fst D) (slot_serial os i) (fst (snd D')))"
    proof -
      obtain L d e where D: "D = (L, d, e)" by (cases D) auto
      have "nat start + nat len \<le> 14" using s14 assms(3,4) by linarith
      then have "length (blit (ftdi_options os i D) (nat start) (take (nat len) bs)) = 14"
        using chip_length [OF l] assms(7) by (simp add: ftdi_options_def chip_options_def ftdi_sizes)
      then show ?thesis
        using Write_40g_zero [of L os i bs start len d e D'] sealed_props(3) [OF chip_length [OF l]]
          l w(1) assms(3,4,7) s14 by (auto simp: D)
    qed
    then show ?thesis using assms(2) 2 w
      by (intro exI [of _ "(E, D', M)"]) (simp add: b c board_works_def)
  next
    case 3
    note c = slot_net [OF 3]
    obtain M' where "WriteOptionBufferIndex os i bs start len M = Some (0, M')" "fst M' = fst M"
      using Write_index_works [OF _ _ _ assms(3-5) _ assms(7), of M os i] ok(3) assms(2,6) 3 c(1)
      by (auto simp: b board_works_def mod_ok_def)
    then show ?thesis using assms(2) 3
      by (intro exI [of _ "(E, D, M')"]) (simp add: b c board_works_def)
  qed
  then show ?thesis using slotbuf.wr_bytes [OF assms(1) _ assms(3,4,6,7)] by blast
qed

lemma slot_rd_works:
  assumes "board_ok b" "board_works os i b" "0 \<le> start" "0 < len"
    "start + len \<le> slot_size os i" "255 \<le> length buf"
  shows "\<exists>buf' b'. slot_rd os i buf start len b = Some (0, buf', b')"
proof -
  obtain E D M where b: "b = (E, D, M)" by (cases b)
  have ok: "susi_ok E" "ftdi_ok D" "mod_ok M" using assms(1) by (simp_all add: b board_ok_def)
  have l: "nat len \<le> length buf" using assms(3,5,6) by (auto simp: slot_size_def split: if_splits)
  show ?thesis
  proof (cases rule: slot_cases3 [where i = i and os = os])
    case 1
    note c = slot_eeprom [OF 1]
    obtain buf' E' where "ReadOptionBuffer buf start len E = Some (0, buf', E')"
      using ReadOptionBuffer_works [OF ok(1) _ assms(3,4) _ l] assms(2,5) 1 c(1) by (auto simp: b board_works_def)
    then show ?thesis by (intro exI [of _ buf'] exI [of _ "(E', D, M)"]) (simp add: b c)
  next
    case 2
    note c = slot_ftdi [OF 2]
    have i: "0 \<le> i" "i < 6" using 2(1) by (auto simp: IndexValid_def)
    obtain buf' D' where "ReadOptionBufferIndex_40g os i buf start len D = Some (0, buf', D')"
      using Read_40g_works [OF _ _ i _ assms(3,4) _ l, of D os] ok(2) assms(2,5) 2 c(1)
      by (auto simp: b board_works_def ftdi_ok_def)
    then show ?thesis by (intro exI [of _ buf'] exI [of _ "(E, D', M)"]) (simp add: b c)
  next
    case 3
    note c = slot_net [OF 3]
    obtain buf' M' where "ReadOptionBufferIndex os i buf start len M = Some (0, buf', M')"
      using Read_index_works [OF _ _ _ assms(3,4) _ assms(6), of M os i] ok(3) assms(2,5) 3 c(1)
      by (auto simp: b board_works_def mod_ok_def)
    then show ?thesis by (intro exI [of _ buf'] exI [of _ "(E, D, M')"]) (simp add: b c)
  qed
qed

subsection \<open>Buffers over the connection\<close>

text \<open>The structure the client sends, with C's \<^verbatim>\<open>int\<close>s.\<close>

definition MODULEINFO_bytes :: "int \<Rightarrow> int \<Rightarrow> int \<Rightarrow> bytes" where
  "MODULEINFO_bytes start len i = le32 (word_of_int start) @ le32 (word_of_int len) @ le32 (word_of_int i)"

definition is_int :: "int \<Rightarrow> bool" where
  "is_int i \<longleftrightarrow> -(2 ^ 31) \<le> i \<and> i < 2 ^ 31"

lemma sint_int: "is_int i \<Longrightarrow> sint (word_of_int i :: u32) = i"
  by (simp add: is_int_def sint_sbintrunc' signed_take_bit_int_eq_self)

lemma length_MODULEINFO_bytes [simp, layout]: "length (MODULEINFO_bytes start len i) = 12"
  by (simp add: MODULEINFO_bytes_def)

lemma MODULEINFO_of_bytes:
  assumes "is_int start" "is_int len" "is_int i"
  shows "MODULEINFO_of (MODULEINFO_bytes start len i @ bs) =
    Some \<lparr>iStartAddr = start, iLength = len, iIndex = i\<rparr>"
proof -
  let ?a = "le32 (word_of_int start)" and ?b = "le32 (word_of_int len)" and ?c = "le32 (word_of_int i)"
  have "read_u32 (?a @ ?b @ ?c @ bs) 0 = word_of_int start"
    using read_u32_append [of "[]" 0 "word_of_int start" "?b @ ?c @ bs"] by simp
  moreover have "read_u32 (?a @ ?b @ ?c @ bs) 4 = word_of_int len"
    using read_u32_append [of ?a 4 "word_of_int len" "?c @ bs"] by simp
  moreover have "read_u32 (?a @ ?b @ ?c @ bs) 8 = word_of_int i"
    using read_u32_append [of "?a @ ?b" 8 "word_of_int i" bs] by simp
  ultimately show ?thesis
    using sint_int assms by (simp add: MODULEINFO_of_def SIZEOF_MODULEINFO_def MODULEINFO_bytes_def)
qed

lemma READMODULEBUF_works:
  assumes "board_ok b" "board_works os i b" "is_int i" "0 \<le> start" "0 < len"
    "start + len \<le> slot_size os i"
  shows "\<exists>b'. On_READMODULEBUF os link (MODULEINFO_bytes start len i @ tl0) (s, b) =
       Some (logged link MSG_READMODULEBUF
         ([48, 44] @ take (nat len) (drop (nat start) (board_options os i b))) s, b') \<and>
     board_ok b' \<and> board_options os i b' = board_options os i b"
proof -
  have sz: "slot_size os i \<le> 255" by (simp add: slot_size_def)
  have l: "len \<le> 255" "start \<le> 255" using assms(4-6) sz by auto
  have m: "MODULEINFO_of (MODULEINFO_bytes start len i @ tl0) = Some \<lparr>iStartAddr = start, iLength = len, iIndex = i\<rparr>"
    using assms(3-5) l by (intro MODULEINFO_of_bytes) (simp_all add: is_int_def)
  obtain buf' b' where r: "slot_rd os i (replicate 255 0) start len b = Some (0, buf', b')"
    using slot_rd_works [OF assms(1,2,4-6), of "replicate 255 0"] by auto
  have r': "ReadModuleBuf os \<lparr>iStartAddr = start, iLength = len, iIndex = i\<rparr> (Some (replicate 255 0)) b =
      Some (0, Some buf', b')"
    using r by (auto simp: slot_rd_def split: bind_splits)
  define got where "got = take (nat len) (drop (nat start) (board_options os i b))"
  have k: "take (nat len) buf' = got" "board_options os i b' = board_options os i b" "board_ok b'"
    using slotbuf.rd_bytes [OF assms(1) r assms(4-6)] by (simp_all add: got_def)
  have "nat start + nat len \<le> length (board_options os i b)"
    using slotbuf.img_size [OF assms(1), of os i] assms(4-6) by linarith
  then have g: "length got = nat len" by (simp add: got_def)
  then have "length (take (nat len) buf') = nat len" using k(1) by simp
  then have lb: "nat len \<le> length buf'" by (simp add: min_def split: if_splits)
  have up: "int_add start len = Some (start + len)" "start + len \<le> 255" "int_add 2 len = Some (2 + len)"
    using assms(4-6) l sz by (simp_all add: int_add_def)
  have hd: "str (dec 0 @ '','') = [48, 44]" using dec_0_1(1) by (simp add: str_def)
  have hl: "length (dec 0) = 1" using arg_cong [OF dec_0_1(1), of length] by simp
  have c1: "memcpy (replicate NR_MAXPACKLEN 0) 0 ([48, 44] @ [0]) 0 3 = Some (pad NR_MAXPACKLEN ([48, 44]))"
    using memcpy_pad [of "[48, 44]" NR_MAXPACKLEN] by (simp add: NR_MAXPACKLEN_def pad_Nil numeral_3_eq_3)
  have c2: "memcpy_int (pad NR_MAXPACKLEN ([48, 44])) 2 buf' 0 len = Some (pad NR_MAXPACKLEN ([48, 44] @ got))"
    using memcpy_pad_at [of "[48, 44]" "nat len" NR_MAXPACKLEN buf'] l(1) lb assms(5) k(1)
    by (simp add: memcpy_int_def NR_MAXPACKLEN_def numeral_2_eq_2)
  have n: "nat (2 + len) = length ([48, 44] @ got)" using g assms(5) by simp
  have "nat (2 + len) \<le> length (pad NR_MAXPACKLEN ([48, 44] @ got))"
    unfolding n using g l(1) by (simp add: NR_MAXPACKLEN_def pad_def)
  then have sd: "SendData link MSG_READMODULEBUF (pad NR_MAXPACKLEN ([48, 44] @ got)) (nat (2 + len)) s =
      Some (link (sv_log s) MSG_READMODULEBUF ([48, 44] @ got), logged link MSG_READMODULEBUF ([48, 44] @ got) s)"
    using take_pad [of "[48, 44] @ got" NR_MAXPACKLEN] by (simp add: SendData_logged n)
  have "On_READMODULEBUF os link (MODULEINFO_bytes start len i @ tl0) (s, b) =
      Some (logged link MSG_READMODULEBUF ([48, 44] @ got) s, b')"
    using up(2) by (simp add: On_READMODULEBUF_def m up(1,3) r' hd hl c1 [unfolded numeral_3_eq_3] c2 sd Let_def del: append.simps)
  then show ?thesis using k(2,3) by (simp add: got_def)
qed

lemma WRITEMODULEBUF_works:
  assumes "board_ok b" "board_works os i b" "is_int i" "0 \<le> start" "0 < len" "len < 255"
    "start + len \<le> slot_size os i" "length bs = nat len"
  shows "\<exists>b'. On_WRITEMODULEBUF os link (MODULEINFO_bytes start len i @ bs) (12 + length bs) (s, b) =
       Some (logged link MSG_WRITEMODULEBUF [48] s, b') \<and>
     board_ok b' \<and> board_works os i b' \<and> board_options os i b' = blit (board_options os i b) (nat start) bs"
proof -
  have st: "start \<le> 255" "start + len \<le> 255" using assms(4-7) by (auto simp: slot_size_def split: if_splits)
  have m: "MODULEINFO_of (MODULEINFO_bytes start len i @ bs) = Some \<lparr>iStartAddr = start, iLength = len, iIndex = i\<rparr>"
    using assms(3-6) st by (intro MODULEINFO_of_bytes) (simp_all add: is_int_def)
  obtain b' where w: "slot_wr os i bs start len b = Some (0, b')" "board_ok b'" "board_works os i b'"
    using slot_wr_works [OF assms(1,2,4-7), of bs] assms(8) by auto
  have im: "board_options os i b' = blit (board_options os i b) (nat start) bs"
    using slotbuf.wr_bytes [OF assms(1) w(1) assms(4,5,7)] assms(8) by simp
  have g: "word_of_int len + of_nat SIZEOF_MODULEINFO \<le> (of_nat (12 + length bs) :: u32)"
    using assms(5,8) by (simp add: SIZEOF_MODULEINFO_def of_nat_nat add.commute)
  have cp: "memcpy (replicate (nat len) 0) 0 (MODULEINFO_bytes start len i @ bs) 12 (nat len) = Some bs"
    using assms(8) by (simp add: memcpy_def blit_whole)
  have "module_buf_written os (MODULEINFO_bytes start len i @ bs) (12 + length bs) b = Some (0, b')"
    using m st w(1) g cp assms(4,5)
    by (simp add: module_buf_written_def int_add_def slot_wr_def SIZEOF_MODULEINFO_def)
  then have "On_WRITEMODULEBUF os link (MODULEINFO_bytes start len i @ bs) (12 + length bs) (s, b) =
      Some (logged link MSG_WRITEMODULEBUF (str (dec 0)) s, b')"
    by (rule writebuf.answered) simp_all
  then show ?thesis using w im by (simp add: dec_0_1)
qed

text \<open>
  C22: A client that writes a part of a slot's buffer and reads it again gets the answers "0" and
  "0," followed by the bytes it wrote, from the instrument and from both kinds of modules, and
  no other byte of that slot has changed. A write is limited to 254 bytes.
\<close>

theorem module_buffer_answered:
  assumes "board_ok b" "board_works os i b" "is_int i" "0 \<le> start" "0 < len" "len < 255"
    "start + len \<le> slot_size os i" "length bs = nat len"
  shows "\<exists>s1 b1 s2 b2 ok1 ok2.
     On_WRITEMODULEBUF os link (MODULEINFO_bytes start len i @ bs) (12 + length bs) (s, b) = Some (s1, b1) \<and>
     On_READMODULEBUF os link (MODULEINFO_bytes start len i) (s1, b1) = Some (s2, b2) \<and>
     sv_log s2 = sv_log s @ [(MSG_WRITEMODULEBUF, [48], ok1), (MSG_READMODULEBUF, [48, 44] @ bs, ok2)] \<and>
     board_options os i b2 = blit (board_options os i b) (nat start) bs"
proof -
  obtain b1 where w: "On_WRITEMODULEBUF os link (MODULEINFO_bytes start len i @ bs) (12 + length bs) (s, b) =
      Some (logged link MSG_WRITEMODULEBUF [48] s, b1)" "board_ok b1" "board_works os i b1"
      "board_options os i b1 = blit (board_options os i b) (nat start) bs"
    using WRITEMODULEBUF_works [OF assms] by blast
  have l: "nat start + length bs \<le> length (board_options os i b)"
    using slotbuf.img_size [OF assms(1), of os i] assms(4-8) by linarith
  have "take (nat len) (drop (nat start) (board_options os i b1)) = bs"
    using l assms(8) by (simp add: w(4) blit_def)
  then obtain b2 where "On_READMODULEBUF os link (MODULEINFO_bytes start len i) (logged link MSG_WRITEMODULEBUF [48] s, b1) =
      Some (logged link MSG_READMODULEBUF ([48, 44] @ bs) (logged link MSG_WRITEMODULEBUF [48] s), b2)"
      "board_options os i b2 = board_options os i b1"
    using READMODULEBUF_works [OF w(2,3) assms(3-5,7), of link "[]" "logged link MSG_WRITEMODULEBUF [48] s"]
    by auto
  then show ?thesis using w(1,4)
    by (intro exI [of _ "logged link MSG_WRITEMODULEBUF [48] s"] exI [of _ b1]
        exI [of _ "logged link MSG_READMODULEBUF ([48, 44] @ bs) (logged link MSG_WRITEMODULEBUF [48] s)"] exI [of _ b2]) simp
qed

theorem module_buffer_answered_witness:
  "\<exists>s1 b1 s2 b2 ok1 ok2.
     On_WRITEMODULEBUF os_net (\<lambda>_ _ _. True) (MODULEINFO_bytes 48 2 (-1) @ [7, 9]) 14
       (CCommonServer_new None 0 no_memory, board_sim) = Some (s1, b1) \<and>
     On_READMODULEBUF os_net (\<lambda>_ _ _. True) (MODULEINFO_bytes 48 2 (-1)) (s1, b1) = Some (s2, b2) \<and>
     sv_log s2 = [(MSG_WRITEMODULEBUF, [48], ok1), (MSG_READMODULEBUF, [48, 44, 7, 9], ok2)]"
  using module_buffer_answered [of board_sim os_net "-1" 48 2 "[7, 9]" "\<lambda>_ _ _. True" "CCommonServer_new None 0 no_memory"]
    board_sim_ok
  by (auto simp: is_int_def slot_size_def IndexValid_def CCommonServer_new_def)

subsection \<open>What the questions are answered with\<close>

lemma take_cstr: "take (length (cstr b)) b = cstr b"
  unfolding cstr_def using takeWhile_eq_take by metis

lemma slot_serial_bounds: "length (slot_serial os i) \<le> 16" "0 \<notin> set (slot_serial os i)"
  using serial_of_props isalnum_0 by (auto simp: slot_serial_def split: option.splits) (use isalnum_0 serial_of_props(2) in blast)

lemma slot_sn_buffer:
  assumes "0 \<le> i" "i < 6"
  obtains sn where "v400_boardres_ind2sn os i (replicate 256 0) = Some (0, sn)" "length sn = 256"
    "cstr sn = slot_serial os i" "0 \<in> set sn" "take 14 sn = take 14 (slot_serial os i @ replicate 14 0)"
proof -
  obtain rest where r: "v400_boardres_ind2sn os i (replicate 256 0) =
      Some (0, slot_serial os i @ replicate (17 - length (slot_serial os i)) 0 @ rest)" "length rest = 239"
    using ind2sn_slot [OF assms, of "replicate 256 0" os] by auto
  have l: "length (slot_serial os i) \<le> 16" by (rule slot_serial_bounds)
  show thesis
    using r l cstr_slot_serial by (intro that [OF r(1)]) auto
qed

definition serial_field :: "os \<Rightarrow> int \<Rightarrow> bytes" where
  "serial_field os i = take 14 (slot_serial os i @ replicate 14 0)"

lemma sn_fixed_eq:
  assumes "\<forall>i \<in> set slots. 0 \<le> i \<and> i < 6" "length t + 14 * length slots \<le> k"
  shows "sn_fixed os slots (pad k t) (length t) =
    Some (pad k (t @ concat (map (serial_field os) slots)), length t + 14 * length slots)"
  using assms
proof (induction slots arbitrary: t)
  case (Cons i slots)
  obtain sn where "v400_boardres_ind2sn os i (replicate 256 0) = Some (0, sn)" "length sn = 256"
      "take 14 sn = serial_field os i"
    using slot_sn_buffer [of i os] Cons.prems(1) by (auto simp: serial_field_def)
  moreover have "length (serial_field os i) = 14" by (simp add: serial_field_def)
  ultimately show ?case
    using Cons.IH [of "t @ serial_field os i"] Cons.prems by (simp add: memcpy_pad_at add.commute)
qed simp

lemma sn_lines_eq:
  assumes "\<forall>i \<in> set slots. 0 \<le> i \<and> i < 6"
    "length (t @ concat (map (\<lambda>i. slot_serial os i @ [13]) slots)) \<le> k"
  shows "sn_lines os slots (pad k t) (length t) =
    Some (pad k (t @ concat (map (\<lambda>i. slot_serial os i @ [13]) slots)),
      length (t @ concat (map (\<lambda>i. slot_serial os i @ [13]) slots)))"
  using assms
proof (induction slots arbitrary: t)
  case (Cons i slots)
  let ?s = "slot_serial os i"
  obtain sn where sn: "v400_boardres_ind2sn os i (replicate 256 0) = Some (0, sn)" "c_string sn = Some ?s"
      "cstr sn = ?s"
    using slot_sn_buffer [of i os] Cons.prems(1) by (metis c_string_Some list.set_intros(1))
  have "length ?s \<le> length sn" "take (length ?s) sn = ?s"
    using sn(3) strlen_le [of sn] take_cstr [of sn] by (simp_all add: strlen_def)
  then show ?case
    using Cons.IH [of "t @ ?s @ [13]"] Cons.prems sn store_pad [of "t @ ?s" k 13]
    by (simp add: memcpy_pad_at)
qed simp

text \<open>The instrument's own serial number, the fourteen bytes from address 16 on.\<close>

lemma ReadSerialNumber_works:
  assumes "susi_ok E" "susi_works (fst E)"
  shows "\<exists>buf E'. ReadSerialNumber (Some (replicate 14 0)) E = Some (0, Some buf, E') \<and>
     buf = take 14 (drop 16 (susi_image E)) \<and> susi_image E' = susi_image E \<and> susi_ok E' \<and> fst E' = fst E"
proof -
  obtain buf E' where r: "ReadOptionBuffer (replicate 14 0) 16 14 E = Some (0, buf, E')" "fst E' = fst E" "length buf = 14"
    using ReadOptionBuffer_works [OF assms, of 16 14 "replicate 14 0"] by auto
  have "take 14 buf = take 14 (drop 16 (susi_image E)) \<and> susi_image E' = susi_image E \<and> susi_ok E'"
    using eeprom.rd_bytes [OF assms(1) r(1)] by simp
  then show ?thesis using r by (simp add: ReadSerialNumber_def memset_def blit_whole)
qed

definition slots :: "int list" where
  "slots = [0..V400PANEL_BOARDNUM - 1]"

lemma slots_eq: "slots = [0, 1, 2, 3, 4, 5]"
  by (simp add: slots_def V400PANEL_BOARDNUM_def upto.simps)

lemma slots_range: "\<forall>i \<in> set slots. 0 \<le> i \<and> i < 6" "length slots = 6"
  by (simp_all add: slots_eq)

definition serial_lines :: "os \<Rightarrow> bytes" where
  "serial_lines os = concat (map (\<lambda>i. slot_serial os i @ [13]) slots)"

definition serial_fields :: "os \<Rightarrow> bytes" where
  "serial_fields os = concat (map (serial_field os) slots)"

lemma length_serial_lines: "length (serial_lines os) \<le> 102"
proof -
  have "length (slot_serial os i) \<le> 16" for i by (rule slot_serial_bounds)
  from this [of 0] this [of 1] this [of 2] this [of 3] this [of 4] this [of 5]
  show ?thesis by (simp add: serial_lines_def slots_eq)
qed

lemma length_serial_fields: "length (serial_fields os) = 84"
proof -
  have "length (serial_field os i) = 14" for i by (simp add: serial_field_def)
  then show ?thesis by (simp add: serial_fields_def slots_eq)
qed

lemma GETSERIALNUMBER_works:
  assumes "susi_ok E" "susi_works (fst E)"
  shows "\<exists>E'. On_GETSERIALNUMBER os link (s, E, D, M) = Some (logged link MSG_GETSERIALNUMBER
       (take 14 (drop 16 (susi_image E)) @ serial_fields os) s, E', D, M) \<and>
     susi_image E' = susi_image E \<and> susi_ok E' \<and> fst E' = fst E"
proof -
  obtain E' where r: "ReadSerialNumber (Some (replicate 14 0)) E = Some (0, Some (take 14 (drop 16 (susi_image E))), E')"
      "susi_image E' = susi_image E" "susi_ok E'" "fst E' = fst E"
    using ReadSerialNumber_works [OF assms] by auto
  define own where "own = take 14 (drop 16 (susi_image E))"
  have o: "length own = 14" using susi_length [OF assms(1)] by (simp add: own_def)
  have c: "memcpy (replicate NR_MAXPACKLEN 0) 0 own 0 14 = Some (pad NR_MAXPACKLEN own)"
    using memcpy_pad_at [of "[]" 14 NR_MAXPACKLEN own] o by (simp add: NR_MAXPACKLEN_def pad_Nil)
  have l: "sn_fixed os slots (pad NR_MAXPACKLEN own) 14 = Some (pad NR_MAXPACKLEN (own @ serial_fields os), 98)"
    using sn_fixed_eq [OF slots_range(1), of own NR_MAXPACKLEN os] o slots_range(2)
    by (simp add: NR_MAXPACKLEN_def serial_fields_def)
  have s: "SendData link MSG_GETSERIALNUMBER (pad NR_MAXPACKLEN (own @ serial_fields os)) 98 s =
      Some (link (sv_log s) MSG_GETSERIALNUMBER (own @ serial_fields os), logged link MSG_GETSERIALNUMBER (own @ serial_fields os) s)"
    using SendData_pad [of "own @ serial_fields os" NR_MAXPACKLEN link MSG_GETSERIALNUMBER s] o length_serial_fields [of os]
    by (simp add: NR_MAXPACKLEN_def)
  show ?thesis
    using r c l s by (simp add: On_GETSERIALNUMBER_def own_def [symmetric] slots_def [symmetric])
qed

lemma GETSERIALNUMBERALL_works:
  assumes "susi_ok E" "susi_works (fst E)"
  shows "\<exists>E'. On_GETSERIALNUMBERALL os link (s, E, D, M) = Some (logged link MSG_GETSERIALNUMBERALL
       (take 14 (drop 16 (susi_image E)) @ [13] @ serial_lines os) s, E', D, M) \<and>
     susi_image E' = susi_image E \<and> susi_ok E' \<and> fst E' = fst E"
proof -
  obtain E' where r: "ReadSerialNumber (Some (replicate 14 0)) E = Some (0, Some (take 14 (drop 16 (susi_image E))), E')"
      "susi_image E' = susi_image E" "susi_ok E'" "fst E' = fst E"
    using ReadSerialNumber_works [OF assms] by auto
  define own where "own = take 14 (drop 16 (susi_image E))"
  have o: "length own = 14" using susi_length [OF assms(1)] by (simp add: own_def)
  have c: "memcpy (replicate NR_MAXPACKLEN 0) 0 own 0 14 = Some (pad NR_MAXPACKLEN own)"
    using memcpy_pad_at [of "[]" 14 NR_MAXPACKLEN own] o by (simp add: NR_MAXPACKLEN_def pad_Nil)
  have c2: "store (pad NR_MAXPACKLEN own) 14 13 = Some (pad NR_MAXPACKLEN (own @ [13]))"
    using store_pad [of own NR_MAXPACKLEN 13] o by (simp add: NR_MAXPACKLEN_def)
  let ?t = "own @ [13] @ serial_lines os"
  have t: "length ?t \<le> NR_MAXPACKLEN" using o length_serial_lines [of os] by (simp add: NR_MAXPACKLEN_def)
  have l: "sn_lines os slots (pad NR_MAXPACKLEN (own @ [13])) 15 = Some (pad NR_MAXPACKLEN ?t, length ?t)"
    using sn_lines_eq [OF slots_range(1), of "own @ [13]" os NR_MAXPACKLEN] o t by (simp add: serial_lines_def)
  note s = SendData_pad [OF t, of link MSG_GETSERIALNUMBERALL s]
  show ?thesis
    using r c c2 l s by (simp add: On_GETSERIALNUMBERALL_def own_def [symmetric] slots_def [symmetric])
qed

text \<open>
  C23: On a working EEPROM a serial number that is set is answered with "0" and comes back in both
  lists: in 14 bytes, followed by 14 bytes for each of the six slots, or followed by a
  carriage return and the six serial numbers at their length, each with a carriage return.
  No answer overruns its buffer, whatever the serial files of the slots hold.
\<close>

theorem serial_numbers_answered:
  assumes "susi_ok E" "susi_works (fst E)" "14 \<le> length sn"
  shows "\<exists>s1 E1 s2 E2 s3 E3 ok1 ok2 ok3.
     On_SETSERIALNUMBER link sn (s, E, D, M) = Some (s1, E1, D, M) \<and>
     On_GETSERIALNUMBER os link (s1, E1, D, M) = Some (s2, E2, D, M) \<and>
     On_GETSERIALNUMBERALL os link (s2, E2, D, M) = Some (s3, E3, D, M) \<and>
     sv_log s3 = sv_log s @
       [(MSG_SETSERIALNUMBER, [48], ok1),
        (MSG_GETSERIALNUMBER, take 14 sn @ serial_fields os, ok2),
        (MSG_GETSERIALNUMBERALL, take 14 sn @ [13] @ serial_lines os, ok3)]"
proof -
  obtain E1 where w: "WriteOptionBuffer sn 16 14 E = Some (0, E1)" "fst E1 = fst E"
    using WriteOptionBuffer_works [OF assms(1,2), of 16 14 sn] assms(3) by auto
  have i: "susi_image E1 = blit (susi_image E) 16 (take 14 sn)" "susi_ok E1"
    using eeprom.wr_bytes [OF assms(1) w(1)] assms(3) by auto
  have own: "take 14 (drop 16 (susi_image E1)) = take 14 sn"
    using susi_length [OF assms(1)] assms(3) by (simp add: i(1) blit_def min_def)
  have "on_eeprom (WriteSerialNumber sn) (E, D, M) = Some (0, E1, D, M)"
    using w(1) by (simp add: on_eeprom_def WriteSerialNumber_def)
  then have a: "On_SETSERIALNUMBER link sn (s, E, D, M) = Some (logged link MSG_SETSERIALNUMBER [48] s, E1, D, M)"
    using setsn.answered [of sn "(E, D, M)" 0 "(E1, D, M)" link s] by (simp add: dec_0_1)
  have w1: "susi_works (fst E1)" using assms(2) w(2) by simp
  obtain E2 where b: "On_GETSERIALNUMBER os link (logged link MSG_SETSERIALNUMBER [48] s, E1, D, M) =
      Some (logged link MSG_GETSERIALNUMBER (take 14 sn @ serial_fields os) (logged link MSG_SETSERIALNUMBER [48] s), E2, D, M)"
      "susi_image E2 = susi_image E1" "susi_ok E2" "fst E2 = fst E1"
    using GETSERIALNUMBER_works [OF i(2) w1, of os link "logged link MSG_SETSERIALNUMBER [48] s" D M] own by auto
  then have w2: "susi_works (fst E2)" using w1 by simp
  obtain E3 where c: "On_GETSERIALNUMBERALL os link (logged link MSG_GETSERIALNUMBER (take 14 sn @ serial_fields os)
        (logged link MSG_SETSERIALNUMBER [48] s), E2, D, M) =
      Some (logged link MSG_GETSERIALNUMBERALL (take 14 sn @ [13] @ serial_lines os)
        (logged link MSG_GETSERIALNUMBER (take 14 sn @ serial_fields os) (logged link MSG_SETSERIALNUMBER [48] s)), E3, D, M)"
    using GETSERIALNUMBERALL_works [OF b(3) w2, of os link "logged link MSG_GETSERIALNUMBER (take 14 sn @ serial_fields os)
        (logged link MSG_SETSERIALNUMBER [48] s)" D M] own b(2) by auto
  moreover obtain ok1 ok2 ok3 where "sv_log (logged link MSG_GETSERIALNUMBERALL (take 14 sn @ [13] @ serial_lines os)
        (logged link MSG_GETSERIALNUMBER (take 14 sn @ serial_fields os) (logged link MSG_SETSERIALNUMBER [48] s))) =
      sv_log s @ [(MSG_SETSERIALNUMBER, [48], ok1), (MSG_GETSERIALNUMBER, take 14 sn @ serial_fields os, ok2),
        (MSG_GETSERIALNUMBERALL, take 14 sn @ [13] @ serial_lines os, ok3)]"
    by simp
  ultimately show ?thesis using a b(1) by blast
qed

theorem serial_numbers_answered_witness:
  "\<exists>s1 E1 s2 E2 s3 E3 ok1 ok2 ok3.
     On_SETSERIALNUMBER (\<lambda>_ _ _. True) (replicate 14 66) (CCommonServer_new None 0 no_memory, board_sim) = Some (s1, E1, snd board_sim) \<and>
     On_GETSERIALNUMBER os_net (\<lambda>_ _ _. True) (s1, E1, snd board_sim) = Some (s2, E2, snd board_sim) \<and>
     On_GETSERIALNUMBERALL os_net (\<lambda>_ _ _. True) (s2, E2, snd board_sim) = Some (s3, E3, snd board_sim) \<and>
     sv_log s3 = [(MSG_SETSERIALNUMBER, [48], ok1), (MSG_GETSERIALNUMBER, replicate 14 66 @ replicate 84 0, ok2),
       (MSG_GETSERIALNUMBERALL, replicate 14 66 @ 13 # replicate 6 13, ok3)]"
proof -
  have e: "serial_fields os_net = replicate 84 0" "serial_lines os_net = replicate 6 13"
    by (simp_all add: serial_fields_def serial_lines_def slots_eq serial_field_def slot_serial_def os_net_def
        numeral_eq_Suc)
  show ?thesis
    using serial_numbers_answered [OF susi_sim_ok, of "replicate 255 0" "replicate 14 66" "\<lambda>_ _ _. True"
        "CCommonServer_new None 0 no_memory" "fst (snd board_sim)" "snd (snd board_sim)" os_net] susi_sim_works
    by (simp add: e board_sim_def CCommonServer_new_def)
qed

text \<open>
  The first six bytes of a slot's options, if its module is one on the network that can be
  reached; zeros for a module with an FTDI chip and for a slot without a network interface.
\<close>

definition slot_mac :: "os \<Rightarrow> 'c mod_state \<Rightarrow> int \<Rightarrow> bytes" where
  "slot_mac os M i =
     (if \<not> slot_on_ftdi os i \<and> slot_up os i then take 6 (mod_options os i M) else replicate 6 0)"

definition slot_answers :: "os \<Rightarrow> int \<Rightarrow> bool" where
  "slot_answers os i \<longleftrightarrow> slot_on_ftdi os i \<or> slot_up os i \<or>
     (\<exists>r n od. v400_boardres_ind2netif os i = Some (r, n, od) \<and> r \<noteq> 0)"

lemma slot_mac_read:
  assumes "mod_ok M" "modnet_works (fst M)" "slot_answers os i" "\<not> slot_on_ftdi os i"
  shows "\<exists>r buf M'. ReadOptionBufferIndex os i (replicate 255 0) 0 6 M = Some (r, buf, M') \<and>
     6 \<le> length buf \<and> take 6 buf = slot_mac os M i \<and>
     (\<forall>j. mod_options os j M' = mod_options os j M) \<and> mod_ok M' \<and> fst M' = fst M"
proof -
  obtain m d nf where M: "M = (m, d, nf)" by (cases M) auto
  have laws: "modnet_laws m" using assms(1) by (simp add: M mod_ok_def)
  show ?thesis
  proof (cases "slot_up os i")
    case True
    obtain buf M' where r: "ReadOptionBufferIndex os i (replicate 255 0) 0 6 M = Some (0, buf, M')" "fst M' = fst M"
      using Read_index_works [of M os i 0 6 "replicate 255 0"] assms(2) laws True by (auto simp: M)
    have t: "take 6 buf = take 6 (mod_options os i M)"
      using modopt.rd_bytes [OF assms(1) r(1)] by simp
    then have "length (take 6 buf) = 6" using modopt.img_size [OF assms(1), of os i] by simp
    then have "6 \<le> length buf" by simp
    moreover have "\<forall>j. mod_options os j M' = mod_options os j M"
      using Read_index_keeps [of m os i "replicate 255 0" 0 6 d nf 0 buf M'] laws r(1)
      by (auto simp: M mod_options_def)
    ultimately show ?thesis using r t True assms(1,4) by (auto simp: slot_mac_def mod_ok_def)
  next
    case False
    then obtain r n od where "v400_boardres_ind2netif os i = Some (r, n, od)" "r \<noteq> 0"
      using assms(3,4) by (auto simp: slot_answers_def)
    then have "ReadOptionBufferIndex os i (replicate 255 0) 0 6 M = Some (r, replicate 255 0, (m, d, n))"
      by (simp add: ReadOptionBufferIndex_def M)
    then show ?thesis using False assms(1) by (auto simp: slot_mac_def M mod_options_def mod_ok_def)
  qed
qed

lemma mac_loop_eq:
  assumes "mod_ok M" "modnet_works (fst M)" "length t + 6 * length js \<le> k"
    "\<forall>i \<in> set js. IndexValid i \<and> slot_answers os i"
  shows "\<exists>M'. mac_loop os js (pad k t) (length t) M =
    Some (pad k (t @ concat (map (slot_mac os M) js)), length t + 6 * length js, M') \<and>
    (\<forall>j. mod_options os j M' = mod_options os j M) \<and> mod_ok M' \<and> fst M' = fst M"
  using assms
proof (induction js arbitrary: t M)
  case (Cons i js)
  have lm: "length (slot_mac os M i) = 6"
    using modopt.img_size [OF Cons.prems(1), of os i] by (simp add: slot_mac_def)
  obtain ty where ty: "GetBoardresType os i = Some ty"
    using type_known [of i os] Cons.prems(4) by auto
  then have f: "slot_on_ftdi os i = is_ftdi_type ty" by (simp add: slot_on_ftdi_def)
  have "\<exists>M1. mac_loop os (i # js) (pad k t) (length t) M =
      mac_loop os js (pad k (t @ slot_mac os M i)) (length t + 6) M1 \<and>
      (\<forall>j. mod_options os j M1 = mod_options os j M) \<and> mod_ok M1 \<and> fst M1 = fst M"
  proof (cases "slot_on_ftdi os i")
    case True
    then have "slot_mac os M i = replicate 6 0" by (simp add: slot_mac_def)
    then show ?thesis using True f ty Cons.prems(1,3) lm
      by (intro exI [of _ M]) (simp add: memcpy_pad_at)
  next
    case False
    obtain r buf M1 where r: "ReadOptionBufferIndex os i (replicate 255 0) 0 6 M = Some (r, buf, M1)" "6 \<le> length buf"
       "take 6 buf = slot_mac os M i" "\<forall>j. mod_options os j M1 = mod_options os j M" "mod_ok M1" "fst M1 = fst M"
      using slot_mac_read [OF Cons.prems(1,2) _ False] Cons.prems(4) by auto
    have "memcpy (replicate 6 0) 0 buf 0 6 = Some (slot_mac os M i)"
      using r(2,3) lm by (simp add: memcpy_def blit_whole)
    then show ?thesis using False f ty Cons.prems(3) lm r
      by (intro exI [of _ M1]) (simp add: memcpy_pad_at)
  qed
  then obtain M1 where m: "mac_loop os (i # js) (pad k t) (length t) M =
      mac_loop os js (pad k (t @ slot_mac os M i)) (length t + 6) M1"
      "\<forall>j. mod_options os j M1 = mod_options os j M" "mod_ok M1" "fst M1 = fst M" by blast
  have e: "slot_mac os M1 = slot_mac os M" using m(2) by (simp add: slot_mac_def fun_eq_iff)
  show ?case
    using Cons.IH [of M1 "t @ slot_mac os M i"] m Cons.prems lm by (auto simp: e)
qed auto

lemma ReadMAC_works:
  assumes "susi_ok E" "susi_works (fst E)"
  shows "\<exists>E'. ReadMAC (Some (replicate 6 0)) E = Some (0, Some (take 6 (susi_image E)), E') \<and>
     susi_image E' = susi_image E \<and> susi_ok E' \<and> fst E' = fst E"
proof -
  obtain buf E' where r: "ReadOptionBuffer (replicate 6 0) 0 6 E = Some (0, buf, E')" "fst E' = fst E" "length buf = 6"
    using ReadOptionBuffer_works [OF assms, of 0 6 "replicate 6 0"] by auto
  have "take 6 buf = take 6 (susi_image E) \<and> susi_image E' = susi_image E \<and> susi_ok E'"
    using eeprom.rd_bytes [OF assms(1) r(1)] by simp
  then show ?thesis using r by (simp add: ReadMAC_def memset_def blit_whole)
qed

text \<open>
  C24: On a working instrument \<^verbatim>\<open>MSG_SETMAC\<close> is answered with "0", and \<^verbatim>\<open>MSG_GETMAC\<close> with 42 bytes:
  the MAC address that was set, and six bytes for each slot: the first options of a module on
  the network, zeros for a module with an FTDI chip and for a slot without a module. The serial
  number of the instrument and the options of the modules stay as they are.
\<close>

theorem mac_addresses_answered:
  assumes "susi_ok E" "susi_works (fst E)" "6 \<le> length mac" "mod_ok M" "modnet_works (fst M)"
    "\<forall>i \<in> {0..5}. slot_answers os i"
  shows "\<exists>s1 E1 s2 E2 M2 ok1 ok2.
     On_SETMAC link mac (s, E, D, M) = Some (s1, E1, D, M) \<and>
     On_GETMAC os link (s1, E1, D, M) = Some (s2, E2, D, M2) \<and>
     sv_log s2 = sv_log s @ [(MSG_SETMAC, [48], ok1),
       (MSG_GETMAC, take 6 mac @ concat (map (slot_mac os M) [0, 1, 2, 3, 4, 5]), ok2)] \<and>
     drop 6 (susi_image E2) = drop 6 (susi_image E) \<and>
     (\<forall>j. mod_options os j M2 = mod_options os j M)"
proof -
  obtain E1 where w: "WriteOptionBuffer mac 0 6 E = Some (0, E1)" "fst E1 = fst E"
    using WriteOptionBuffer_works [OF assms(1,2), of 0 6 mac] assms(3) by auto
  have i: "susi_image E1 = blit (susi_image E) 0 (take 6 mac)" "susi_ok E1"
    using eeprom.wr_bytes [OF assms(1) w(1)] assms(3) by auto
  have im: "take 6 (susi_image E1) = take 6 mac" "drop 6 (susi_image E1) = drop 6 (susi_image E)"
    using assms(3) by (simp_all add: i(1) blit_def)
  have "on_eeprom (WriteMAC mac) (E, D, M) = Some (0, E1, D, M)"
    using w(1) by (simp add: on_eeprom_def WriteMAC_def)
  then have a: "On_SETMAC link mac (s, E, D, M) = Some (logged link MSG_SETMAC [48] s, E1, D, M)"
    using setmac.answered [of mac "(E, D, M)" 0 "(E1, D, M)" link s] by (simp add: dec_0_1)
  obtain E2 where r: "ReadMAC (Some (replicate 6 0)) E1 = Some (0, Some (take 6 mac), E2)"
      "susi_image E2 = susi_image E1"
    using ReadMAC_works [OF i(2)] assms(2) w(2) im(1) by auto
  have l6: "length (take 6 mac) = 6" using assms(3) by simp
  have c: "memcpy (replicate NR_MAXPACKLEN 0) 0 (take 6 mac) 0 6 = Some (pad NR_MAXPACKLEN (take 6 mac))"
    using memcpy_pad_at [of "[]" 6 NR_MAXPACKLEN "take 6 mac"] l6 by (simp add: NR_MAXPACKLEN_def pad_Nil)
  define macs where "macs = concat (map (slot_mac os M) slots)"
  have "\<forall>i \<in> set slots. IndexValid i \<and> slot_answers os i" using assms(6) by (simp add: slots_eq IndexValid_def)
  then obtain M2 where m: "mac_loop os slots (pad NR_MAXPACKLEN (take 6 mac)) 6 M =
      Some (pad NR_MAXPACKLEN (take 6 mac @ macs), 42, M2)" "\<forall>j. mod_options os j M2 = mod_options os j M"
    using mac_loop_eq [OF assms(4,5), of "take 6 mac" slots NR_MAXPACKLEN os] l6 slots_range(2)
    by (auto simp: NR_MAXPACKLEN_def macs_def)
  have "length (slot_mac os M i) = 6" for i
    using modopt.img_size [OF assms(4), of os i] by (simp add: slot_mac_def)
  then have lm: "length (take 6 mac @ macs) = 42" using l6 by (simp add: macs_def slots_eq)
  let ?s = "logged link MSG_SETMAC [48] s"
  have sd: "SendData link MSG_GETMAC (pad NR_MAXPACKLEN (take 6 mac @ macs)) 42 ?s =
      Some (link (sv_log ?s) MSG_GETMAC (take 6 mac @ macs), logged link MSG_GETMAC (take 6 mac @ macs) ?s)"
    using SendData_pad [of "take 6 mac @ macs" NR_MAXPACKLEN link MSG_GETMAC ?s] lm by (simp add: NR_MAXPACKLEN_def)
  have "On_GETMAC os link (?s, E1, D, M) = Some (logged link MSG_GETMAC (take 6 mac @ macs) ?s, E2, D, M2)"
    using r(1) c m(1) sd by (simp add: On_GETMAC_def slots_def [symmetric])
  moreover obtain ok1 ok2 where "sv_log (logged link MSG_GETMAC (take 6 mac @ macs) ?s) =
      sv_log s @ [(MSG_SETMAC, [48], ok1), (MSG_GETMAC, take 6 mac @ concat (map (slot_mac os M) [0, 1, 2, 3, 4, 5]), ok2)]"
    by (simp add: macs_def slots_eq)
  moreover have "drop 6 (susi_image E2) = drop 6 (susi_image E)" using r(2) im(2) by simp
  ultimately show ?thesis using a m(2) by blast
qed

theorem mac_addresses_answered_witness:
  "\<exists>s1 E1 s2 E2 M2 ok1 ok2.
     On_SETMAC (\<lambda>_ _ _. True) [1, 2, 3, 4, 5, 6] (CCommonServer_new None 0 no_memory, board_sim) = Some (s1, E1, snd board_sim) \<and>
     On_GETMAC os_net (\<lambda>_ _ _. True) (s1, E1, snd board_sim) = Some (s2, E2, fst (snd board_sim), M2) \<and>
     sv_log s2 = [(MSG_SETMAC, [48], ok1), (MSG_GETMAC, [1, 2, 3, 4, 5, 6] @ replicate 36 0, ok2)]"
proof -
  have up: "slot_answers os_net i" if "i \<in> {0..5}" for i
  proof -
    have "i = 0 \<or> i = 1 \<or> i = 2 \<or> i = 3 \<or> i = 4 \<or> i = 5" using that by auto
    then have "v400_boardres_ind2netif os_net i = Some (0, ''usb3'', 0)"
      by (auto simp: os_net_def v400_boardres_ind2netif_def v400_boardres_ind2usbpath_def net_path_def
          usb_dir_def dec_def digits.simps sprintf_def)
    then show ?thesis by (simp add: slot_answers_def slot_up_def slot_netif_def os_net_def)
  qed
  define D where "D = fst (snd board_sim)"
  define M where "M = snd (snd board_sim)"
  have b: "board_sim = ((susi_sim, replicate 255 0), D, M)" by (simp add: board_sim_def D_def M_def)
  have z: "slot_mac os_net M i = replicate 6 0" for i
    by (simp add: slot_mac_def mod_options_def M_def board_sim_def mod_sim_def pad255_def)
  have m: "mod_ok M" "modnet_works (fst M)"
    using mod_sim_laws mod_sim_works by (simp_all add: M_def board_sim_def mod_ok_def)
  have lg: "sv_log (CCommonServer_new None 0 no_memory) = []" by (simp add: CCommonServer_new_def)
  obtain s1 E1 s2 E2 M2 ok1 ok2 where r:
    "On_SETMAC (\<lambda>_ _ _. True) [1, 2, 3, 4, 5, 6]
       (CCommonServer_new None 0 no_memory, (susi_sim, replicate 255 0), D, M) = Some (s1, E1, D, M)"
    "On_GETMAC os_net (\<lambda>_ _ _. True) (s1, E1, D, M) = Some (s2, E2, D, M2)"
    "sv_log s2 = [] @ [(MSG_SETMAC, [48], ok1), (MSG_GETMAC, take 6 [1, 2, 3, 4, 5, 6] @
       concat (map (slot_mac os_net M) [0, 1, 2, 3, 4, 5]), ok2)]"
    using mac_addresses_answered [OF susi_sim_ok, of "replicate 255 0" "[1, 2, 3, 4, 5, 6]" M os_net
        "\<lambda>_ _ _. True" "CCommonServer_new None 0 no_memory" D] susi_sim_works m up unfolding lg
    by auto
  have "replicate 36 (0 :: byte) = concat (map (slot_mac os_net M) [0, 1, 2, 3, 4, 5])"
    unfolding z by (simp add: numeral_eq_Suc)
  then show ?thesis using r
    by (intro exI [of _ s1] exI [of _ E1] exI [of _ s2] exI [of _ E2] exI [of _ M2] exI [of _ ok1] exI [of _ ok2])
      (simp add: b del: replicate_numeral)
qed

subsection \<open>Lengths that are not checked\<close>

text \<open>
  A read of more than 255 bytes is refused, but as many bytes are then copied from the local
  array of 255.
\<close>

lemma READMODULEBUF_overruns:
  assumes "MODULEINFO_of data = Some m" "255 < iLength m" "0 \<le> iStartAddr m"
    "iStartAddr m + iLength m < 2 ^ 31"
  shows "On_READMODULEBUF os link data (s, b) = None"
proof -
  have "\<exists>t. memcpy (replicate NR_MAXPACKLEN 0) 0 (str (dec 1 @ '','') @ [0]) 0 (length (str (dec 1 @ '','')) + 1) = Some t"
    by (simp add: memcpy_def dec_def digits.simps NR_MAXPACKLEN_def)
  then show ?thesis using assms
    by (auto simp: On_READMODULEBUF_def int_add_def memcpy_int_def memcpy_def Let_def split: bind_splits)
qed

text \<open>
  A length from -12 to -1 passes the test of \<^verbatim>\<open>MSG_WRITEMODULEBUF\<close>, whose sum wraps around to a
  number below 12.
\<close>

lemma WRITEMODULEBUF_negative:
  assumes "MODULEINFO_of data = Some m" "-12 \<le> iLength m" "iLength m < 0" "12 \<le> len" "len < 2 ^ 32"
    "0 \<le> iStartAddr m" "iStartAddr m \<le> 255"
  shows "On_WRITEMODULEBUF os link data len (s, b) = None"
proof -
  have "(word_of_int (iLength m) + of_nat SIZEOF_MODULEINFO :: u32) = word_of_int (iLength m + 12)"
    by (simp add: SIZEOF_MODULEINFO_def)
  moreover have "uint (word_of_int (iLength m + 12) :: u32) = iLength m + 12"
    using assms(2,3) by (subst uint_word_of_int_eq) (simp add: take_bit_int_eq_self)
  moreover have "uint (of_nat len :: u32) = int len" using assms(5) by (simp add: take_bit_nat_eq_self uint_nat unat_of_nat)
  ultimately have "word_of_int (iLength m) + of_nat SIZEOF_MODULEINFO \<le> (of_nat len :: u32)"
    using assms(2-4) by (simp add: word_le_def)
  then show ?thesis
    using assms by (simp add: On_WRITEMODULEBUF_def module_buf_written_def int_add_def)
qed

end
