(* ===== verification/Commands.thy ===== *)
theory Commands
  imports Server
begin

text \<open>
  Two threads of \<^verbatim>\<open>common/CommonServer.cpp\<close> and the messages that start and cancel them:
  \<^verbatim>\<open>CMD_DoWork\<close>, which runs a shell command and sends what it prints line by line, and
  \<^verbatim>\<open>ReadMemory_DoWork\<close>, which sends blocks of memory. As for a download, a step is one pass of
  the loop.
\<close>

definition MSG_READMEMORY :: u32 where "MSG_READMEMORY = 0x113"
definition MSG_WRITEMEMORY :: u32 where "MSG_WRITEMEMORY = 0x114"
definition SIZEOF_MEMINFO :: nat where "SIZEOF_MEMINFO = 8"

subsection \<open>Commands\<close>

text \<open>
  \<^verbatim>\<open>fgets\<close> on a stream with the contents given: at most \<open>n\<close> characters, up to a line feed. The
  result is what was read and what is left.
\<close>

fun fgets :: "nat \<Rightarrow> bytes \<Rightarrow> bytes \<times> bytes" where
  "fgets 0 cs = ([], cs)"
| "fgets (Suc n) [] = ([], [])"
| "fgets (Suc n) (c # cs) =
     (if c = 10 then ([c], cs) else (case fgets n cs of (line, rest) \<Rightarrow> (c # line, rest)))"

text \<open>
  \<open>popen\<close> is the output of a command, if the process could be started. The command is the data
  of the message; the one of the previous message is not freed.
\<close>

definition On_CMD :: "bool \<Rightarrow> bytes \<Rightarrow> nat \<Rightarrow> CCommonServer \<Rightarrow> CCommonServer option" where
  "On_CMD created data len s = do {
     cmd \<leftarrow> memcpy (replicate len 0) 0 data 0 len;
     Some (s\<lparr>m_CMD := Some cmd, m_threadCMD := created\<rparr>)
   }"

definition On_CMD_CANCEL :: "CCommonServer \<Rightarrow> CCommonServer" where
  "On_CMD_CANCEL s = s\<lparr>m_bIsCMDCancel := True\<rparr>"

datatype cmd_pc = CMD_start | CMD_loop bytes | CMD_end | CMD_off

fun CMD_DoWork ::
  "(bytes \<Rightarrow> bytes option) \<Rightarrow> link \<Rightarrow> cmd_pc \<Rightarrow> CCommonServer \<Rightarrow> (cmd_pc \<times> CCommonServer) option" where
  "CMD_DoWork popen link CMD_start s = do {
     let s = s\<lparr>m_bIsCMDCancel := False\<rparr>;
     case m_CMD s of
       None \<Rightarrow> Some (CMD_off, s\<lparr>m_threadCMD := False\<rparr>)
     | Some b \<Rightarrow> do {
         cmd \<leftarrow> c_string b;
         case popen cmd of
           None \<Rightarrow> Some (CMD_off, s\<lparr>m_threadCMD := False\<rparr>)
         | Some out \<Rightarrow> Some (CMD_loop out, s)
       }
   }"
| "CMD_DoWork popen link (CMD_loop out) s =
     (case fgets (NR_MAXPACKLEN - 1) out of (line, rest) \<Rightarrow>
        if line = [] \<or> m_bIsCMDCancel s then Some (CMD_end, s)
        else do {
          strTemp \<leftarrow> memcpy (replicate NR_MAXPACKLEN 0) 0 (line @ [0]) 0 (length line + 1);
          (ok, s) \<leftarrow> SendData link MSG_CMD strTemp (strlen strTemp) s;
          if ok then Some (CMD_loop rest, s)
          else do {
            (_, s) \<leftarrow> SendData_type link MSG_CMD s;
            Some (CMD_end, s)
          }
        })"
| "CMD_DoWork popen link CMD_end s = do {
     (_, s) \<leftarrow> (if \<not> m_bIsCMDCancel s then SendData_type link MSG_CMD s else Some (False, s));
     Some (CMD_off, s\<lparr>m_threadCMD := False\<rparr>)
   }"
| "CMD_DoWork popen link CMD_off s = None"

inductive cmd_step ::
  "(bytes \<Rightarrow> bytes option) \<Rightarrow> link \<Rightarrow> cmd_pc \<times> CCommonServer \<Rightarrow> cmd_pc \<times> CCommonServer \<Rightarrow> bool"
  for popen link where
  thread: "CMD_DoWork popen link pc s = Some (pc', s') \<Longrightarrow> cmd_step popen link (pc, s) (pc', s')"
| cancel: "cmd_step popen link (pc, s) (pc, On_CMD_CANCEL s)"
| other: "fst m \<noteq> MSG_CMD \<Longrightarrow> cmd_step popen link (pc, s) (pc, s\<lparr>sv_log := sv_log s @ [m]\<rparr>)"

subsection \<open>Reading memory\<close>

text \<open>
  The pointer \<^verbatim>\<open>pMemData\<close> is never set; \<open>wild\<close> is whether it happens to point to memory that can be
  written and that nothing else uses. The call of \<^verbatim>\<open>ReadMemory\<close> is commented out, so the zeroed
  block is sent. \<^verbatim>\<open>iReadFinish\<close> is part of the state of the loop.
\<close>

definition On_READMEMORY :: "bool \<Rightarrow> bytes \<Rightarrow> CCommonServer \<Rightarrow> CCommonServer option" where
  "On_READMEMORY created data s =
     (if SIZEOF_MEMINFO \<le> length data
      then Some (s\<lparr>m_memInfoRead := \<lparr>ulStartAddr = read_u32 data 0, ulLength = read_u32 data 4\<rparr>,
                   m_threadReadMemory := created\<rparr>)
      else None)"

definition On_READMEMORY_CANCEL :: "CCommonServer \<Rightarrow> CCommonServer" where
  "On_READMEMORY_CANCEL s = s\<lparr>m_bIsReadMemoryCancel := True\<rparr>"

text \<open>
  \<^verbatim>\<open>MSG_WRITEMEMORY\<close> uses an unset pointer in the same way; the call of \<^verbatim>\<open>WriteMemory\<close> is
  commented out, and success is answered.
\<close>

definition On_WRITEMEMORY :: "bool \<Rightarrow> link \<Rightarrow> bytes \<Rightarrow> CCommonServer \<Rightarrow> CCommonServer option" where
  "On_WRITEMEMORY wild link data s =
     (if wild \<and> SIZEOF_MEMINFO \<le> length data
      then send_text NR_MAXPACKLEN link MSG_WRITEMEMORY (str (dec 0)) s
      else None)"

datatype mem_pc = MEM_start | MEM_loop u32 | MEM_end | MEM_off

fun ReadMemory_DoWork ::
  "bool \<Rightarrow> link \<Rightarrow> mem_pc \<Rightarrow> CCommonServer \<Rightarrow> (mem_pc \<times> CCommonServer) option" where
  "ReadMemory_DoWork wild link MEM_start s = Some (MEM_loop 0, s\<lparr>m_bIsReadMemoryCancel := False\<rparr>)"
| "ReadMemory_DoWork wild link (MEM_loop iReadFinish) s =
     (let info = m_memInfoRead s in
      if \<not> iReadFinish < ulLength info \<or> m_bIsReadMemoryCancel s then Some (MEM_end, s)
      else do {
        let iCurrentLenth = of_nat (NR_MAXPACKLEN - SIZEOF_MEMINFO);
        let iCurrentLenth = (if ulLength info - iReadFinish < iCurrentLenth
                             then ulLength info - iReadFinish else iCurrentLenth);
        _ \<leftarrow> (if wild then Some () else None);
        let addr = ulStartAddr info + iReadFinish;
        let pucBuf = replicate (unat iCurrentLenth) 0;
        let head = str (dec (sint addr) @ dec (sint iCurrentLenth));
        strTemp \<leftarrow> memcpy (replicate NR_MAXPACKLEN 0) 0 (head @ [0]) 0 (length head + 1);
        let iLen = length head;
        strTemp \<leftarrow> memcpy strTemp iLen pucBuf 0 (unat iCurrentLenth);
        (ok, s) \<leftarrow> SendData link MSG_READMEMORY strTemp (iLen + unat iCurrentLenth) s;
        if ok then Some (MEM_loop iReadFinish, s)
        else do {
          (_, s) \<leftarrow> SendData_type link MSG_READMEMORY s;
          Some (MEM_end, s)
        }
      })"
| "ReadMemory_DoWork wild link MEM_end s = Some (MEM_off, s\<lparr>m_threadReadMemory := False\<rparr>)"
| "ReadMemory_DoWork wild link MEM_off s = None"

subsection \<open>The output of a command\<close>

lemma fgets_pos:
  "0 < n \<Longrightarrow> fgets n [] = ([], [])"
  "0 < n \<Longrightarrow> fgets n (c # cs) =
     (if c = 10 then ([c], cs) else (case fgets (n - 1) cs of (line, rest) \<Rightarrow> (c # line, rest)))"
  by (cases n; simp)+

lemma fgets_props:
  "fgets n cs = (line, rest) \<Longrightarrow> cs = line @ rest \<and> length line \<le> n \<and> 10 \<notin> set (butlast line) \<and>
     (0 < n \<longrightarrow> (line = [] \<longleftrightarrow> cs = []))"
proof (induction n cs arbitrary: line rest rule: fgets.induct)
  case (3 n c cs)
  show ?case
  proof (cases "c = 10")
    case False
    then obtain l where l: "fgets n cs = (l, rest)" "line = c # l"
      using 3(2) by (auto split: prod.splits)
    then show ?thesis using 3(1) [OF False l(1)] False by auto
  qed (use 3(2) in auto)
qed auto

lemma fgets_piece:
  assumes "fgets (NR_MAXPACKLEN - 1) cs = (line, rest)"
  shows "cs = line @ rest" "length line < NR_MAXPACKLEN" "10 \<notin> set (butlast line)"
    "line = [] \<longleftrightarrow> cs = []"
proof -
  have n: "0 < NR_MAXPACKLEN - 1" "length line \<le> NR_MAXPACKLEN - 1 \<longleftrightarrow> length line < NR_MAXPACKLEN"
    by (auto simp: NR_MAXPACKLEN_def)
  note f = fgets_props [OF assms]
  from f n show "cs = line @ rest" "length line < NR_MAXPACKLEN" "10 \<notin> set (butlast line)" "line = [] \<longleftrightarrow> cs = []"
    by blast+
qed

text \<open>A message with a line of the output, or with a part of a longer line.\<close>

definition line_msg :: "message \<Rightarrow> bool" where
  "line_msg m \<longleftrightarrow> fst (snd m) \<noteq> [] \<and> length (fst (snd m)) < NR_MAXPACKLEN \<and>
     10 \<notin> set (butlast (fst (snd m)))"

definition end_msg :: "message \<Rightarrow> bool" where
  "end_msg m \<longleftrightarrow> fst (snd m) = []"

definition cmd_done :: "bytes \<Rightarrow> bool \<Rightarrow> nat \<Rightarrow> message list \<Rightarrow> bool" where
  "cmd_done out cancelled k ms \<longleftrightarrow> (\<exists>ds ends rest. ms = ds @ ends \<and> list_all line_msg ds \<and>
     list_all end_msg ends \<and> out = payload ds @ rest \<and>
     (\<not> cancelled \<longrightarrow> (all_ok ds \<longrightarrow> rest = []) \<and> length ends = (if all_ok ds then k else Suc k)))"

fun cmd_ok :: "bytes \<Rightarrow> cmd_pc \<Rightarrow> bool \<Rightarrow> message list \<Rightarrow> bool" where
  "cmd_ok out CMD_start c ms \<longleftrightarrow> ms = []"
| "cmd_ok out (CMD_loop rest) c ms \<longleftrightarrow> out = payload ms @ rest \<and> all_ok ms \<and> list_all line_msg ms"
| "cmd_ok out CMD_end c ms \<longleftrightarrow> cmd_done out c 0 ms"
| "cmd_ok out CMD_off c ms \<longleftrightarrow> cmd_done out c 1 ms"

definition cmd_inv ::
  "(bytes \<Rightarrow> bytes option) \<Rightarrow> bytes \<Rightarrow> message list \<Rightarrow> cmd_pc \<times> CCommonServer \<Rightarrow> bool" where
  "cmd_inv popen out l0 = (\<lambda>(pc, s).
     (\<exists>b cmd. m_CMD s = Some b \<and> c_string b = Some cmd \<and> popen cmd = Some out) \<and>
     (pc = CMD_off \<longrightarrow> \<not> m_threadCMD s) \<and>
     (\<exists>l. sv_log s = l0 @ l \<and> cmd_ok out pc (m_bIsCMDCancel s) (msgs_of MSG_CMD l)))"

lemma cmd_ok_cancelled: "cmd_ok out pc c ms \<Longrightarrow> cmd_ok out pc True ms"
  by (cases pc) (auto simp: cmd_done_def)

lemma logged_cmd [simp]:
  "m_CMD (logged link t d s) = m_CMD s" "m_bIsCMDCancel (logged link t d s) = m_bIsCMDCancel s"
  "m_threadCMD (logged link t d s) = m_threadCMD s"
  by (simp_all add: logged_def)

lemma CMD_line:
  assumes "fgets (NR_MAXPACKLEN - 1) out = (line, rest)" "0 \<notin> set out"
  shows "CMD_DoWork popen link (CMD_loop out) s =
    (if out = [] \<or> m_bIsCMDCancel s then Some (CMD_end, s)
     else if link (sv_log s) MSG_CMD line then Some (CMD_loop rest, logged link MSG_CMD line s)
     else Some (CMD_end, logged link MSG_CMD [] (logged link MSG_CMD line s)))"
proof -
  note l = fgets_piece(1,2,4) [OF assms(1)]
  have z: "0 \<notin> set line" using assms(2) l(1) by auto
  have "memcpy (replicate NR_MAXPACKLEN 0) 0 (line @ [0]) 0 (Suc (length line)) = Some (pad NR_MAXPACKLEN line)"
    using memcpy_pad [OF l(2)] by (simp add: pad_Nil)
  moreover have "strlen (pad NR_MAXPACKLEN line) = length line" using z l(2) by simp
  ultimately show ?thesis
    using l(2,3) assms(1) by (simp add: SendData_logged SendData_type_logged)
qed

text \<open>A pass of the loop, and the end of the thread.\<close>

lemma cmd_inv_loop:
  assumes i: "m_CMD s = Some b" "c_string b = Some cmd" "popen cmd = Some out" "sv_log s = l0 @ l"
      "cmd_ok out (CMD_loop rest) (m_bIsCMDCancel s) (msgs_of MSG_CMD l)"
    and run: "CMD_DoWork popen link (CMD_loop rest) s = Some (pc', s')" and nz: "0 \<notin> set out"
  shows "cmd_inv popen out l0 (pc', s')"
proof -
  let ?ms = "msgs_of MSG_CMD l"
  obtain line rest' where f: "fgets (NR_MAXPACKLEN - 1) rest = (line, rest')" by (cases "fgets (NR_MAXPACKLEN - 1) rest")
  have o: "out = payload ?ms @ rest" "all_ok ?ms" "list_all line_msg ?ms" using i(5) by simp_all
  have "0 \<notin> set rest" using nz o(1) by auto
  note e = run [unfolded CMD_line [OF f this, of popen link s]]
  note pr = fgets_piece [OF f]
  consider "rest = [] \<or> m_bIsCMDCancel s" | "\<not> (rest = [] \<or> m_bIsCMDCancel s)" "link (sv_log s) MSG_CMD line"
    | "\<not> (rest = [] \<or> m_bIsCMDCancel s)" "\<not> link (sv_log s) MSG_CMD line" by blast
  then show ?thesis
  proof cases
    case 1
    have "cmd_done out (m_bIsCMDCancel s) 0 ?ms"
      unfolding cmd_done_def using o
      by (intro exI [of _ ?ms] exI [of _ "[]"] exI [of _ rest]) (use 1 in auto)
    then show ?thesis using 1 e i by (auto simp: cmd_inv_def)
  next
    case 2
    then have s': "pc' = CMD_loop rest'" "s' = logged link MSG_CMD line s" using e by simp_all
    have "line_msg (MSG_CMD, line, True)" using 2(1) pr(2-4) by (simp add: line_msg_def)
    then show ?thesis using s' 2(2) i(1-4) o pr(1) by (simp add: cmd_inv_def)
  next
    case 3
    then have s': "pc' = CMD_end" "s' = logged link MSG_CMD [] (logged link MSG_CMD line s)" using e by simp_all
    let ?sent = "?ms @ [(MSG_CMD, line, False)]"
    have "list_all line_msg ?sent" "\<not> all_ok ?sent" using 3(1) pr(2-4) o(3) by (simp_all add: line_msg_def)
    then have "cmd_done out (m_bIsCMDCancel s) 0 (?sent @ [(MSG_CMD, [], e)])" for e
      unfolding cmd_done_def using o pr(1)
      by (intro exI [of _ ?sent] exI [of _ "[(MSG_CMD, [], e)]"] exI [of _ rest']) (simp add: end_msg_def)
    then show ?thesis using s' 3(2) i(1-4) by (simp add: cmd_inv_def)
  qed
qed

lemma cmd_done_end:
  assumes "cmd_done out False 0 ms"
  shows "cmd_done out False 1 (ms @ [(MSG_CMD, [], k)])"
proof -
  obtain ds ends rest where e: "ms = ds @ ends" "list_all line_msg ds" "list_all end_msg ends"
      "out = payload ds @ rest" "all_ok ds \<longrightarrow> rest = []" "length ends = (if all_ok ds then 0 else Suc 0)"
    using assms by (auto simp: cmd_done_def)
  show ?thesis
    unfolding cmd_done_def e(1) using e(2-6)
    by (intro exI [of _ ds] exI [of _ "ends @ [(MSG_CMD, [], k)]"] exI [of _ rest]) (simp add: end_msg_def)
qed

lemma cmd_inv_thread:
  assumes "cmd_inv popen out l0 (pc, s)" "CMD_DoWork popen link pc s = Some (pc', s')" "0 \<notin> set out"
  shows "cmd_inv popen out l0 (pc', s')"
proof -
  obtain b cmd l where i: "m_CMD s = Some b" "c_string b = Some cmd" "popen cmd = Some out"
      "sv_log s = l0 @ l" "cmd_ok out pc (m_bIsCMDCancel s) (msgs_of MSG_CMD l)"
    using assms(1) by (auto simp: cmd_inv_def)
  show ?thesis
  proof (cases pc)
    case CMD_start
    then show ?thesis using assms(2) i by (auto simp: cmd_inv_def Let_def)
  next
    case (CMD_loop rest)
    note i' = i(5) [unfolded CMD_loop] and run = assms(2) [unfolded CMD_loop]
    show ?thesis by (rule cmd_inv_loop [where l = l]) (rule i(1-4) i' run assms(3))+
  next
    case CMD_end
    then have d: "cmd_done out (m_bIsCMDCancel s) 0 (msgs_of MSG_CMD l)" using i(5) by simp
    show ?thesis
    proof (cases "m_bIsCMDCancel s")
      case True
      then have "cmd_done out True 1 (msgs_of MSG_CMD l)" using d by (auto simp: cmd_done_def)
      then show ?thesis using True CMD_end assms(2) i by (auto simp: cmd_inv_def)
    next
      case False
      then show ?thesis
        using cmd_done_end d CMD_end assms(2) i by (auto simp: cmd_inv_def SendData_type_logged)
    qed
  next
    case CMD_off
    then show ?thesis using assms(2) by simp
  qed
qed

lemma cmd_inv_step:
  assumes "cmd_step popen link (pc, s) (pc', s')" "cmd_inv popen out l0 (pc, s)" "0 \<notin> set out"
  shows "cmd_inv popen out l0 (pc', s')"
  using assms(1)
proof (cases rule: cmd_step.cases)
  case thread
  then show ?thesis using cmd_inv_thread [OF assms(2) _ assms(3)] by simp
next
  case cancel
  then show ?thesis using assms(2) cmd_ok_cancelled by (auto simp: cmd_inv_def On_CMD_CANCEL_def)
next
  case (other m)
  then show ?thesis using assms(2) by (auto simp: cmd_inv_def)
qed

lemma cmd_inv_steps:
  "(cmd_step popen link)\<^sup>*\<^sup>* x y \<Longrightarrow> 0 \<notin> set out \<Longrightarrow> cmd_inv popen out l0 x \<Longrightarrow> cmd_inv popen out l0 y"
  by (induction rule: rtranclp_induct) (auto intro: cmd_inv_step)

subsection \<open>Properties of commands\<close>

text \<open>
  C25: However the thread of a command is interleaved with cancels and with other messages, what
  it sends before it ends is the output of the command from its beginning on, in order and
  without gaps, a line or 2047 characters of a longer line in each message, and then nothing but
  empty messages. If it was not cancelled after it started, at least one empty message marks
  the end; if every line was sent as well, the lines are the whole output and there is exactly
  one end marker, else there are two.
\<close>

theorem command_output_delivered:
  assumes "m_CMD s = Some b" "c_string b = Some cmd" "popen cmd = Some out" "0 \<notin> set out"
    and "(cmd_step popen link)\<^sup>*\<^sup>* (CMD_start, s) (CMD_off, s')"
  shows "\<not> m_threadCMD s' \<and> (\<exists>l lines ends rest. sv_log s' = sv_log s @ l \<and> msgs_of MSG_CMD l = lines @ ends \<and>
     out = payload lines @ rest \<and> list_all line_msg lines \<and> list_all end_msg ends \<and>
     (\<not> m_bIsCMDCancel s' \<longrightarrow> (all_ok lines \<longrightarrow> rest = []) \<and> length ends = (if all_ok lines then 1 else 2)))"
proof -
  have "cmd_inv popen out (sv_log s) (CMD_start, s)"
    using assms(1-3) by (auto simp: cmd_inv_def intro: exI [of _ "[]"])
  then have "cmd_inv popen out (sv_log s) (CMD_off, s')"
    by (rule cmd_inv_steps [OF assms(5,4)])
  then obtain l where l: "\<not> m_threadCMD s'" "sv_log s' = sv_log s @ l"
      "cmd_done out (m_bIsCMDCancel s') 1 (msgs_of MSG_CMD l)"
    by (auto simp: cmd_inv_def)
  obtain lines ends rest where "msgs_of MSG_CMD l = lines @ ends" "out = payload lines @ rest" "list_all line_msg lines"
      "list_all end_msg ends"
      "\<not> m_bIsCMDCancel s' \<longrightarrow> (all_ok lines \<longrightarrow> rest = []) \<and> length ends = (if all_ok lines then 1 else Suc 1)"
    using l(3) unfolding cmd_done_def by blast
  then show ?thesis using l(1,2)
    by (intro conjI exI [of _ l] exI [of _ lines] exI [of _ ends] exI [of _ rest]) (simp_all split: if_splits)
qed

text \<open>Left alone, the thread ends.\<close>

fun cmd_run ::
  "(bytes \<Rightarrow> bytes option) \<Rightarrow> link \<Rightarrow> nat \<Rightarrow> cmd_pc \<times> CCommonServer \<Rightarrow> (cmd_pc \<times> CCommonServer) option" where
  "cmd_run popen link 0 x = Some x"
| "cmd_run popen link (Suc n) (pc, s) =
     (case CMD_DoWork popen link pc s of
        None \<Rightarrow> None
      | Some x \<Rightarrow> cmd_run popen link n x)"

lemma cmd_run_steps: "cmd_run popen link n x = Some y \<Longrightarrow> (cmd_step popen link)\<^sup>*\<^sup>* x y"
proof (induction popen link n x rule: cmd_run.induct)
  case (2 popen link n pc s)
  then show ?case
    by (cases "CMD_DoWork popen link pc s") (auto intro: converse_rtranclp_into_rtranclp cmd_step.thread)
qed simp

lemma cmd_end_run: "\<exists>s'. cmd_run popen link (Suc 0) (CMD_end, s) = Some (CMD_off, s')"
  by (simp add: SendData_type_logged)

lemma cmd_loop_ends:
  "0 \<notin> set out \<Longrightarrow> \<exists>n s'. cmd_run popen link n (CMD_loop out, s) = Some (CMD_off, s')"
proof (induction "length out" arbitrary: out s rule: less_induct)
  case less
  obtain line rest where f: "fgets (NR_MAXPACKLEN - 1) out = (line, rest)" by (cases "fgets (NR_MAXPACKLEN - 1) out")
  note st = CMD_line [OF f less.prems, of popen link] and pr = fgets_piece [OF f]
  have stops: "\<exists>n s'. cmd_run popen link n (CMD_loop out, s) = Some (CMD_off, s')"
    if e: "CMD_DoWork popen link (CMD_loop out) s = Some (CMD_end, s1)" for s1
  proof -
    obtain s' where "cmd_run popen link (Suc 0) (CMD_end, s1) = Some (CMD_off, s')"
      using cmd_end_run [of popen link s1] by blast
    then have "cmd_run popen link (Suc (Suc 0)) (CMD_loop out, s) = Some (CMD_off, s')"
      by (simp only: cmd_run.simps(2) [of popen link "Suc 0"] e option.case)
    then show ?thesis by blast
  qed
  show ?case
  proof (cases "out = [] \<or> m_bIsCMDCancel s \<or> \<not> link (sv_log s) MSG_CMD line")
    case True
    then show ?thesis using st [of s] stops by (auto split: if_splits)
  next
    case False
    then have e: "CMD_DoWork popen link (CMD_loop out) s = Some (CMD_loop rest, logged link MSG_CMD line s)"
      using st [of s] by simp
    have "line \<noteq> []" using pr(4) False by blast
    then have "length rest < length out" by (simp add: arg_cong [OF pr(1), of length])
    moreover have "0 \<notin> set rest" using less.prems arg_cong [OF pr(1), of set] by simp
    ultimately obtain n s' where "cmd_run popen link n (CMD_loop rest, logged link MSG_CMD line s) = Some (CMD_off, s')"
      using less.hyps by blast
    then have "cmd_run popen link (Suc n) (CMD_loop out, s) = Some (CMD_off, s')"
      by (simp only: cmd_run.simps(2) e option.case)
    then show ?thesis by blast
  qed
qed

theorem command_output_delivered_witness:
  "\<exists>n s' lines ends. cmd_run (\<lambda>_. Some [97, 10, 98]) (\<lambda>_ _ _. True) n
      (CMD_start, (CCommonServer_new None 0 no_memory)\<lparr>m_CMD := Some [108, 115, 0]\<rparr>) = Some (CMD_off, s') \<and>
     msgs_of MSG_CMD (sv_log s') = lines @ ends \<and> payload lines = [97, 10, 98] \<and> length ends = 1"
proof -
  let ?s = "(CCommonServer_new None 0 no_memory)\<lparr>m_CMD := Some [108, 115, 0]\<rparr>"
  let ?p = "\<lambda>_ :: bytes. Some [97, 10, 98 :: byte]" and ?k = "\<lambda>_ _ _. True"
  have c: "m_CMD ?s = Some [108, 115, 0]" "c_string [108, 115, 0] = Some [108, 115]"
    by (simp_all add: c_string_def cstr_def)
  define s1 where "s1 = ?s\<lparr>m_bIsCMDCancel := False\<rparr>"
  have f: "fgets (NR_MAXPACKLEN - 1) [97, 10, 98] = ([97, 10], [98])"
    "fgets (NR_MAXPACKLEN - 1) [98] = ([98], [])" "fgets (NR_MAXPACKLEN - 1) [] = ([], [])"
    by (simp_all add: NR_MAXPACKLEN_def fgets_pos)
  define s' where "s' = (logged ?k MSG_CMD [] (logged ?k MSG_CMD [98] (logged ?k MSG_CMD [97, 10] s1)))\<lparr>m_threadCMD := False\<rparr>"
  have n: "5 = Suc (Suc (Suc (Suc (Suc 0))))" by simp
  have nc: "\<not> m_bIsCMDCancel s1" "m_CMD s1 = Some [108, 115, 0]" by (simp_all add: s1_def)
  have run: "cmd_run ?p ?k 5 (CMD_start, ?s) = Some (CMD_off, s')"
    by (simp add: n c CMD_line [OF f(1)] CMD_line [OF f(2)] CMD_line [OF f(3)] SendData_type_logged s'_def
        s1_def [symmetric] nc del: CMD_DoWork.simps(2))
  obtain l lines ends rest where "sv_log s' = sv_log ?s @ l" "msgs_of MSG_CMD l = lines @ ends"
     "[97, 10, 98] = payload lines @ rest"
     "\<not> m_bIsCMDCancel s' \<longrightarrow> (all_ok lines \<longrightarrow> rest = []) \<and> length ends = (if all_ok lines then 1 else 2)"
    using command_output_delivered [OF c, of ?p "[97, 10, 98]" ?k s'] cmd_run_steps [OF run] by auto
  moreover have "sv_log ?s = []" "\<not> m_bIsCMDCancel s'"
    by (simp_all add: CCommonServer_new_def s'_def nc)
  moreover have "all_ok (msgs_of MSG_CMD (sv_log s'))"
    by (simp add: s'_def s1_def CCommonServer_new_def all_ok_def)
  ultimately have "msgs_of MSG_CMD (sv_log s') = lines @ ends" "payload lines = [97, 10, 98]" "length ends = 1"
    by (auto simp: all_ok_def)
  then show ?thesis using run by blast
qed

text \<open>A command that cannot be started is answered with nothing at all.\<close>

lemma popen_failed:
  assumes "m_CMD s = Some b" "c_string b = Some cmd" "popen cmd = None"
  shows "CMD_DoWork popen link CMD_start s = Some (CMD_off, s\<lparr>m_bIsCMDCancel := False, m_threadCMD := False\<rparr>)"
  using assms by simp

subsection \<open>The block of memory that is sent again and again\<close>

text \<open>The first block, with its address and its length in decimal notation before it.\<close>

definition mem_block :: "MEMINFO \<Rightarrow> bytes" where
  "mem_block info =
     (let len = min (unat (ulLength info)) 2040 in
      str (dec (sint (ulStartAddr info)) @ dec (int len)) @ replicate len 0)"

text \<open>The length of the first block.\<close>

definition block_length :: "MEMINFO \<Rightarrow> nat" where
  "block_length info = min (unat (ulLength info)) 2040"

lemma block_length_props:
  assumes "ulLength info \<noteq> 0"
  shows "(if ulLength info < 2040 then ulLength info else 2040) = (of_nat (block_length info) :: u32)"
    "unat (of_nat (block_length info) :: u32) = block_length info"
    "sint (of_nat (block_length info) :: u32) = int (block_length info)" "0 < block_length info"
    "0 < ulLength info"
proof -
  have l: "block_length info \<le> 2040" by (simp add: block_length_def)
  show "(if ulLength info < 2040 then ulLength info else 2040) = (of_nat (block_length info) :: u32)"
    by (auto simp: block_length_def word_less_nat_alt min_def)
  show u: "unat (of_nat (block_length info) :: u32) = block_length info" using l by (simp add: unat_of_nat)
  show "sint (of_nat (block_length info) :: u32) = int (block_length info)"
    using l by (simp add: sint_uint uint_nat u signed_take_bit_int_eq_self)
  show p: "0 < ulLength info" using assms by (simp add: word_greater_zero_iff)
  show "0 < block_length info" using assms by (simp add: block_length_def unat_gt_0)
qed

text \<open>The address and the length before the block.\<close>

definition block_head :: "MEMINFO \<Rightarrow> bytes" where
  "block_head info = str (dec (sint (ulStartAddr info)) @ dec (int (block_length info)))"

lemma mem_block_eq: "mem_block info = block_head info @ replicate (block_length info) 0"
  by (simp add: mem_block_def block_head_def block_length_def Let_def)

lemma block_head_short: "length (block_head info) < NR_MAXPACKLEN"
proof -
  have "-(2 ^ 31) \<le> sint (ulStartAddr info)" "sint (ulStartAddr info) < 2 ^ 31"
    using sint_range_size [of "ulStartAddr info"] by (simp_all add: word_size)
  then have "length (dec (sint (ulStartAddr info))) \<le> 11" by (rule str_dec_props(2))
  moreover have "length (dec (int (block_length info))) \<le> 11"
    by (rule str_dec_props(2)) (simp_all add: block_length_def)
  ultimately show ?thesis by (simp add: block_head_def NR_MAXPACKLEN_def)
qed

lemma mem_pass_eq:
  assumes "ulLength (m_memInfoRead s) \<noteq> 0" "\<not> m_bIsReadMemoryCancel s"
  defines "info \<equiv> m_memInfoRead s"
  shows "ReadMemory_DoWork True link (MEM_loop 0) s = do {
      strTemp \<leftarrow> memcpy (pad NR_MAXPACKLEN (block_head info)) (length (block_head info))
        (replicate (block_length info) 0) 0 (block_length info);
      (ok, s) \<leftarrow> SendData link MSG_READMEMORY strTemp (length (block_head info) + block_length info) s;
      if ok then Some (MEM_loop 0, s)
      else do {
        (_, s) \<leftarrow> SendData_type link MSG_READMEMORY s;
        Some (MEM_end, s)
      }
    }"
proof -
  note p = block_length_props [OF assms(1), folded info_def]
  have c1: "memcpy (replicate NR_MAXPACKLEN 0) 0 (block_head info @ [0]) 0 (Suc (length (block_head info))) =
      Some (pad NR_MAXPACKLEN (block_head info))"
    using memcpy_pad [OF block_head_short [of info]] by (simp add: pad_Nil)
  have k: "of_nat (NR_MAXPACKLEN - SIZEOF_MEMINFO) = (2040 :: u32)" by (simp add: NR_MAXPACKLEN_def SIZEOF_MEMINFO_def)
  show ?thesis
    unfolding info_def [symmetric] ReadMemory_DoWork.simps Let_def k diff_zero add_0_right p(1-3)
      block_head_def [symmetric]
    using assms(2) p(5) c1 by simp
qed

lemma mem_pass:
  assumes "ulLength (m_memInfoRead s) \<noteq> 0" "\<not> m_bIsReadMemoryCancel s"
    "length (mem_block (m_memInfoRead s)) \<le> NR_MAXPACKLEN"
  shows "ReadMemory_DoWork True link (MEM_loop 0) s =
    (if link (sv_log s) MSG_READMEMORY (mem_block (m_memInfoRead s))
     then Some (MEM_loop 0, logged link MSG_READMEMORY (mem_block (m_memInfoRead s)) s)
     else Some (MEM_end, logged link MSG_READMEMORY []
       (logged link MSG_READMEMORY (mem_block (m_memInfoRead s)) s)))"
proof -
  define info where "info = m_memInfoRead s"
  have fits: "length (block_head info) + block_length info \<le> NR_MAXPACKLEN"
    using assms(3) by (simp add: info_def mem_block_eq)
  have c2: "memcpy (pad NR_MAXPACKLEN (block_head info)) (length (block_head info)) (replicate (block_length info) 0) 0
      (block_length info) = Some (pad NR_MAXPACKLEN (mem_block info))"
    using fits by (simp add: memcpy_def pad_append mem_block_eq)
  have "SendData link MSG_READMEMORY (pad NR_MAXPACKLEN (mem_block info)) (length (block_head info) + block_length info) s =
      Some (link (sv_log s) MSG_READMEMORY (mem_block info), logged link MSG_READMEMORY (mem_block info) s)"
    using SendData_pad [of "mem_block info" NR_MAXPACKLEN link MSG_READMEMORY s] fits by (simp add: mem_block_eq)
  then show ?thesis
    unfolding mem_pass_eq [OF assms(1,2)] info_def [symmetric] using c2 by (simp add: SendData_type_logged)
qed

text \<open>A block that does not fit with its head is copied past the end of the buffer.\<close>

lemma memory_block_overruns:
  assumes "ulLength (m_memInfoRead s) \<noteq> 0" "\<not> m_bIsReadMemoryCancel s"
    "NR_MAXPACKLEN < length (mem_block (m_memInfoRead s))"
  shows "ReadMemory_DoWork True link (MEM_loop 0) s = None"
proof -
  have "memcpy (pad NR_MAXPACKLEN (block_head i)) (length (block_head i)) (replicate (block_length i) (0 :: byte)) 0
      (block_length i) = None" if "i = m_memInfoRead s" for i
    using assms(3) block_head_short [of i] that by (simp add: memcpy_def mem_block_eq)
  then show ?thesis unfolding mem_pass_eq [OF assms(1,2)] by simp
qed

lemma full_block_overruns: "NR_MAXPACKLEN < length (mem_block \<lparr>ulStartAddr = 0x100000, ulLength = 4096\<rparr>)"
  by (simp add: mem_block_def dec_def digits.simps NR_MAXPACKLEN_def Let_def)

inductive mem_step :: "bool \<Rightarrow> link \<Rightarrow> mem_pc \<times> CCommonServer \<Rightarrow> mem_pc \<times> CCommonServer \<Rightarrow> bool"
  for wild link where
  thread: "ReadMemory_DoWork wild link pc s = Some (pc', s') \<Longrightarrow> mem_step wild link (pc, s) (pc', s')"
| cancel: "mem_step wild link (pc, s) (pc, On_READMEMORY_CANCEL s)"
| other: "fst m \<noteq> MSG_READMEMORY \<Longrightarrow> mem_step wild link (pc, s) (pc, s\<lparr>sv_log := sv_log s @ [m]\<rparr>)"

definition block_msg :: "MEMINFO \<Rightarrow> message \<Rightarrow> bool" where
  "block_msg info m \<longleftrightarrow> fst (snd m) = mem_block info"

definition mem_done :: "MEMINFO \<Rightarrow> bool \<Rightarrow> message list \<Rightarrow> bool" where
  "mem_done info cancelled ms \<longleftrightarrow> (\<exists>ds ends. ms = ds @ ends \<and> list_all (block_msg info) ds \<and>
     list_all end_msg ends \<and> length ends = (if all_ok ds then 0 else 1) \<and> (cancelled \<or> \<not> all_ok ds))"

fun mem_ok :: "MEMINFO \<Rightarrow> mem_pc \<Rightarrow> bool \<Rightarrow> message list \<Rightarrow> bool" where
  "mem_ok info MEM_start c ms \<longleftrightarrow> ms = []"
| "mem_ok info (MEM_loop i) c ms \<longleftrightarrow> i = 0 \<and> all_ok ms \<and> list_all (block_msg info) ms"
| "mem_ok info _ c ms \<longleftrightarrow> mem_done info c ms"

definition mem_inv :: "MEMINFO \<Rightarrow> message list \<Rightarrow> mem_pc \<times> CCommonServer \<Rightarrow> bool" where
  "mem_inv info l0 = (\<lambda>(pc, s). m_memInfoRead s = info \<and> (pc = MEM_off \<longrightarrow> \<not> m_threadReadMemory s) \<and>
     (\<exists>l. sv_log s = l0 @ l \<and> mem_ok info pc (m_bIsReadMemoryCancel s) (msgs_of MSG_READMEMORY l)))"

lemma mem_done_cancelled: "mem_done info c ms \<Longrightarrow> mem_done info True ms"
  unfolding mem_done_def by blast

lemma mem_ok_cancelled: "mem_ok info pc c ms \<Longrightarrow> mem_ok info pc True ms"
  by (cases pc) (auto intro: mem_done_cancelled)

lemma logged_mem [simp]:
  "m_memInfoRead (logged link t d s) = m_memInfoRead s"
  "m_bIsReadMemoryCancel (logged link t d s) = m_bIsReadMemoryCancel s"
  by (simp_all add: logged_def)

lemma mem_inv_thread:
  assumes "mem_inv info l0 (pc, s)" "ReadMemory_DoWork True link pc s = Some (pc', s')"
    "ulLength info \<noteq> 0" "length (mem_block info) \<le> NR_MAXPACKLEN"
  shows "mem_inv info l0 (pc', s')"
proof -
  obtain l where i: "m_memInfoRead s = info" "sv_log s = l0 @ l"
      "mem_ok info pc (m_bIsReadMemoryCancel s) (msgs_of MSG_READMEMORY l)"
    using assms(1) by (auto simp: mem_inv_def)
  show ?thesis
  proof (cases pc)
    case (MEM_loop j)
    let ?ms = "msgs_of MSG_READMEMORY l"
    have o: "j = 0" "all_ok ?ms" "list_all (block_msg info) ?ms" using i(3) by (simp_all add: MEM_loop)
    show ?thesis
    proof (cases "m_bIsReadMemoryCancel s")
      case True
      then have s': "pc' = MEM_end" "s' = s" using assms(2) by (simp_all add: MEM_loop Let_def)
      have "mem_done info True ?ms"
        unfolding mem_done_def using o by (intro exI [of _ ?ms] exI [of _ "[]"]) simp
      then show ?thesis using s' i True by (auto simp: mem_inv_def)
    next
      case False
      note e = assms(2) [unfolded MEM_loop o(1) mem_pass [OF assms(3) [folded i(1)] False assms(4) [folded i(1)]]]
      show ?thesis
      proof (cases "link (sv_log s) MSG_READMEMORY (mem_block info)")
        case True
        then have "pc' = MEM_loop 0" "s' = logged link MSG_READMEMORY (mem_block info) s" using e i(1) by simp_all
        then show ?thesis using i o True by (simp add: mem_inv_def block_msg_def)
      next
        case nok: False
        then have s': "pc' = MEM_end"
            "s' = logged link MSG_READMEMORY [] (logged link MSG_READMEMORY (mem_block info) s)"
          using e i(1) by simp_all
        let ?ds = "?ms @ [(MSG_READMEMORY, mem_block info, False)]"
        have "list_all (block_msg info) ?ds" "\<not> all_ok ?ds" using o by (simp_all add: block_msg_def)
        then have "mem_done info c (?ds @ [(MSG_READMEMORY, [], k)])" for c k
          unfolding mem_done_def
          by (intro exI [of _ ?ds] exI [of _ "[(MSG_READMEMORY, [], k)]"]) (simp add: end_msg_def)
        then show ?thesis using s' i nok by (simp add: mem_inv_def)
      qed
    qed
  qed (use assms i in \<open>auto simp: mem_inv_def\<close>)
qed

lemma mem_inv_steps:
  assumes "(mem_step True link)\<^sup>*\<^sup>* x y" "ulLength info \<noteq> 0" "length (mem_block info) \<le> NR_MAXPACKLEN"
    "mem_inv info l0 x"
  shows "mem_inv info l0 y"
  using assms(1,4)
proof (induction rule: rtranclp_induct)
  case (step y z)
  from step(2) show ?case
  proof (cases rule: mem_step.cases)
    case thread
    then show ?thesis using mem_inv_thread [OF _ _ assms(2,3)] step by simp
  next
    case cancel
    then show ?thesis using step mem_ok_cancelled by (auto simp: mem_inv_def On_READMEMORY_CANCEL_def)
  next
    case (other m)
    then show ?thesis using step by (auto simp: mem_inv_def)
  qed
qed


text \<open>With the pointer not usable the first pass faults.\<close>

lemma memory_read_faults:
  assumes "ulLength (m_memInfoRead s) \<noteq> 0" "\<not> m_bIsReadMemoryCancel s"
  shows "ReadMemory_DoWork False link (MEM_loop 0) s = None"
proof -
  have "0 < ulLength (m_memInfoRead s)" using assms(1) by (simp add: word_greater_zero_iff)
  then show ?thesis using assms(2) by (simp add: Let_def)
qed


end
