(* ===== verification/MemoryScript.thy ===== *)
theory MemoryScript
  imports Server
begin

text \<open>
  Memory scripts: \<^verbatim>\<open>MagnifyArray\<close>, \<^verbatim>\<open>ScriptToLine\<close>, \<^verbatim>\<open>GetMemoryScriptCMD\<close>,
  \<^verbatim>\<open>MemoryScript_DoWork\<close> and the cases \<^verbatim>\<open>MSG_MEMORYSCRIPT_START\<close>, \<^verbatim>\<open>MSG_MEMORYSCRIPT\<close> and
  \<^verbatim>\<open>MSG_MEMORYSCRIPT_CANCEL\<close> of \<^verbatim>\<open>CCommonServer::OnReceived\<close> (\<^verbatim>\<open>common/CommonServer.cpp\<close>). An entry
  of an array of pointers that was never written is \<open>None\<close>.
\<close>

subsection \<open>From the script to its lines\<close>

definition MagnifyArray :: "'a option list \<Rightarrow> nat \<Rightarrow> 'a option list option" where
  "MagnifyArray pSourceArray len = memcpy (replicate (len * 2) None) 0 pSourceArray 0 len"

text \<open>The test of two characters of the source, which reads the second only after the first fits.\<close>

definition two_chars :: "bytes \<Rightarrow> nat \<Rightarrow> byte \<Rightarrow> byte \<Rightarrow> bool option" where
  "two_chars p i c d = do {
     x \<leftarrow> load p i;
     if x = c then do { y \<leftarrow> load p (i + 1); Some (y = d) } else Some False
   }"

text \<open>The search for the end of a comment up to the end of its line: \<open>k\<close> characters are left.\<close>

fun find_newline :: "nat \<Rightarrow> bytes \<Rightarrow> nat \<Rightarrow> nat option option" where
  "find_newline 0 p i = Some None"
| "find_newline (Suc k) p i = do {
     c \<leftarrow> load p i;
     if c = 10 then Some (Some i) else find_newline k p (i + 1)
   }"

record stl =
  iStarFlag :: int
  iBit :: nat
  iLineStartBit :: nat
  bIsNewLine :: bool
  pLine :: "bytes option list"
  iLineLength :: nat
  piLineCount :: nat

definition add_line :: "bytes \<Rightarrow> stl \<Rightarrow> stl option" where
  "add_line p st = do {
     let n = iBit st - iLineStartBit st;
     pTempLine \<leftarrow> memcpy (replicate (n + 1) 0) 0 p (iLineStartBit st) n;
     st \<leftarrow>
       (if iLineLength st \<le> piLineCount st then do {
          a \<leftarrow> MagnifyArray (pLine st) (iLineLength st);
          Some (st\<lparr>pLine := a, iLineLength := iLineLength st * 2\<rparr>)
        }
        else Some st);
     a \<leftarrow> store (pLine st) (piLineCount st) (Some pTempLine);
     Some (st\<lparr>pLine := a, piLineCount := piLineCount st + 1, bIsNewLine := True\<rparr>)
   }"

text \<open>One pass of the loop below its two tests; the inner \<open>None\<close> is \<^verbatim>\<open>return NULL\<close>.\<close>

definition stl_pass :: "bytes \<Rightarrow> nat \<Rightarrow> stl \<Rightarrow> stl option option" where
  "stl_pass p n st = do {
     c \<leftarrow> load p (iBit st);
     if c = 0 then Some None
     else if c = 13 \<or> c = 10 then Some (Some (st\<lparr>iBit := iBit st + 1\<rparr>))
     else do {
       st \<leftarrow>
         (if iStarFlag st \<noteq> 0 then do {
            opens \<leftarrow> two_chars p (iBit st) 47 42;
            closes \<leftarrow> (if opens then Some False else two_chars p (iBit st) 42 47);
            Some ((if opens then st\<lparr>iStarFlag := iStarFlag st + 1, iBit := iBit st + 1\<rparr>
                   else if closes then st\<lparr>iStarFlag := iStarFlag st - 1, iBit := iBit st + 1\<rparr>
                   else st)\<lparr>bIsNewLine := True\<rparr>)
          }
          else do {
            opens \<leftarrow> two_chars p (iBit st) 47 42;
            slashes \<leftarrow> (if opens then Some False else two_chars p (iBit st) 47 47);
            if opens then
              Some (st\<lparr>bIsNewLine := True, iStarFlag := iStarFlag st + 1, iBit := iBit st + 1\<rparr>)
            else if slashes then do {
              r \<leftarrow> find_newline (n - (iBit st + 2)) p (iBit st + 2);
              Some (st\<lparr>bIsNewLine := True, iBit := (case r of None \<Rightarrow> iBit st | Some i \<Rightarrow> i)\<rparr>)
            }
            else do {
              let st = (if bIsNewLine st
                        then st\<lparr>iLineStartBit := iBit st, bIsNewLine := False\<rparr> else st);
              if c = 59 \<and> iBit st - iLineStartBit st > 0 then add_line p st else Some st
            }
          });
       Some (Some (st\<lparr>iBit := iBit st + 1\<rparr>))
     }
   }"

lemma find_newline_ge: "find_newline k p i = Some (Some j) \<Longrightarrow> i \<le> j"
  by (induction k p i rule: find_newline.induct) (auto split: bind_splits if_splits)

lemma add_line_iBit: "add_line p st = Some st' \<Longrightarrow> iBit st' = iBit st"
  by (auto simp: add_line_def Let_def split: bind_splits if_splits)

lemma stl_pass_iBit: "stl_pass p n st = Some (Some st') \<Longrightarrow> iBit st < iBit st'"
  by (auto simp: stl_pass_def Let_def split: bind_splits if_splits option.splits
      dest!: find_newline_ge add_line_iBit)

text \<open>
  The loop. \<open>cancel i\<close> is what \<^verbatim>\<open>m_bIsMemoryScriptCancel\<close> is at the pass for the bit \<open>i\<close>. The
  result is the array, or \<open>None\<close> for \<^verbatim>\<open>NULL\<close>, with the count.
\<close>

function stl_loop :: "(nat \<Rightarrow> bool) \<Rightarrow> bytes \<Rightarrow> nat \<Rightarrow> stl \<Rightarrow> (bytes option list option \<times> nat) option" where
  "stl_loop cancel p n st =
     (if iBit st < n \<and> \<not> cancel (iBit st) then
        (case stl_pass p n st of
           None \<Rightarrow> None
         | Some None \<Rightarrow> Some (None, piLineCount st)
         | Some (Some st') \<Rightarrow> stl_loop cancel p n st')
      else Some (Some (pLine st), piLineCount st))"
  by pat_completeness auto
termination
  by (relation "measure (\<lambda>(_, _, n, st). n - iBit st)") (auto dest: stl_pass_iBit)

declare stl_loop.simps [simp del]

definition stl_init :: stl where
  "stl_init = \<lparr>iStarFlag = 0, iBit = 0, iLineStartBit = 0, bIsNewLine = True,
     pLine = replicate 200 None, iLineLength = 200, piLineCount = 0\<rparr>"

text \<open>
  A length of 2 GB and more is negative as an \<^verbatim>\<open>int\<close>. \<open>junk\<close> is what \<^verbatim>\<open>*piLineCount\<close> holds
  before the call; it stays there when there is no script.
\<close>

definition ScriptToLine ::
  "(nat \<Rightarrow> bool) \<Rightarrow> nat \<Rightarrow> CCommonServer \<Rightarrow> (bytes option list option \<times> nat) option" where
  "ScriptToLine cancel junk s =
     (case m_MemoryScript s of
        None \<Rightarrow> Some (None, junk)
      | Some pMemoryScript \<Rightarrow> stl_loop cancel pMemoryScript (nat (sint (m_MemoryScriptLength s))) stl_init)"

subsection \<open>From a line to its words\<close>

text \<open>
  \<open>js\<close> are the positions that are left, \<open>len\<close> is the length of the line; a word is copied into a
  block of its own. The result is the array of three pointers and the count.
\<close>

fun cmd_loop :: "bytes \<Rightarrow> nat \<Rightarrow> nat list \<Rightarrow> int \<Rightarrow> bytes option list \<Rightarrow> nat \<Rightarrow> (bytes option list \<times> nat) option" where
  "cmd_loop line len [] iStartBit words count = Some (words, count)"
| "cmd_loop line len (i # js) iStartBit words count = do {
     c \<leftarrow> load line i;
     if c \<noteq> 32 \<and> iStartBit = -1 then
       (if i = len - 1 then do {
          pTemp \<leftarrow> memcpy (replicate 2 0) 0 line i 1;
          words \<leftarrow> store words count (Some pTemp);
          cmd_loop line len js (-1) words (count + 1)
        }
        else cmd_loop line len js (int i) words count)
     else if (c = 32 \<or> i = len - 1 \<or> count = 2) \<and> iStartBit \<noteq> -1 then do {
       let start = nat iStartBit;
       let iLen = (if i = len - 1 \<or> count = 2 then len - start else i - start);
       pTemp \<leftarrow> memcpy (replicate (iLen + 1) 0) 0 line start iLen;
       words \<leftarrow> store words count (Some pTemp);
       if 3 \<le> count + 1 then Some (words, count + 1)
       else cmd_loop line len js (-1) words (count + 1)
     }
     else cmd_loop line len js iStartBit words count
   }"

definition GetMemoryScriptCMD :: "bytes \<Rightarrow> (bytes option list \<times> nat) option" where
  "GetMemoryScriptCMD pOneLine = do {
     t \<leftarrow> c_string pOneLine;
     cmd_loop pOneLine (length t) [0..<length t] (-1) (replicate 3 None) 0
   }"

subsection \<open>The thread\<close>

text \<open>
  One line: \<open>Some (Inl ok)\<close> goes on with the next line, \<open>Inr\<close> leaves the loop. An array entry
  that was never written cannot be tested or read. The copy of the words in an \<open>E\<close> or \<open>W\<close> line
  is made and dropped; the calls of \<^verbatim>\<open>WriteMemory\<close> and \<^verbatim>\<open>sleep\<close> are comments in the source.
  \<open>room\<close> tells whether \<^verbatim>\<open>malloc\<close> can give a number of bytes.
\<close>

definition script_line :: "(nat \<Rightarrow> bool) \<Rightarrow> bytes \<Rightarrow> bool \<Rightarrow> bool option" where
  "script_line room line ok = do {
     (words, count) \<leftarrow> GetMemoryScriptCMD line;
     if count = 2 \<or> count = 3 then do {
       w0 \<leftarrow> words ! 0;
       c \<leftarrow> load w0 0;
       w1 \<leftarrow> words ! 1;
       if c = 69 \<or> c = 101 then do {
         w2 \<leftarrow> words ! 2;
         _ \<leftarrow> atoi w1;
         n \<leftarrow> atoi w2;
         if room (unat (word_of_int n :: u32)) then Some True else None
       }
       else if c = 87 \<or> c = 119 then do {
         w2 \<leftarrow> words ! 2;
         _ \<leftarrow> atoi w1;
         t \<leftarrow> c_string w2;
         if room (length t) then Some True else None
       }
       else if c = 83 \<or> c = 115 then do {
         _ \<leftarrow> atoi w1;
         Some True
       }
       else Some True
     }
     else Some ok
   }"

fun script_lines :: "(nat \<Rightarrow> bool) \<Rightarrow> (nat \<Rightarrow> bool) \<Rightarrow> bytes option list \<Rightarrow> nat list \<Rightarrow> bool \<Rightarrow> bool option" where
  "script_lines room cancel lines [] ok = Some ok"
| "script_lines room cancel lines (i # js) ok =
     (if cancel i then Some ok
      else do {
        entry \<leftarrow> load lines i;
        line \<leftarrow> entry;
        ok \<leftarrow> script_line room line ok;
        script_lines room cancel lines js ok
      })"

text \<open>
  The cancel flag is read at every bit of the script (\<open>cancel1\<close>), before every line (\<open>cancel2\<close>)
  and at the end, from the state.
\<close>

definition MemoryScript_DoWork ::
  "(nat \<Rightarrow> bool) \<Rightarrow> link \<Rightarrow> (nat \<Rightarrow> bool) \<Rightarrow> (nat \<Rightarrow> bool) \<Rightarrow> nat \<Rightarrow> CCommonServer \<Rightarrow> CCommonServer option" where
  "MemoryScript_DoWork room link cancel1 cancel2 junk s = do {
     (lines, iLineCount) \<leftarrow> ScriptToLine cancel1 junk s;
     bIsSuccess \<leftarrow>
       (case lines of
          None \<Rightarrow> Some False
        | Some a \<Rightarrow> script_lines room cancel2 a [0..<iLineCount] False);
     let text = (if m_bIsMemoryScriptCancel s then str ''1''
                 else if bIsSuccess then str ''0'' else str ''1'');
     s \<leftarrow> send_text NR_MAXPACKLEN link MSG_MEMORYSCRIPT_FINISH text s;
     Some (s\<lparr>m_bIsMemoryScriptFinish := True, m_threadMemoryScript := False\<rparr>)
   }"

subsection \<open>The handlers\<close>

text \<open>
  \<open>malloc n\<close> is the block \<^verbatim>\<open>malloc\<close> gives, with all the bytes that may be used, or nothing.
  The earlier script is not freed.
\<close>

definition On_MEMORYSCRIPT_START ::
  "(nat \<Rightarrow> bytes option) \<Rightarrow> link \<Rightarrow> bytes \<Rightarrow> CCommonServer \<Rightarrow> CCommonServer option" where
  "On_MEMORYSCRIPT_START malloc link data s = do {
     (success, s) \<leftarrow>
       (if m_bIsMemoryScriptFinish s then do {
          n \<leftarrow> atoi data;
          let s = s\<lparr>m_bIsMemoryScriptCancel := False, m_MemoryScriptLength := word_of_int n\<rparr>;
          block \<leftarrow> malloc (unat (m_MemoryScriptLength s));
          block \<leftarrow> store block 0 0;
          Some (True, s\<lparr>m_MemoryScript := Some block\<rparr>)
        }
        else Some (False, s));
     send_text NR_MAXPACKLEN link MSG_MEMORYSCRIPT_START (str (dec (if success then 0 else 1))) s
   }"

definition On_MEMORYSCRIPT :: "bool \<Rightarrow> bytes \<Rightarrow> nat \<Rightarrow> CCommonServer \<Rightarrow> CCommonServer option" where
  "On_MEMORYSCRIPT created data len s = do {
     let s = s\<lparr>m_bIsMemoryScriptFinish := False\<rparr>;
     if m_bIsMemoryScriptCancel s then Some (s\<lparr>m_bIsMemoryScriptFinish := True\<rparr>)
     else case m_MemoryScript s of
       None \<Rightarrow> Some s
     | Some script \<Rightarrow> do {
         t \<leftarrow> c_string script;
         d \<leftarrow> c_string data;
         script \<leftarrow> c_strcat script d;
         let iLen = length t + len;
         script \<leftarrow> store script iLen 0;
         let s = s\<lparr>m_MemoryScript := Some script\<rparr>;
         Some (if of_nat iLen = m_MemoryScriptLength s then s\<lparr>m_threadMemoryScript := created\<rparr> else s)
       }
   }"

definition On_MEMORYSCRIPT_CANCEL :: "CCommonServer \<Rightarrow> CCommonServer" where
  "On_MEMORYSCRIPT_CANCEL s =
     s\<lparr>m_bIsMemoryScriptCancel := True, m_bIsMemoryScriptFinish := True\<rparr>"

subsection \<open>Scripts as they are written\<close>

text \<open>
  Statements, comments in a block, which may be nested, comments to the end of the line and line
  breaks.
\<close>

datatype item = Stmt bytes | Comment bytes | Remark bytes | Break byte

inductive balanced :: "bytes \<Rightarrow> bool" where
  "balanced []"
| "c \<noteq> 0 \<Longrightarrow> c \<noteq> 42 \<Longrightarrow> c \<noteq> 47 \<Longrightarrow> balanced b \<Longrightarrow> balanced (c # b)"
| "balanced a \<Longrightarrow> balanced b \<Longrightarrow> balanced (47 # 42 # a @ 42 # 47 # b)"

fun render :: "item list \<Rightarrow> bytes" where
  "render [] = []"
| "render (Stmt t # xs) = t @ 59 # render xs"
| "render (Comment b # xs) = 47 # 42 # b @ 42 # 47 # render xs"
| "render (Remark b # xs) = 47 # 47 # b @ 10 # render xs"
| "render (Break c # xs) = c # render xs"

fun statements :: "item list \<Rightarrow> bytes list" where
  "statements [] = []"
| "statements (Stmt t # xs) = t # statements xs"
| "statements (_ # xs) = statements xs"

fun item_ok :: "item \<Rightarrow> bool" where
  "item_ok (Stmt t) \<longleftrightarrow> t \<noteq> [] \<and> hd t \<noteq> 10 \<and> hd t \<noteq> 13 \<and> (\<forall>c \<in> set t. c \<noteq> 0 \<and> c \<noteq> 59 \<and> c \<noteq> 47)"
| "item_ok (Comment b) \<longleftrightarrow> balanced b"
| "item_ok (Remark b) \<longleftrightarrow> 10 \<notin> set b"
| "item_ok (Break c) \<longleftrightarrow> c = 10 \<or> c = 13"

abbreviation run :: "bytes \<Rightarrow> nat \<Rightarrow> stl \<Rightarrow> (bytes option list option \<times> nat) option" where
  "run \<equiv> stl_loop (\<lambda>_. False)"

lemma run_pass: "iBit st < n \<Longrightarrow> stl_pass p n st = Some (Some st') \<Longrightarrow> run p n st = run p n st'"
  by (subst stl_loop.simps) simp

lemma load_drop: "drop i p = c # r \<Longrightarrow> load p i = Some c"
  by (metis drop_eq_Nil leI list.distinct(1) load_Some nth_via_drop)

lemma drop_next: "drop i p = a @ r \<Longrightarrow> drop (i + length a) p = r"
  by (metis add.commute append_eq_conv_conj drop_drop)

lemma drop_Suc_next: "drop i p = c # r \<Longrightarrow> drop (Suc i) p = r"
  using drop_next [of i p "[c]" r] by simp

lemma two_chars_first: "drop i p = x # r \<Longrightarrow> x \<noteq> c \<Longrightarrow> two_chars p i c d = Some False"
  by (simp add: two_chars_def load_drop)

lemma two_chars_both: "drop i p = c # y # r \<Longrightarrow> two_chars p i c d = Some (y = d)"
  by (simp add: two_chars_def load_drop drop_Suc_next)

lemma newline_same: "bIsNewLine st \<Longrightarrow> st\<lparr>bIsNewLine := True\<rparr> = st"
  by (cases st) simp

lemma comment_char:
  assumes "drop (iBit st) p = c # r" "iBit st < n" "iStarFlag st \<noteq> 0" "bIsNewLine st"
    and "c \<noteq> 0" "c \<noteq> 42" "c \<noteq> 47"
  shows "run p n st = run p n (st\<lparr>iBit := iBit st + 1\<rparr>)"
  using assms
  by (intro run_pass) (auto simp: stl_pass_def load_drop two_chars_first newline_same)

lemma comment_opens:
  assumes "drop (iBit st) p = 47 # 42 # r" "iBit st < n" "iStarFlag st \<noteq> 0" "bIsNewLine st"
  shows "run p n st = run p n (st\<lparr>iStarFlag := iStarFlag st + 1, iBit := iBit st + 2\<rparr>)"
proof -
  have "stl_pass p n st = Some (Some ((st\<lparr>bIsNewLine := True\<rparr>)\<lparr>iStarFlag := iStarFlag st + 1, iBit := iBit st + 2\<rparr>))"
    using assms by (simp add: stl_pass_def load_drop two_chars_both)
  then show ?thesis using assms(2,4) by (simp add: newline_same run_pass)
qed

lemma comment_closes:
  assumes "drop (iBit st) p = 42 # 47 # r" "iBit st < n" "iStarFlag st \<noteq> 0" "bIsNewLine st"
  shows "run p n st = run p n (st\<lparr>iStarFlag := iStarFlag st - 1, iBit := iBit st + 2\<rparr>)"
proof -
  have "stl_pass p n st = Some (Some ((st\<lparr>bIsNewLine := True\<rparr>)\<lparr>iStarFlag := iStarFlag st - 1, iBit := iBit st + 2\<rparr>))"
    using assms by (simp add: stl_pass_def load_drop two_chars_both two_chars_first)
  then show ?thesis using assms(2,4) by (simp add: newline_same run_pass)
qed

lemma comment_body:
  "balanced b \<Longrightarrow> drop (iBit st) p = b @ r \<Longrightarrow> iBit st + length b \<le> n \<Longrightarrow> 0 < iStarFlag st \<Longrightarrow>
     bIsNewLine st \<Longrightarrow> run p n st = run p n (st\<lparr>iBit := iBit st + length b\<rparr>)"
proof (induction arbitrary: st r rule: balanced.induct)
  case (2 c b)
  have "run p n st = run p n (st\<lparr>iBit := iBit st + 1\<rparr>)"
    using 2 by (intro comment_char) auto
  also have "\<dots> = run p n ((st\<lparr>iBit := iBit st + 1\<rparr>)\<lparr>iBit := iBit st + 1 + length b\<rparr>)"
    using 2(5) [of "st\<lparr>iBit := iBit st + 1\<rparr>" r] 2(6-9) by (simp add: drop_Suc_next)
  finally show ?case by simp
next
  case (3 a b)
  let ?s1 = "st\<lparr>iStarFlag := iStarFlag st + 1, iBit := iBit st + 2\<rparr>"
  let ?s2 = "?s1\<lparr>iBit := iBit st + 2 + length a\<rparr>"
  let ?s3 = "st\<lparr>iBit := iBit st + 2 + length a + 2\<rparr>"
  have d1: "drop (iBit st + 2) p = a @ 42 # 47 # b @ r"
    using drop_next [of "iBit st" p "[47, 42]"] 3(5) by simp
  have d2: "drop (iBit st + 2 + length a) p = 42 # 47 # b @ r" using drop_next [OF d1] .
  have d3: "drop (iBit st + 2 + length a + 2) p = b @ r"
    using drop_next [of "iBit st + 2 + length a" p "[42, 47]"] d2 by simp
  have "run p n st = run p n ?s1" using 3 by (intro comment_opens) auto
  also have "\<dots> = run p n ?s2" using 3(3) [of ?s1] d1 3(6-8) by simp
  also have "\<dots> = run p n (?s2\<lparr>iStarFlag := iStarFlag ?s2 - 1, iBit := iBit ?s2 + 2\<rparr>)"
    using d2 3(6-8) by (intro comment_closes) auto
  also have "?s2\<lparr>iStarFlag := iStarFlag ?s2 - 1, iBit := iBit ?s2 + 2\<rparr> = ?s3" by simp
  also have "run p n ?s3 = run p n (?s3\<lparr>iBit := iBit st + 2 + length a + 2 + length b\<rparr>)"
    using 3(4) [of ?s3] d3 3(6-8) by simp
  finally show ?case by (simp add: add.commute add.left_commute)
qed simp

lemma find_newline_eq:
  "drop i p = b @ 10 # r \<Longrightarrow> 10 \<notin> set b \<Longrightarrow> length b < k \<Longrightarrow> find_newline k p i = Some (Some (i + length b))"
proof (induction b arbitrary: i k)
  case Nil
  then show ?case by (cases k) (auto simp: load_drop)
next
  case (Cons c b)
  then show ?case by (cases k) (auto simp: load_drop drop_Suc_next)
qed

text \<open>The state between two items, after the lines \<open>ls\<close>.\<close>

definition between :: "bytes list \<Rightarrow> stl \<Rightarrow> bool" where
  "between ls st \<longleftrightarrow> iStarFlag st = 0 \<and> bIsNewLine st \<and> piLineCount st = length ls \<and>
     iLineLength st = length (pLine st) \<and> 0 < iLineLength st \<and> length ls \<le> iLineLength st \<and>
     take (length ls) (pLine st) = map Some ls"

lemma item_comment:
  assumes "between ls st" "balanced b" "drop (iBit st) p = 47 # 42 # b @ 42 # 47 # r"
    and "iBit st + length b + 4 \<le> n"
  shows "run p n st = run p n (st\<lparr>iBit := iBit st + length b + 4\<rparr>)"
proof -
  let ?s1 = "st\<lparr>iStarFlag := 1, iBit := iBit st + 2\<rparr>"
  let ?s2 = "?s1\<lparr>iBit := iBit st + 2 + length b\<rparr>"
  have st: "iStarFlag st = 0" "bIsNewLine st" using assms(1) by (simp_all add: between_def)
  have d1: "drop (iBit st + 2) p = b @ 42 # 47 # r"
    using drop_next [of "iBit st" p "[47, 42]"] assms(3) by simp
  have d2: "drop (iBit st + 2 + length b) p = 42 # 47 # r" using drop_next [OF d1] .
  have "stl_pass p n st = Some (Some ((st\<lparr>bIsNewLine := True\<rparr>)\<lparr>iStarFlag := 1, iBit := iBit st + 2\<rparr>))"
    using assms(3) st by (simp add: stl_pass_def load_drop two_chars_both)
  then have "run p n st = run p n ?s1" using assms(4) st by (simp add: run_pass newline_same)
  also have "\<dots> = run p n ?s2" using comment_body [OF assms(2), of ?s1 p] d1 assms(4) st by simp
  also have "\<dots> = run p n (?s2\<lparr>iStarFlag := iStarFlag ?s2 - 1, iBit := iBit ?s2 + 2\<rparr>)"
    using d2 assms(4) st by (intro comment_closes) auto
  also have "?s2\<lparr>iStarFlag := iStarFlag ?s2 - 1, iBit := iBit ?s2 + 2\<rparr> =
      (st\<lparr>iBit := iBit st + length b + 4\<rparr>)\<lparr>iStarFlag := 0\<rparr>" by simp
  also have "\<dots> = st\<lparr>iBit := iBit st + length b + 4\<rparr>" using st(1) by (cases st) simp
  finally show ?thesis .
qed

lemma item_remark:
  assumes "between ls st" "10 \<notin> set b" "drop (iBit st) p = 47 # 47 # b @ 10 # r"
    and "iBit st + length b + 3 \<le> n"
  shows "run p n st = run p n (st\<lparr>iBit := iBit st + length b + 3\<rparr>)"
proof -
  have st: "iStarFlag st = 0" "bIsNewLine st" using assms(1) by (simp_all add: between_def)
  have "drop (iBit st + 2) p = b @ 10 # r"
    using drop_next [of "iBit st" p "[47, 47]"] assms(3) by simp
  from find_newline_eq [OF this assms(2), of "n - (iBit st + 2)"]
  have "find_newline (n - (iBit st + 2)) p (iBit st + 2) = Some (Some (iBit st + 2 + length b))"
    using assms(4) by simp
  then have "stl_pass p n st = Some (Some ((st\<lparr>bIsNewLine := True\<rparr>)\<lparr>iBit := iBit st + length b + 3\<rparr>))"
    using assms(3) st by (simp add: stl_pass_def load_drop two_chars_both)
  then show ?thesis using assms(4) st by (simp add: run_pass newline_same)
qed

lemma item_break:
  assumes "c = 10 \<or> c = 13" "drop (iBit st) p = c # r" "iBit st < n"
  shows "run p n st = run p n (st\<lparr>iBit := iBit st + 1\<rparr>)"
  using assms by (intro run_pass) (auto simp: stl_pass_def load_drop)

text \<open>A line goes behind the ones there are, and the array grows when it is full.\<close>

lemma MagnifyArray_eq:
  "MagnifyArray a (length a) = Some (a @ replicate (length a) None)"
  by (simp add: MagnifyArray_def memcpy_def blit_def mult_2_right)

lemma fresh_word:
  assumes "drop i p = t @ r" "i + length t \<le> length p"
  shows "memcpy (replicate (Suc (length t)) 0) 0 p i (length t) = Some (t @ [0 :: byte])"
proof -
  have "drop (length t) (replicate (Suc (length t)) 0) = [0 :: byte]"
    using drop_replicate [of "length t" "Suc (length t)" 0] by simp
  then show ?thesis using assms by (simp add: memcpy_def blit_def)
qed

lemma add_line_eq:
  assumes "between ls (st\<lparr>bIsNewLine := True\<rparr>)" "drop (iLineStartBit st) p = t @ r"
    and "iBit st = iLineStartBit st + length t" "t \<noteq> []"
  shows "\<exists>st'. add_line p st = Some st' \<and> between (ls @ [t @ [0]]) st' \<and> iBit st' = iBit st"
proof -
  have st: "iStarFlag st = 0" "piLineCount st = length ls" "iLineLength st = length (pLine st)"
    "0 < length (pLine st)" "length ls \<le> length (pLine st)" "take (length ls) (pLine st) = map Some ls"
    using assms(1) by (auto simp: between_def)
  have "iLineStartBit st + length t \<le> length p"
    using arg_cong [OF assms(2), of length] assms(4) by (cases t) auto
  then have m: "memcpy (replicate (length t + 1) 0) 0 p (iLineStartBit st) (length t) = Some (t @ [0])"
    using assms(2) fresh_word [of "iLineStartBit st" p t r] by simp
  show ?thesis
  proof (cases "length (pLine st) \<le> length ls")
    case True
    then have l: "pLine st = map Some ls" "ls \<noteq> []"
      using st(4-6) by auto
    then have "replicate (length ls) None = None # replicate (length ls - 1) (None :: bytes option)"
      by (cases ls) simp_all
    then show ?thesis using l True st m assms(3) MagnifyArray_eq [of "map Some ls"]
      by (simp add: add_line_def Let_def store_def between_def list_update_append Suc_le_eq)
  next
    case False
    have "take (Suc (length ls)) ((pLine st)[length ls := Some (t @ [0])]) =
        map Some ls @ [Some (t @ [0])]"
      using False st(6) by (simp add: take_Suc_conv_app_nth)
    then show ?thesis using False st m assms(3)
      by (simp add: add_line_def Let_def store_def between_def)
  qed
qed

text \<open>Inside a statement whose text so far is \<open>t\<close>.\<close>

definition inside :: "bytes list \<Rightarrow> bytes \<Rightarrow> stl \<Rightarrow> bool" where
  "inside ls t st \<longleftrightarrow> between ls (st\<lparr>bIsNewLine := True\<rparr>) \<and> \<not> bIsNewLine st \<and>
     iBit st = iLineStartBit st + length t"

lemma inside_char:
  assumes "inside ls t st" "drop (iBit st) p = c # r" "iBit st < n" "c \<noteq> 0" "c \<noteq> 59" "c \<noteq> 47"
  shows "run p n st = run p n (st\<lparr>iBit := iBit st + 1\<rparr>) \<and> inside ls (t @ [c]) (st\<lparr>iBit := iBit st + 1\<rparr>)"
proof
  show "run p n st = run p n (st\<lparr>iBit := iBit st + 1\<rparr>)"
    using assms
    by (intro run_pass)
      (auto simp: stl_pass_def load_drop two_chars_first inside_def between_def Let_def)
  show "inside ls (t @ [c]) (st\<lparr>iBit := iBit st + 1\<rparr>)"
    using assms(1) by (auto simp: inside_def between_def)
qed

lemma inside_chars:
  "inside ls t st \<Longrightarrow> drop (iBit st) p = u @ r \<Longrightarrow> iBit st + length u \<le> n \<Longrightarrow>
     \<forall>c \<in> set u. c \<noteq> 0 \<and> c \<noteq> 59 \<and> c \<noteq> 47 \<Longrightarrow>
     run p n st = run p n (st\<lparr>iBit := iBit st + length u\<rparr>) \<and> inside ls (t @ u) (st\<lparr>iBit := iBit st + length u\<rparr>)"
proof (induction u arbitrary: t st)
  case (Cons c u)
  let ?s1 = "st\<lparr>iBit := iBit st + 1\<rparr>"
  have 1: "run p n st = run p n ?s1 \<and> inside ls (t @ [c]) ?s1"
    using Cons.prems by (intro inside_char) auto
  have d: "drop (iBit ?s1) p = u @ r" using Cons.prems(2) by (simp add: drop_Suc_next)
  have "run p n ?s1 = run p n (?s1\<lparr>iBit := iBit ?s1 + length u\<rparr>) \<and>
      inside ls ((t @ [c]) @ u) (?s1\<lparr>iBit := iBit ?s1 + length u\<rparr>)"
    by (rule Cons.IH) (use 1 d Cons.prems in auto)
  then show ?case using 1 by simp
next
  case Nil
  then show ?case by (cases st) (simp add: inside_def)
qed

lemma item_stmt:
  assumes "between ls st" "item_ok (Stmt t)" "drop (iBit st) p = t @ 59 # r"
    and "iBit st + length t + 1 \<le> n"
  shows "\<exists>st'. run p n st = run p n st' \<and> between (ls @ [t @ [0]]) st' \<and> iBit st' = iBit st + length t + 1"
proof -
  obtain c u where t: "t = c # u" using assms(2) by (cases t) auto
  have c: "c \<noteq> 0" "c \<noteq> 59" "c \<noteq> 47" "c \<noteq> 10" "c \<noteq> 13" using assms(2) by (auto simp: t)
  define st1 where "st1 = st\<lparr>iLineStartBit := iBit st, bIsNewLine := False, iBit := iBit st + 1\<rparr>"
  have "stl_pass p n st = Some (Some st1)"
    using assms(1,3) c by (simp add: stl_pass_def load_drop two_chars_first t between_def st1_def Let_def)
  then have r1: "run p n st = run p n st1" using assms(4) by (simp add: run_pass)
  have i1: "inside ls [c] st1" using assms(1) by (auto simp: inside_def between_def st1_def)
  define st2 where "st2 = st1\<lparr>iBit := iBit st1 + length u\<rparr>"
  have d1: "drop (iBit st1) p = u @ 59 # r" using assms(3) by (simp add: st1_def t drop_Suc_next)
  have r2: "run p n st1 = run p n st2 \<and> inside ls t st2"
    using inside_chars [OF i1 d1, of n] assms(2,4) by (simp add: st1_def st2_def t)
  have start: "iLineStartBit st2 = iBit st" "iBit st2 = iBit st + length t"
    by (simp_all add: st1_def st2_def t)
  have d2: "drop (iBit st2) p = 59 # r" using drop_next [OF assms(3)] start by simp
  have "between ls (st2\<lparr>bIsNewLine := True\<rparr>)" using r2 by (simp add: inside_def)
  from add_line_eq [OF this, of p t "59 # r"] assms(3) start t obtain st3 where
    st3: "add_line p st2 = Some st3" "between (ls @ [t @ [0]]) st3" "iBit st3 = iBit st2" by auto
  have "stl_pass p n st2 = Some (Some (st3\<lparr>iBit := iBit st3 + 1\<rparr>))"
    using d2 r2 start t st3(1)
    by (simp add: stl_pass_def load_drop two_chars_first inside_def between_def Let_def)
  then have r3: "run p n st2 = run p n (st3\<lparr>iBit := iBit st3 + 1\<rparr>)"
    using start assms(4) by (simp add: run_pass)
  have "between (ls @ [t @ [0]]) (st3\<lparr>iBit := iBit st3 + 1\<rparr>)" using st3(2) by (auto simp: between_def)
  then show ?thesis using r1 r2 r3 st3(3) start
    by (intro exI [of _ "st3\<lparr>iBit := iBit st3 + 1\<rparr>"]) simp
qed

lemma between_iBit [simp]: "between ls (st\<lparr>iBit := i\<rparr>) = between ls st"
  by (simp add: between_def)

lemma run_items:
  "\<forall>x \<in> set xs. item_ok x \<Longrightarrow> between ls st \<Longrightarrow> drop (iBit st) p = render xs @ r \<Longrightarrow>
     n = iBit st + length (render xs) \<Longrightarrow>
     \<exists>a. run p n st = Some (Some a, length ls + length (statements xs)) \<and>
       take (length ls + length (statements xs)) a = map Some (ls @ map (\<lambda>t. t @ [0]) (statements xs))"
proof (induction xs arbitrary: ls st rule: render.induct)
  case 1
  then show ?case by (subst stl_loop.simps) (simp add: between_def)
next
  case (2 t xs)
  obtain st' where st': "run p n st = run p n st'" "between (ls @ [t @ [0]]) st'"
    "iBit st' = iBit st + length t + 1"
    using item_stmt [of ls st t p "render xs @ r" n] 2(2-5) by auto
  have "drop (iBit st') p = render xs @ r"
    using drop_next [of "iBit st" p "t @ [59]"] 2(4) st'(3) by simp
  from 2(1) [OF _ st'(2) this] 2(2,5) st'(1,3) show ?case by simp
next
  case (3 b xs)
  let ?st = "st\<lparr>iBit := iBit st + length b + 4\<rparr>"
  have "run p n st = run p n ?st"
    using item_comment [of ls st b p "render xs @ r" n] 3(2-5) by simp
  moreover have "drop (iBit ?st) p = render xs @ r"
    using drop_next [of "iBit st" p "47 # 42 # b @ [42, 47]"] 3(4)
    by (simp add: eval_nat_numeral)
  ultimately show ?case using 3(1) [of ls ?st] 3(2-5) by simp
next
  case (4 b xs)
  let ?st = "st\<lparr>iBit := iBit st + length b + 3\<rparr>"
  have "run p n st = run p n ?st"
    using item_remark [of ls st b p "render xs @ r" n] 4(2-5) by simp
  moreover have "drop (iBit ?st) p = render xs @ r"
    using drop_next [of "iBit st" p "47 # 47 # b @ [10]"] 4(4)
    by (simp add: eval_nat_numeral)
  ultimately show ?case using 4(1) [of ls ?st] 4(2-5) by simp
next
  case (5 c xs)
  let ?st = "st\<lparr>iBit := iBit st + 1\<rparr>"
  have "run p n st = run p n ?st"
    using item_break [of c st p "render xs @ r" n] 5(2-5) by simp
  moreover have "drop (iBit ?st) p = render xs @ r" using 5(4) by (simp add: drop_Suc_next)
  ultimately show ?case using 5(1) [of ls ?st] 5(2-5) by simp
qed

lemma sint_small: "n < 2 ^ 31 \<Longrightarrow> nat (sint (of_nat n :: u32)) = n"
  by (simp add: sint_uint signed_take_bit_int_eq_self uint_nat unat_of_nat)

lemma ScriptToLine_eq:
  assumes "m_MemoryScript s = Some (render xs @ r)" "m_MemoryScriptLength s = of_nat (length (render xs))"
    and "length (render xs) < 2 ^ 31" "\<forall>x \<in> set xs. item_ok x"
  shows "\<exists>a. ScriptToLine (\<lambda>_. False) junk s = Some (Some a, length (statements xs)) \<and>
     take (length (statements xs)) a = map Some (map (\<lambda>t. t @ [0]) (statements xs))"
proof -
  have b: "between [] stl_init" by (simp add: between_def stl_init_def)
  have "drop (iBit stl_init) (render xs @ r) = render xs @ r" by (simp add: stl_init_def)
  from run_items [OF assms(4) b this] show ?thesis
    using assms(1-3) by (simp add: ScriptToLine_def sint_small stl_init_def)
qed

subsection \<open>The words of a line\<close>

abbreviation cmd :: "bytes \<Rightarrow> nat \<Rightarrow> nat \<Rightarrow> int \<Rightarrow> bytes option list \<Rightarrow> nat \<Rightarrow> (bytes option list \<times> nat) option" where
  "cmd line len i \<equiv> cmd_loop line len [i..<len]"

lemma cmd_blanks:
  "drop i line = replicate k 32 @ r \<Longrightarrow> i + k \<le> len \<Longrightarrow>
     cmd line len i (-1) words count = cmd line len (i + k) (-1) words count"
proof (induction k arbitrary: i)
  case (Suc k)
  have l: "load line i = Some 32" using Suc.prems(1) by (simp add: load_drop)
  have "cmd line len i (-1) words count = cmd line len (Suc i) (-1) words count"
    using Suc.prems(2) l upt_conv_Cons [of i len] by simp
  also have "\<dots> = cmd line len (Suc i + k) (-1) words count"
    using Suc by (intro Suc.IH) (simp_all add: drop_Suc_next)
  finally show ?case by simp
qed simp

lemma cmd_letters:
  assumes "count \<noteq> 2" "0 \<le> start"
  shows "drop i line = a @ r \<Longrightarrow> i + length a < len \<Longrightarrow> 32 \<notin> set a \<Longrightarrow>
     cmd line len i start words count = cmd line len (i + length a) start words count"
proof (induction a arbitrary: i)
  case (Cons x a)
  have l: "load line i = Some x" using Cons.prems(1) by (simp add: load_drop)
  have "cmd line len i start words count = cmd line len (Suc i) start words count"
    using Cons.prems(2,3) l assms upt_conv_Cons [of i len] by auto
  also have "\<dots> = cmd line len (Suc i + length a) start words count"
    using Cons by (intro Cons.IH) (auto simp: drop_Suc_next)
  finally show ?case by simp
qed simp

lemma cmd_starts:
  assumes "drop i line = x # r" "x \<noteq> 32" "Suc i < len"
  shows "cmd line len i (-1) words count = cmd line len (Suc i) (int i) words count"
proof -
  have "load line i = Some x" "[i..<len] = i # [Suc i..<len]" "i \<noteq> len - 1"
    using assms(1,3) by (auto simp: load_drop upt_conv_Cons)
  then show ?thesis using assms(2) by simp
qed

lemma drop_length_le:
  assumes "drop i line = a @ r" "a \<noteq> []"
  shows "i + length a \<le> length line"
  using arg_cong [OF assms(1), of length] assms(2) by (cases a) auto

text \<open>A word that a blank ends, with more of the line behind the blank.\<close>

lemma cmd_word:
  assumes "drop i line = a @ 32 # r" "a \<noteq> []" "32 \<notin> set a" "i + length a + 1 < len"
    and "count < 2" "count < length words"
  shows "cmd line len i (-1) words count =
     cmd line len (i + length a + 1) (-1) (words[count := Some (a @ [0])]) (count + 1)"
proof -
  obtain x b where a: "a = x # b" using assms(2) by (cases a) auto
  have "cmd line len i (-1) words count = cmd line len (Suc i) (int i) words count"
    using assms by (intro cmd_starts) (auto simp: a)
  also have "\<dots> = cmd line len (Suc i + length b) (int i) words count"
    using assms by (intro cmd_letters [where r = "32 # r"]) (auto simp: a drop_Suc_next)
  also have "\<dots> = cmd line len (i + length a) (int i) words count" by (simp add: a)
  also have "\<dots> = cmd line len (i + length a + 1) (-1) (words[count := Some (a @ [0])]) (count + 1)"
  proof -
    have "load line (i + length a) = Some 32"
      using drop_next [OF assms(1)] by (simp add: load_drop)
    moreover have "memcpy (replicate (length a + 1) 0) 0 line i (length a) = Some (a @ [0])"
      using fresh_word [OF assms(1) drop_length_le [OF assms(1,2)]] by simp
    moreover have "i + length a \<noteq> len - 1" using assms(4) by simp
    ultimately show ?thesis using assms(4-6) upt_conv_Cons [of "i + length a" len]
      by (simp add: Let_def store_def del: replicate_Suc)
  qed
  finally show ?thesis .
qed

text \<open>The last word, at the end of the line; a third word takes all of the rest.\<close>

lemma cmd_last:
  assumes "drop i line = a @ r" "a \<noteq> []" "hd a \<noteq> 32" "i + length a = len"
    and "count < 2 \<and> 32 \<notin> set a \<or> count = 2" "count < length words"
  shows "cmd line len i (-1) words count = Some (words[count := Some (a @ [0])], count + 1)"
proof -
  obtain x b where a: "a = x # b" using assms(2) by (cases a) auto
  have m: "memcpy (replicate (length a + 1) 0) 0 line i (length a) = Some (a @ [0])"
    using fresh_word [OF assms(1) drop_length_le [OF assms(1,2)]] by simp
  have l: "load line i = Some x" using assms(1) by (simp add: a load_drop)
  show ?thesis
  proof (cases b rule: rev_cases)
    case Nil
    then have "[i..<len] = [i]" "i = len - 1" using assms(4) by (auto simp: a upt_conv_Cons)
    moreover have "memcpy (replicate 2 0) 0 line i 1 = Some (a @ [0])"
      using m by (simp add: a Nil numeral_2_eq_2)
    ultimately show ?thesis using assms(3,6) l by (simp add: a store_def)
  next
    case (snoc c y)
    have "cmd line len i (-1) words count = cmd line len (Suc i) (int i) words count"
      using assms by (intro cmd_starts [where x = x and r = "b @ r"]) (auto simp: a snoc)
    also have "\<dots> = Some (words[count := Some (a @ [0])], count + 1)"
    proof (cases "count = 2")
      case True
      have "drop (Suc i) line = b @ r" using assms(1) by (simp add: a drop_Suc_next)
      then obtain z where "load line (Suc i) = Some z"
        by (cases "b @ r") (auto simp: snoc load_drop)
      moreover have "len - i = length a" using assms(4) by simp
      moreover have "[Suc i..<len] = Suc i # [Suc (Suc i)..<len]"
        using assms(4) by (intro upt_conv_Cons) (simp add: a snoc)
      ultimately show ?thesis using True m assms(6)
        by (simp add: Let_def store_def del: replicate_Suc)
    next
      case False
      have d: "drop (Suc i) line = c @ y # r" using assms(1) by (simp add: a snoc drop_Suc_next)
      have "cmd line len (Suc i) (int i) words count = cmd line len (Suc i + length c) (int i) words count"
        using assms(4,5) False by (intro cmd_letters [OF _ _ d]) (auto simp: a snoc)
      moreover have "load line (Suc i + length c) = Some y"
        using drop_next [OF d] by (simp add: load_drop)
      moreover have "[Suc i + length c..<len] = [Suc i + length c]"
        using assms(4) by (simp add: a snoc upt_conv_Cons)
      moreover have "len - 1 = Suc i + length c" "len - i = length a" using assms(4) by (auto simp: a snoc)
      ultimately show ?thesis using m False assms(5,6)
        by (simp add: Let_def store_def del: replicate_Suc)
    qed
    finally show ?thesis .
  qed
qed

lemma words_one:
  assumes "line = replicate x 32 @ a @ 32 # r" "a \<noteq> []" "32 \<notin> set a" "x + length a + 1 < len"
  shows "cmd line len 0 (-1) (replicate 3 None) 0 =
     cmd line len (x + length a + 1) (-1) [Some (a @ [0]), None, None] 1 \<and>
     drop (x + length a + 1) line = r"
proof -
  have d: "drop x line = a @ 32 # r" by (simp add: assms(1))
  have "cmd line len 0 (-1) (replicate 3 None) 0 = cmd line len x (-1) (replicate 3 None) 0"
    using cmd_blanks [of 0 line x "a @ 32 # r" len] assms(1,4) by simp
  also have "\<dots> = cmd line len (x + length a + 1) (-1) [Some (a @ [0]), None, None] 1"
    using cmd_word [OF d assms(2,3,4), of 0 "replicate 3 None"] by (simp add: numeral_3_eq_3)
  finally show ?thesis using drop_next [of x line "a @ [32]"] d by simp
qed

lemma GetMemoryScriptCMD_text:
  "0 \<notin> set t \<Longrightarrow> GetMemoryScriptCMD (t @ [0]) = cmd (t @ [0]) (length t) 0 (-1) (replicate 3 None) 0"
  by (simp add: GetMemoryScriptCMD_def c_string_append_nul)

lemma words_two:
  assumes "a \<noteq> []" "b \<noteq> []" "32 \<notin> set a" "32 \<notin> set b" "0 \<notin> set a" "0 \<notin> set b"
  shows "GetMemoryScriptCMD (replicate x 32 @ a @ replicate (Suc y) 32 @ b @ [0]) =
      Some ([Some (a @ [0]), Some (b @ [0]), None], 2)"
proof -
  define t where "t = replicate x 32 @ a @ 32 # replicate y 32 @ b"
  have z: "0 \<notin> set t" using assms(5,6) by (auto simp: t_def)
  have hb: "hd b \<noteq> 32" using assms(2,4) by (metis hd_in_set)
  have len: "length t = x + length a + 1 + y + length b" by (simp add: t_def)
  have 1: "cmd (t @ [0]) (length t) 0 (-1) (replicate 3 None) 0 =
      cmd (t @ [0]) (length t) (x + length a + 1) (-1) [Some (a @ [0]), None, None] 1 \<and>
      drop (x + length a + 1) (t @ [0]) = replicate y 32 @ b @ [0]"
    using assms(1-3) len by (intro words_one) (simp_all add: t_def)
  have "cmd (t @ [0]) (length t) (x + length a + 1) (-1) [Some (a @ [0]), None, None] 1 =
      cmd (t @ [0]) (length t) (x + length a + 1 + y) (-1) [Some (a @ [0]), None, None] 1"
    using 1 len by (intro cmd_blanks [where r = "b @ [0]"]) simp_all
  also have "\<dots> = Some ([Some (a @ [0]), None, None][1 := Some (b @ [0])], 1 + 1)"
    using assms(2,4) len drop_next [of "x + length a + 1" "t @ [0]" "replicate y 32" "b @ [0]"] 1 hb
    by (intro cmd_last [where r = "[0]"]) auto
  finally show ?thesis using 1 GetMemoryScriptCMD_text [OF z] by (simp add: t_def)
qed

lemma words_three:
  assumes "a \<noteq> []" "b \<noteq> []" "32 \<notin> set a" "32 \<notin> set b" "0 \<notin> set a" "0 \<notin> set b"
    and "c \<noteq> []" "hd c \<noteq> 32" "0 \<notin> set c"
  shows "GetMemoryScriptCMD (replicate x 32 @ a @ replicate (Suc y) 32 @ b @ replicate (Suc z) 32 @ c @ [0]) =
      Some ([Some (a @ [0]), Some (b @ [0]), Some (c @ [0])], 3)"
proof -
  define t where "t = replicate x 32 @ a @ 32 # replicate y 32 @ b @ 32 # replicate z 32 @ c"
  have n: "0 \<notin> set t" using assms(5,6,9) by (auto simp: t_def)
  have len: "length t = x + length a + 1 + y + length b + 1 + z + length c" by (simp add: t_def)
  let ?i = "x + length a + 1 + y"
  let ?j = "?i + length b + 1 + z"
  have 1: "cmd (t @ [0]) (length t) 0 (-1) (replicate 3 None) 0 =
      cmd (t @ [0]) (length t) (x + length a + 1) (-1) [Some (a @ [0]), None, None] 1 \<and>
      drop (x + length a + 1) (t @ [0]) = replicate y 32 @ b @ 32 # replicate z 32 @ c @ [0]"
    using assms(1-3) len by (intro words_one) (simp_all add: t_def)
  then have d: "drop ?i (t @ [0]) = b @ 32 # replicate z 32 @ c @ [0]"
    using drop_next [of "x + length a + 1" "t @ [0]" "replicate y 32"] by simp
  then have d': "drop (?i + length b + 1) (t @ [0]) = replicate z 32 @ c @ [0]"
    using drop_next [of ?i "t @ [0]" "b @ [32]"] by (simp add: add.assoc)
  then have d'': "drop ?j (t @ [0]) = c @ [0]"
    using drop_next [of "?i + length b + 1" "t @ [0]" "replicate z 32"] by (simp add: add.assoc)
  have u: "[Some (a @ [0]), None, None][1 := Some (b @ [0])] = [Some (a @ [0]), Some (b @ [0]), None]"
    "(1 :: nat) + 1 = 2" by simp_all
  have "cmd (t @ [0]) (length t) (x + length a + 1) (-1) [Some (a @ [0]), None, None] 1 =
      cmd (t @ [0]) (length t) ?i (-1) [Some (a @ [0]), None, None] 1"
    using 1 len by (intro cmd_blanks [where r = "b @ 32 # replicate z 32 @ c @ [0]"]) simp_all
  also have "\<dots> = cmd (t @ [0]) (length t) (?i + length b + 1) (-1)
      ([Some (a @ [0]), None, None][1 := Some (b @ [0])]) (1 + 1)"
    using assms(2,4,7) len d by (intro cmd_word) auto
  also have "\<dots> = cmd (t @ [0]) (length t) ?j (-1) [Some (a @ [0]), Some (b @ [0]), None] 2"
    unfolding u by (rule cmd_blanks [OF d']) (simp add: len)
  also have "\<dots> = Some ([Some (a @ [0]), Some (b @ [0]), None][2 := Some (c @ [0])], 2 + 1)"
    using assms(7,8) len d'' by (intro cmd_last [where r = "[0]"]) auto
  finally show ?thesis using 1 GetMemoryScriptCMD_text [OF n] by (simp add: t_def)
qed

text \<open>
  \<^verbatim>\<open>GetMemoryScriptCMD\<close> cuts a line at runs of blanks into its first two words and takes all
  that follows as the third; a line of two words leaves the third pointer unwritten.
\<close>

lemma GetMemoryScriptCMD_words:
  assumes "a \<noteq> []" "b \<noteq> []" "32 \<notin> set a" "32 \<notin> set b" "0 \<notin> set a" "0 \<notin> set b"
    and "c \<noteq> []" "hd c \<noteq> 32" "0 \<notin> set c"
  shows "GetMemoryScriptCMD (replicate x 32 @ a @ replicate (Suc y) 32 @ b @ replicate (Suc z) 32 @ c @ [0]) =
      Some ([Some (a @ [0]), Some (b @ [0]), Some (c @ [0])], 3) \<and>
    GetMemoryScriptCMD (replicate x 32 @ a @ replicate (Suc y) 32 @ b @ [0]) =
      Some ([Some (a @ [0]), Some (b @ [0]), None], 2)"
  using words_three [OF assms] words_two [OF assms(1-6)] by simp


lemma balanced_example: "balanced (str '' a /* b */ '')"
proof -
  have "balanced [32]" "balanced [32, 98, 32]" by (auto intro!: balanced.intros(1,2))
  then have "balanced (47 # 42 # [32, 98, 32] @ 42 # 47 # [32])" by (intro balanced.intros(3))
  then have "balanced (32 # 97 # 32 # 47 # 42 # [32, 98, 32] @ 42 # 47 # [32])"
    using balanced.intros(2) [of 32] balanced.intros(2) [of 97] by simp
  then show ?thesis by (simp add: str_def)
qed


text \<open>
  Two quirks: a comment that no line break ends is taken for a statement, and of two semicolons
  the second is one.
\<close>

lemma unterminated_remark:
  "map_option (\<lambda>(a, n). (map_option (take 1) a, n))
     (stl_loop (\<lambda>_. False) (str ''//S 1;'') 6 (stl_init\<lparr>pLine := [None], iLineLength := 1\<rparr>)) =
   Some (Some [Some (str ''/S 1'' @ [0])], 1)"
  by code_simp

lemma second_semicolon:
  "map_option (\<lambda>(a, n). (map_option (take 1) a, n))
     (stl_loop (\<lambda>_. False) (str '';;'') 2 (stl_init\<lparr>pLine := [None], iLineLength := 1\<rparr>)) =
   Some (Some [Some (str '';'' @ [0])], 1)"
  by code_simp

subsection \<open>Sending a script\<close>

text \<open>The commands of a script, with decimal numbers.\<close>

datatype command = Sleep nat | Erase nat nat | Write nat bytes

fun command_text :: "command \<Rightarrow> bytes" where
  "command_text (Sleep n) = 83 # 32 # str (digits n)"
| "command_text (Erase a n) = 69 # 32 # str (digits a) @ 32 # str (digits n)"
| "command_text (Write a d) = 87 # 32 # str (digits a) @ 32 # d"

fun command_ok :: "(nat \<Rightarrow> bool) \<Rightarrow> command \<Rightarrow> bool" where
  "command_ok room (Sleep n) \<longleftrightarrow> n < 2 ^ 31"
| "command_ok room (Erase a n) \<longleftrightarrow> a < 2 ^ 31 \<and> n < 2 ^ 31 \<and> room n"
| "command_ok room (Write a d) \<longleftrightarrow>
     a < 2 ^ 31 \<and> d \<noteq> [] \<and> hd d \<noteq> 32 \<and> (\<forall>c \<in> set d. c \<noteq> 0 \<and> c \<noteq> 59 \<and> c \<noteq> 47) \<and> room (length d)"

lemma not_digit_0 [simp]: "\<not> is_digit 0"
  by (simp add: is_digit_def)

lemma digits_chars: "32 \<notin> set (str (digits n))" "0 \<notin> set (str (digits n))"
    "59 \<notin> set (str (digits n))" "47 \<notin> set (str (digits n))"
  using str_digits [of n] by force+

lemma atoi_word: "n < 2 ^ 31 \<Longrightarrow> atoi (str (digits n) @ [0]) = Some (int n)"
  using atoi_number [of n 0 "[]"] by simp

lemma script_line_command:
  assumes "command_ok room c"
  shows "script_line room (command_text c @ [0]) ok = Some True"
proof (cases c)
  case (Sleep n)
  have "GetMemoryScriptCMD (command_text c @ [0]) = Some ([Some [83, 0], Some (str (digits n) @ [0]), None], 2)"
    using words_two [of "[83]" "str (digits n)" 0 0] digits_chars [of n] str_digits_not_Nil [of n]
    by (simp add: Sleep)
  then show ?thesis using assms by (simp add: script_line_def Sleep load_def atoi_word)
next
  case (Erase a n)
  have h: "hd (str (digits n)) \<noteq> 32"
    using digits_chars(1) [of n] str_digits_not_Nil [of n] by (metis hd_in_set)
  have "GetMemoryScriptCMD (command_text c @ [0]) =
      Some ([Some [69, 0], Some (str (digits a) @ [0]), Some (str (digits n) @ [0])], 3)"
    using words_three [of "[69]" "str (digits a)" "str (digits n)" 0 0 0] h
      digits_chars [of a] digits_chars [of n] str_digits_not_Nil [of n] str_digits_not_Nil [of a]
    by (simp add: Erase)
  moreover have "unat (word_of_int (int n) :: u32) = n" using assms by (simp add: Erase unat_of_nat)
  ultimately show ?thesis using assms
    by (simp add: script_line_def Erase load_def atoi_word)
next
  case (Write a d)
  have z: "0 \<notin> set d" using assms by (auto simp: Write)
  have "GetMemoryScriptCMD (command_text c @ [0]) =
      Some ([Some [87, 0], Some (str (digits a) @ [0]), Some (d @ [0])], 3)"
    using words_three [of "[87]" "str (digits a)" d 0 0 0] z assms
      digits_chars [of a] str_digits_not_Nil [of a]
    by (simp add: Write)
  moreover have "c_string (d @ [0]) = Some d" using c_string_append_nul [OF z, of "[]"] .
  ultimately show ?thesis using assms
    by (simp add: script_line_def Write load_def atoi_word)
qed

lemma script_lines_commands:
  assumes "\<forall>c \<in> set cs. command_ok room c"
  shows "take (length cs) a = map Some (map (\<lambda>t. t @ [0]) (map command_text cs)) \<Longrightarrow>
    i \<le> length cs \<Longrightarrow> script_lines room (\<lambda>_. False) a [i..<length cs] ok = Some (i < length cs \<or> ok)"
proof (induction "length cs - i" arbitrary: i ok)
  case (Suc k)
  then have i: "i < length cs" by simp
  have "a ! i = take (length cs) a ! i" using i by simp
  also have "\<dots> = Some (command_text (cs ! i) @ [0])" using i Suc.prems(1) by simp
  finally have e: "a ! i = Some (command_text (cs ! i) @ [0])" .
  have "length (take (length cs) a) = length cs" using Suc.prems(1) by simp
  then have "load a i = Some (Some (command_text (cs ! i) @ [0]))" using i e by (simp add: load_def)
  moreover have "script_line room (command_text (cs ! i) @ [0]) ok = Some True"
    using assms i by (intro script_line_command) simp
  moreover have "script_lines room (\<lambda>_. False) a [Suc i..<length cs] True = Some True"
    using Suc.hyps(1) [of "Suc i" True] Suc.hyps(2) Suc.prems(1) i by simp
  ultimately show ?case using i by (simp add: upt_conv_Cons)
qed simp

text \<open>The messages of the client: the script in pieces, each followed by a NUL in memory.\<close>

fun send_script :: "bytes list \<Rightarrow> CCommonServer \<Rightarrow> CCommonServer option" where
  "send_script [] s = Some s"
| "send_script (c # cs) s = do {
     s \<leftarrow> On_MEMORYSCRIPT True (c @ [0]) (length c) s;
     send_script cs s
   }"

lemma c_strcat_into:
  assumes "0 \<notin> set u"
  shows "c_strcat (u @ 0 # r) d = (if length d \<le> length r then Some (u @ d @ 0 # drop (length d) r) else None)"
  using assms by (simp add: c_strcat_def c_string_append_nul memcpy_def blit_def)

lemma MEMORYSCRIPT_eq:
  assumes "m_MemoryScript s = Some (u @ 0 # r)" "0 \<notin> set u" "0 \<notin> set c" "\<not> m_bIsMemoryScriptCancel s"
    and "length c \<le> length r"
  shows "On_MEMORYSCRIPT True (c @ [0]) (length c) s = Some
     (let s' = s\<lparr>m_bIsMemoryScriptFinish := False, m_MemoryScript := Some ((u @ c) @ 0 # drop (length c) r)\<rparr>
      in if of_nat (length (u @ c)) = m_MemoryScriptLength s then s'\<lparr>m_threadMemoryScript := True\<rparr> else s')"
proof -
  have c: "c_string (u @ 0 # r) = Some u" "c_string (c @ [0]) = Some c"
    using c_string_append_nul [OF assms(2)] c_string_append_nul [OF assms(3), of "[]"] by simp_all
  have t: "c_strcat (u @ 0 # r) c = Some (u @ c @ 0 # drop (length c) r)"
    using assms(5) by (simp add: c_strcat_into [OF assms(2)])
  have "(u @ c @ 0 # drop (length c) r)[length u + length c := 0] = u @ c @ 0 # drop (length c) r"
    by (simp add: list_update_append)
  then have "store (u @ c @ 0 # drop (length c) r) (length u + length c) 0 =
      Some (u @ c @ 0 # drop (length c) r)"
    by (simp only: store_def) simp
  then show ?thesis using assms(1,4) c t by (simp add: On_MEMORYSCRIPT_def Let_def)
qed

lemma MEMORYSCRIPT_overruns:
  assumes "m_MemoryScript s = Some (u @ 0 # r)" "0 \<notin> set u" "0 \<notin> set c" "\<not> m_bIsMemoryScriptCancel s"
    and "length r < length c"
  shows "On_MEMORYSCRIPT True (c @ [0]) (length c) s = None"
proof -
  have "c_string (u @ 0 # r) = Some u" "c_string (c @ [0]) = Some c"
    using c_string_append_nul [OF assms(2)] c_string_append_nul [OF assms(3), of "[]"] by simp_all
  moreover have "c_strcat (u @ 0 # r) c = None"
    using assms(5) by (simp add: c_strcat_into [OF assms(2)])
  ultimately show ?thesis using assms(1,4) by (simp add: On_MEMORYSCRIPT_def Let_def)
qed

text \<open>
  The receiving side hands over exactly the bytes of a message. A piece without a NUL of its own
  is read past its end; one with a NUL makes \<^verbatim>\<open>ScriptToLine\<close> give up.
\<close>

lemma MEMORYSCRIPT_unterminated:
  assumes "m_MemoryScript s \<noteq> None" "\<not> m_bIsMemoryScriptCancel s" "0 \<notin> set data"
  shows "On_MEMORYSCRIPT created data len s = None"
  using assms by (auto simp: On_MEMORYSCRIPT_def Let_def c_string_None split: bind_splits)

lemma NUL_gives_up:
  assumes "iBit st < n" "\<not> cancel (iBit st)" "load p (iBit st) = Some 0"
  shows "stl_loop cancel p n st = Some (None, piLineCount st)"
  using assms by (subst stl_loop.simps) (simp add: stl_pass_def)

lemma send_script_eq:
  "m_MemoryScript s = Some (u @ 0 # r) \<Longrightarrow> 0 \<notin> set (u @ concat cs) \<Longrightarrow> [] \<notin> set cs \<Longrightarrow>
   \<not> m_bIsMemoryScriptCancel s \<Longrightarrow> \<not> m_threadMemoryScript s \<Longrightarrow> length (u @ concat cs) < 2 ^ 31 \<Longrightarrow>
   m_MemoryScriptLength s = of_nat (length (u @ concat cs)) \<Longrightarrow> cs \<noteq> [] \<Longrightarrow>
   send_script cs s =
     (if length (concat cs) \<le> length r
      then Some (s\<lparr>m_bIsMemoryScriptFinish := False,
        m_MemoryScript := Some ((u @ concat cs) @ 0 # drop (length (concat cs)) r), m_threadMemoryScript := True\<rparr>)
      else None)"
proof (induction cs arbitrary: s u r)
  case (Cons c cs)
  have z: "0 \<notin> set u" "0 \<notin> set c" using Cons.prems(2) by auto
  have cl: "c \<noteq> []" using Cons.prems(3) by auto
  show ?case
  proof (cases "length c \<le> length r")
    case False
    then have "On_MEMORYSCRIPT True (c @ [0]) (length c) s = None"
      using Cons.prems(1,4) z by (intro MEMORYSCRIPT_overruns) auto
    then show ?thesis using False by simp
  next
    case True
    define s' where "s' = s\<lparr>m_bIsMemoryScriptFinish := False,
      m_MemoryScript := Some ((u @ c) @ 0 # drop (length c) r)\<rparr>"
    have len: "(of_nat (length (u @ c)) = m_MemoryScriptLength s) \<longleftrightarrow> cs = []"
    proof
      assume e: "of_nat (length (u @ c)) = m_MemoryScriptLength s"
      have w: "unat (of_nat k :: u32) = k" if "k < 2 ^ 31" for k using that by (simp add: unat_of_nat)
      have "length (u @ c) < 2 ^ 31" using Cons.prems(6) by simp
      then have "length (u @ c) = length (u @ concat (c # cs))"
        using w Cons.prems(6,7) e by metis
      then have "length (concat cs) = 0" by simp
      then show "cs = []" using Cons.prems(3) by (cases cs) auto
    qed (simp add: Cons.prems(7))
    have step: "On_MEMORYSCRIPT True (c @ [0]) (length c) s =
        Some (if cs = [] then s'\<lparr>m_threadMemoryScript := True\<rparr> else s')"
      using MEMORYSCRIPT_eq [OF Cons.prems(1) z Cons.prems(4) True] len
      by (simp add: s'_def Let_def)
    show ?thesis
    proof (cases "cs = []")
      case True
      then show ?thesis using step \<open>length c \<le> length r\<close> by (simp add: s'_def)
    next
      case False
      have "send_script cs s' =
          (if length (concat cs) \<le> length (drop (length c) r)
           then Some (s'\<lparr>m_bIsMemoryScriptFinish := False, m_MemoryScript := Some (((u @ c) @ concat cs) @
             0 # drop (length (concat cs)) (drop (length c) r)), m_threadMemoryScript := True\<rparr>)
           else None)"
        using Cons.prems False by (intro Cons.IH) (simp_all add: s'_def)
      then show ?thesis using step False True by (simp add: s'_def add.commute le_diff_conv2)
    qed
  qed
qed (erule notE, rule refl)

lemma MEMORYSCRIPT_START_eq:
  assumes "m_bIsMemoryScriptFinish s" "n < 2 ^ 31" "malloc n = Some block" "block \<noteq> []"
  shows "On_MEMORYSCRIPT_START malloc link (str (digits n) @ [0]) s =
     Some (logged link MSG_MEMORYSCRIPT_START [48] (s\<lparr>m_bIsMemoryScriptCancel := False,
       m_MemoryScriptLength := of_nat n, m_MemoryScript := Some (0 # tl block)\<rparr>))"
proof -
  have "unat (of_nat n :: u32) = n" using assms(2) by (simp add: unat_of_nat)
  moreover have "store block 0 0 = Some (0 # tl block)" using assms(4) by (cases block) (simp_all add: store_def)
  ultimately show ?thesis
    using assms(1,2,3) atoi_word [of n]
    by (simp add: On_MEMORYSCRIPT_START_def Let_def dec_0_1 send_text_eq NR_MAXPACKLEN_def)
qed

lemma DoWork_commands:
  assumes "m_MemoryScript s = Some (render xs @ r)" "m_MemoryScriptLength s = of_nat (length (render xs))"
    and "length (render xs) < 2 ^ 31" "\<forall>x \<in> set xs. item_ok x" "\<not> m_bIsMemoryScriptCancel s"
    and "statements xs = map command_text cs" "\<forall>c \<in> set cs. command_ok room c"
  shows "MemoryScript_DoWork room link (\<lambda>_. False) (\<lambda>_. False) junk s =
     Some ((logged link MSG_MEMORYSCRIPT_FINISH (if cs = [] then [49] else [48]) s)
       \<lparr>m_bIsMemoryScriptFinish := True, m_threadMemoryScript := False\<rparr>)"
proof -
  obtain a where a: "ScriptToLine (\<lambda>_. False) junk s = Some (Some a, length cs)"
    "take (length cs) a = map Some (map (\<lambda>t. t @ [0]) (map command_text cs))"
    using ScriptToLine_eq [OF assms(1-4), of junk] assms(6) by auto
  from script_lines_commands [OF assms(7) a(2), of 0 False]
  have "script_lines room (\<lambda>_. False) a [0..<length cs] False = Some (cs \<noteq> [])" by simp
  then show ?thesis using a(1) assms(5)
    by (simp add: MemoryScript_DoWork_def Let_def str_def send_text_eq NR_MAXPACKLEN_def)
qed



end
