(* ===== verification/FileTransfer.thy ===== *)
theory FileTransfer
  imports Server
begin

text \<open>
  Upload and download of files: \<^verbatim>\<open>CreateDir\<close>, \<^verbatim>\<open>DownFile_DoWork\<close>, the destructor and the cases
  \<^verbatim>\<open>MSG_CHECKFILEEXISTS\<close>, \<^verbatim>\<open>MSG_GETFILE\<close>, \<^verbatim>\<open>MSG_GETFILE_CANCEL\<close>, \<^verbatim>\<open>MSG_SENDFILE\<close>,
  \<^verbatim>\<open>MSG_SENDFILE_CANCEL\<close>, \<^verbatim>\<open>MSG_SENDFILENAME\<close> and \<^verbatim>\<open>MSG_GETFILELENGTH\<close> of
  \<^verbatim>\<open>CCommonServer::OnReceived\<close> in \<^verbatim>\<open>common/CommonServer.cpp\<close>. The file system is an argument, with
  what POSIX promises of it as laws. A handler gets the memory its argument \<^verbatim>\<open>data\<close> points to
  and the length.
\<close>

subsection \<open>The file system\<close>

text \<open>
  \<open>px_access\<close> and \<open>px_size\<close> are what \<^verbatim>\<open>access\<close> and \<^verbatim>\<open>stat\<close> tell of a path, \<open>px_fopen_r\<close> all that
  the calls of \<^verbatim>\<open>fread\<close> on a stream opened for reading will deliver, \<open>px_fwrite\<close> the count
  \<^verbatim>\<open>fwrite\<close> returns.
\<close>

record 'd posix =
  px_access :: "'d \<Rightarrow> bytes \<Rightarrow> bool"
  px_size :: "'d \<Rightarrow> bytes \<Rightarrow> u32 option"
  px_mkdir :: "bytes \<Rightarrow> 'd \<Rightarrow> bool \<times> 'd"
  px_remove :: "bytes \<Rightarrow> 'd \<Rightarrow> bool \<times> 'd"
  px_fopen_a :: "bytes \<Rightarrow> 'd \<Rightarrow> bool \<times> 'd"
  px_fwrite :: "bytes \<Rightarrow> bytes \<Rightarrow> 'd \<Rightarrow> nat \<times> 'd"
  px_fclose :: "bytes \<Rightarrow> 'd \<Rightarrow> 'd"
  px_fopen_r :: "bytes \<Rightarrow> 'd \<Rightarrow> bytes option"

text \<open>
  The laws, over the regular files of the file system: a directory that is made and a stream
  that is closed leave them alone, \<^verbatim>\<open>remove\<close> removes at most the one it names, \<^verbatim>\<open>fopen\<close> for
  appending creates an empty one or leaves the one there is, \<^verbatim>\<open>fwrite\<close> appends as many bytes
  as it says.
\<close>

definition posix_laws :: "'d posix \<Rightarrow> ('d \<Rightarrow> bytes \<Rightarrow> bytes option) \<Rightarrow> bool" where
  "posix_laws os content \<longleftrightarrow>
     (\<forall>p d. content (snd (px_mkdir os p d)) = content d) \<and>
     (\<forall>p d. content (px_fclose os p d) = content d) \<and>
     (\<forall>p d. content (snd (px_remove os p d)) =
              (if fst (px_remove os p d) then (content d)(p := None) else content d)) \<and>
     (\<forall>p d. fst (px_fopen_a os p d) \<longrightarrow> content (snd (px_fopen_a os p d)) =
              (content d)(p := Some (case content d p of None \<Rightarrow> [] | Some c \<Rightarrow> c))) \<and>
     (\<forall>p d. \<not> fst (px_fopen_a os p d) \<longrightarrow> content (snd (px_fopen_a os p d)) = content d) \<and>
     (\<forall>p b d c. content d p = Some c \<longrightarrow> fst (px_fwrite os p b d) \<le> length b \<and>
              content (snd (px_fwrite os p b d)) =
                (content d)(p := Some (c @ take (fst (px_fwrite os p b d)) b)))"

subsection \<open>Directories\<close>

text \<open>\<open>js\<close> are the values of the loop variable that are left.\<close>

fun CreateDir_loop :: "'d posix \<Rightarrow> nat list \<Rightarrow> bytes \<Rightarrow> 'd \<Rightarrow> (int \<times> 'd) option" where
  "CreateDir_loop os [] DirName d = Some (0, d)"
| "CreateDir_loop os (i # js) DirName d = do {
     c \<leftarrow> load DirName i;
     if c = 47 then do {
       DirName \<leftarrow> store DirName i 0;
       p \<leftarrow> c_string DirName;
       let (made, d) = (if px_access os d p then (True, d) else px_mkdir os p d);
       if \<not> made then Some (-1, d)
       else do {
         DirName \<leftarrow> store DirName i 47;
         CreateDir_loop os js DirName d
       }
     }
     else CreateDir_loop os js DirName d
   }"

definition CreateDir :: "'d posix \<Rightarrow> bytes \<Rightarrow> 'd \<Rightarrow> (int \<times> 'd) option" where
  "CreateDir os sPathName d = do {
     src \<leftarrow> c_string sPathName;
     DirName \<leftarrow> memcpy (replicate 256 0) 0 (src @ [0]) 0 (length src + 1);
     let len = strlen DirName;
     c \<leftarrow> (if len = 0 then None else load DirName (len - 1));
     DirName \<leftarrow> (if c \<noteq> 47 then memcpy DirName len [47, 0] 0 2 else Some DirName);
     CreateDir_loop os [1..<strlen DirName] DirName d
   }"

subsection \<open>Upload\<close>

text \<open>The loop that cuts the path at its last slash, unless that is its first character.\<close>

fun cut_dir :: "nat \<Rightarrow> bytes \<Rightarrow> bytes option" where
  "cut_dir 0 b = Some b"
| "cut_dir (Suc i) b =
     (if i = 0 then Some b
      else do {
        c \<leftarrow> load b i;
        if c = 47 then store b i 0 else cut_dir i b
      })"

definition On_SENDFILENAME ::
  "'d posix \<Rightarrow> link \<Rightarrow> bytes \<Rightarrow> nat \<Rightarrow> CCommonServer \<times> 'd \<Rightarrow> (CCommonServer \<times> 'd) option" where
  "On_SENDFILENAME os link data len = (\<lambda>(s, d). do {
     let d = (case m_fpSendFile s of None \<Rightarrow> d | Some fp \<Rightarrow> px_fclose os fp d);
     path \<leftarrow> memcpy (replicate len 0) 0 data 0 len;
     let s = s\<lparr>m_fpSendFile := None, m_bIsSendFileCancel := False, m_pSendFilePath := Some path\<rparr>;
     pDirTemp \<leftarrow> memcpy (replicate len 0) 0 data 0 len;
     pDirTemp \<leftarrow> cut_dir len pDirTemp;
     (error, d) \<leftarrow> CreateDir os pDirTemp d;
     (answer, s, d) \<leftarrow>
       (if error = 0 then do {
          p \<leftarrow> c_string path;
          let (_, d) = px_remove os p d;
          let (opened, d) = px_fopen_a os p d;
          Some (if opened then (str ''1'', s\<lparr>m_fpSendFile := Some p\<rparr>, d) else (str ''0'', s, d))
        }
        else Some (str ''0'', s, d));
     s \<leftarrow> send_text 10 link MSG_SENDFILE answer s;
     Some (s, d)
   })"

definition On_SENDFILE ::
  "'d posix \<Rightarrow> link \<Rightarrow> bytes \<Rightarrow> nat \<Rightarrow> CCommonServer \<times> 'd \<Rightarrow> (CCommonServer \<times> 'd) option" where
  "On_SENDFILE os link data len = (\<lambda>(s, d).
     case m_fpSendFile s of
       None \<Rightarrow> Some (s, d)
     | Some fp \<Rightarrow>
         if len \<noteq> 0 \<and> \<not> m_bIsSendFileCancel s then do {
           b \<leftarrow> memcpy (replicate len 0) 0 data 0 len;
           let (write_length, d) = px_fwrite os fp b d;
           if write_length < len then do {
             (_, s) \<leftarrow> SendData_type link MSG_SENDFILE_CANCEL s;
             let d = px_fclose os fp d;
             let s = s\<lparr>m_fpSendFile := None\<rparr>;
             case m_pSendFilePath s of
               None \<Rightarrow> Some (s, d)
             | Some path \<Rightarrow> do {
                 p \<leftarrow> c_string path;
                 let (_, d) = px_remove os p d;
                 Some (s\<lparr>m_pSendFilePath := None\<rparr>, d)
               }
           }
           else Some (s, d)
         }
         else do {
           let d = px_fclose os fp d;
           let s = s\<lparr>m_fpSendFile := None\<rparr>;
           d \<leftarrow> (if m_bIsSendFileCancel s then
                  case m_pSendFilePath s of
                    None \<Rightarrow> Some d
                  | Some path \<Rightarrow> do {
                      p \<leftarrow> c_string path;
                      Some (snd (px_remove os p d))
                    }
                else Some d);
           Some (s\<lparr>m_pSendFilePath := None\<rparr>, d)
         })"

definition On_SENDFILE_CANCEL :: "CCommonServer \<Rightarrow> CCommonServer" where
  "On_SENDFILE_CANCEL s = s\<lparr>m_bIsSendFileCancel := True\<rparr>"

definition CCommonServer_destroy :: "'d posix \<Rightarrow> CCommonServer \<times> 'd \<Rightarrow> CCommonServer \<times> 'd" where
  "CCommonServer_destroy os = (\<lambda>(s, d).
     let d = (case m_fpSendFile s of None \<Rightarrow> d | Some fp \<Rightarrow> px_fclose os fp d) in
     (s\<lparr>m_fpSendFile := None, m_pSendFilePath := None, m_pGetFilePath := None\<rparr>, d))"

subsection \<open>Download\<close>

text \<open>The first argument tells whether \<^verbatim>\<open>pthread_create\<close> succeeds.\<close>

definition On_GETFILE :: "bool \<Rightarrow> bytes \<Rightarrow> nat \<Rightarrow> CCommonServer \<Rightarrow> CCommonServer option" where
  "On_GETFILE created data len s = do {
     path \<leftarrow> memcpy (replicate len 0) 0 data 0 len;
     Some (s\<lparr>m_pGetFilePath := Some path, m_threadDownFile := created\<rparr>)
   }"

definition On_GETFILE_CANCEL :: "CCommonServer \<Rightarrow> CCommonServer" where
  "On_GETFILE_CANCEL s = s\<lparr>m_bIsGetFileCancel := True\<rparr>"

text \<open>
  The thread, one step per pass of its loop: before it starts, in the loop with what is left of
  the file, behind the loop, ended. A step is atomic; a cancel that comes in during it has the
  effect of one right after it.
\<close>

datatype down = Down_start | Down_loop bytes | Down_end | Down_off

fun DownFile_DoWork :: "'d posix \<Rightarrow> link \<Rightarrow> 'd \<Rightarrow> down \<Rightarrow> CCommonServer \<Rightarrow> (down \<times> CCommonServer) option" where
  "DownFile_DoWork os link d Down_start s = do {
     let s = s\<lparr>m_bIsGetFileCancel := False\<rparr>;
     path \<leftarrow> m_pGetFilePath s;
     p \<leftarrow> c_string path;
     case px_fopen_r os p d of
       None \<Rightarrow> do {
         (_, s) \<leftarrow> SendData_type link MSG_GETFILE s;
         Some (Down_end, s)
       }
     | Some c \<Rightarrow> Some (Down_loop c, s)
   }"
| "DownFile_DoWork os link d (Down_loop c) s = do {
     let file_block_length = min NR_MAXPACKLEN (length c);
     strTemp \<leftarrow> memcpy (replicate NR_MAXPACKLEN 0) 0 c 0 file_block_length;
     if file_block_length = 0 \<or> m_bIsGetFileCancel s then Some (Down_end, s)
     else do {
       (ok, s) \<leftarrow> SendData link MSG_GETFILE strTemp file_block_length s;
       if ok then Some (Down_loop (drop file_block_length c), s)
       else do {
         (_, s) \<leftarrow> SendData_type link MSG_GETFILE s;
         Some (Down_end, s)
       }
     }
   }"
| "DownFile_DoWork os link d Down_end s = Some (Down_off, s\<lparr>m_threadDownFile := False\<rparr>)"
| "DownFile_DoWork os link d Down_off s = None"

text \<open>
  What can happen while a file is on its way: a step of the thread, a cancel, or other requests,
  which send messages of other types and leave the file alone.
\<close>

inductive df_step ::
  "'d posix \<Rightarrow> link \<Rightarrow> down \<times> CCommonServer \<times> 'd \<Rightarrow> down \<times> CCommonServer \<times> 'd \<Rightarrow> bool"
  for os link where
  thread: "DownFile_DoWork os link d pc s = Some (pc', s') \<Longrightarrow> df_step os link (pc, s, d) (pc', s', d)"
| cancel: "df_step os link (pc, s, d) (pc, On_GETFILE_CANCEL s, d)"
| other: "fst m \<noteq> MSG_GETFILE \<Longrightarrow> \<forall>p. px_fopen_r os p d' = px_fopen_r os p d \<Longrightarrow>
    df_step os link (pc, s, d) (pc, s\<lparr>sv_log := sv_log s @ [m]\<rparr>, d')"

subsection \<open>Questions about a file\<close>

definition On_CHECKFILEEXISTS ::
  "'d posix \<Rightarrow> link \<Rightarrow> bytes \<Rightarrow> 'd \<Rightarrow> CCommonServer \<Rightarrow> CCommonServer option" where
  "On_CHECKFILEEXISTS os link data d s = do {
     p \<leftarrow> c_string data;
     send_text NR_MAXPACKLEN link MSG_CHECKFILEEXISTS
       (if px_access os d p then str ''1'' else str ''0'') s
   }"

definition On_GETFILELENGTH ::
  "'d posix \<Rightarrow> link \<Rightarrow> bytes \<Rightarrow> 'd \<Rightarrow> CCommonServer \<Rightarrow> CCommonServer option" where
  "On_GETFILELENGTH os link data d s = do {
     p \<leftarrow> c_string data;
     let size = (case px_size os d p of None \<Rightarrow> 0 | Some n \<Rightarrow> sint n);
     send_text NR_MAXPACKLEN link MSG_GETFILELENGTH (str (dec size)) s
   }"

subsection \<open>Directories that \<^verbatim>\<open>CreateDir\<close> makes\<close>

text \<open>The reference: every prefix of the path that a slash follows is made if it is missing.\<close>

fun make_dirs :: "'d posix \<Rightarrow> bytes list \<Rightarrow> 'd \<Rightarrow> int \<times> 'd" where
  "make_dirs os [] d = (0, d)"
| "make_dirs os (p # ps) d =
     (if px_access os d p then make_dirs os ps d
      else case px_mkdir os p d of (made, d) \<Rightarrow> if made then make_dirs os ps d else (-1, d))"

definition ancestors :: "bytes \<Rightarrow> bytes list" where
  "ancestors q = map (\<lambda>i. take i q) (filter (\<lambda>i. q ! i = 47) [1..<length q])"

definition with_slash :: "bytes \<Rightarrow> bytes" where
  "with_slash p = (if last p \<noteq> 47 then p @ [47] else p)"

lemma CreateDir_loop_eq:
  assumes "0 \<notin> set q" "\<forall>i \<in> set js. i < length q"
  shows "CreateDir_loop os js (q @ 0 # r) d =
     Some (make_dirs os (map (\<lambda>i. take i q) (filter (\<lambda>i. q ! i = 47) js)) d)"
  using assms(2)
proof (induction js arbitrary: d)
  case (Cons i js)
  have i: "i < length q" and l: "load (q @ 0 # r) i = Some (q ! i)"
    using Cons.prems by (simp_all add: load_def nth_append)
  have u: "(q @ 0 # r)[i := 0] = take i q @ 0 # drop (Suc i) q @ 0 # r"
    using i by (simp add: list_update_append upd_conv_take_nth_drop)
  have "0 \<notin> set (take i q)" using assms(1) by (auto dest: in_set_takeD)
  then have c: "c_string ((q @ 0 # r)[i := 0]) = Some (take i q)"
    by (simp add: u c_string_append_nul)
  have restored: "(q @ 0 # r)[i := 0, i := 47] = q @ 0 # r" if "q ! i = 47"
    using i that list_update_id [of q i] by (simp add: list_update_append)
  show ?case
  proof (cases "q ! i = 47")
    case True
    then show ?thesis
      using i Cons.IH Cons.prems restored [OF True]
      by (simp add: l c store_def Let_def split: prod.splits)
  next
    case False
    then show ?thesis using Cons by (simp add: l)
  qed
qed simp

lemma CreateDir_eq:
  assumes "c_string b = Some p" "p \<noteq> []" "length p < 255"
  shows "CreateDir os b d = Some (make_dirs os (ancestors (with_slash p)) d)"
proof -
  have z: "0 \<notin> set p" using assms(1) by (auto simp: c_string_def cstr_no_nul split: if_splits)
  have m: "memcpy (replicate 256 0) 0 (p @ [0]) 0 (Suc (length p)) =
      Some (p @ 0 # replicate (255 - length p) 0)"
    using assms(3) by (simp add: memcpy_def blit_def)
  have l: "strlen (p @ 0 # r) = length p" for r
    by (simp add: strlen_def cstr_append_nul [OF z])
  have e: "load (p @ 0 # r) (length p - Suc 0) = Some (last p)" for r
    using assms(2) by (simp add: load_def nth_append last_conv_nth)
  show ?thesis
  proof (cases "last p = 47")
    case True
    then show ?thesis using assms(2) CreateDir_loop_eq [OF z, of "[1..<length p]" os]
      by (simp add: CreateDir_def assms(1) m l e ancestors_def with_slash_def Let_def)
  next
    case False
    have r: "replicate (255 - length p) 0 = (0 :: byte) # replicate (254 - length p) 0"
      using assms(3) by (simp add: replicate_Suc [symmetric] Suc_diff_Suc [symmetric] del: replicate_Suc)
    have c: "memcpy (p @ 0 # replicate (255 - length p) 0) (length p) [47, 0] 0 2 =
        Some ((p @ [47]) @ 0 # replicate (254 - length p) 0)"
      using assms(3) by (simp add: memcpy_def blit_def r)
    have z': "0 \<notin> set (p @ [47])" using z by simp
    have l': "strlen ((p @ [47]) @ 0 # replicate (254 - length p) 0) = Suc (length p)"
      unfolding strlen_def cstr_append_nul [OF z'] by simp
    show ?thesis
      using assms(2) False CreateDir_loop_eq [OF z', of "[1..<Suc (length p)]" os]
      by (simp add: CreateDir_def assms(1) m l e c l' [simplified] ancestors_def with_slash_def
          Let_def del: upt_Suc)
  qed
qed

lemma CreateDir_long:
  assumes "c_string b = Some p" "255 \<le> length p" "last p \<noteq> 47"
  shows "CreateDir os b d = None"
proof (cases "length p = 255")
  case True
  have z: "0 \<notin> set p" using assms(1) by (auto simp: c_string_def cstr_no_nul split: if_splits)
  have m: "memcpy (replicate 256 0) 0 (p @ [0]) 0 (Suc (length p)) = Some (p @ [0])"
    using True by (simp add: memcpy_def blit_def)
  have l: "strlen (p @ [0]) = length p" by (simp add: strlen_def cstr_append_nul [OF z])
  have e: "load (p @ [0]) (length p - Suc 0) = Some (last p)"
    using True by (simp add: load_def nth_append last_conv_nth flip: length_0_conv)
  have c: "memcpy (p @ [0]) (length p) [47, 0] 0 2 = None" by (simp add: memcpy_def)
  show ?thesis using assms(3) True c l e m by (auto simp: CreateDir_def assms(1) Let_def)
next
  case False
  then show ?thesis using assms(2) by (simp add: CreateDir_def assms(1) memcpy_def)
qed

subsection \<open>Uploading\<close>

lemma cut_dir_eq:
  assumes "dir \<noteq> []" "47 \<notin> set tail" "k \<le> length tail"
  shows "cut_dir (Suc (length dir + k)) (dir @ 47 # tail) = Some (dir @ 0 # tail)"
  using assms(3)
proof (induction k)
  case 0
  then show ?case using assms(1) by (simp add: load_def store_def nth_append)
next
  case (Suc k)
  then have "tail ! k \<noteq> 47" using assms(2) by (metis Suc_le_eq nth_mem)
  then show ?case using Suc by (simp add: load_def nth_append)
qed

lemma make_dirs_content:
  "posix_laws os content \<Longrightarrow> content (snd (make_dirs os ps d)) = content d"
proof (induction os ps d rule: make_dirs.induct)
  case (2 os p ps d)
  then show ?case by (auto simp: posix_laws_def split: prod.splits) (metis snd_conv)+
qed simp

lemma CreateDir_loop_content:
  "posix_laws os content \<Longrightarrow> CreateDir_loop os js D d = Some (e, d') \<Longrightarrow> content d' = content d"
proof (induction os js D d rule: CreateDir_loop.induct)
  case (2 os i js D d)
  have "content (snd (px_mkdir os q d)) = content d" for q
    using 2(3) by (simp add: posix_laws_def)
  then have m: "px_mkdir os q d = (b, d'') \<Longrightarrow> content d'' = content d" for q b d''
    by (metis snd_conv)
  show ?case using 2 m
    by (auto simp: Let_def split: bind_splits if_splits prod.splits)
qed simp

lemma CreateDir_content:
  "posix_laws os content \<Longrightarrow> CreateDir os b d = Some (e, d') \<Longrightarrow> content d' = content d"
  unfolding CreateDir_def by (auto simp: Let_def split: bind_splits if_splits dest: CreateDir_loop_content)

lemma posix_remove:
  "posix_laws os content \<Longrightarrow> content (snd (px_remove os p d)) =
     (if fst (px_remove os p d) then (content d)(p := None) else content d)"
  by (simp add: posix_laws_def)

lemma posix_fclose: "posix_laws os content \<Longrightarrow> content (px_fclose os p d) = content d"
  by (simp add: posix_laws_def)

lemma posix_fopen_a:
  "posix_laws os content \<Longrightarrow> content (snd (px_fopen_a os p d)) =
     (if fst (px_fopen_a os p d)
      then (content d)(p := Some (case content d p of None \<Rightarrow> [] | Some c \<Rightarrow> c)) else content d)"
  by (simp add: posix_laws_def)

lemma posix_fwrite:
  "posix_laws os content \<Longrightarrow> content d p = Some c \<Longrightarrow> fst (px_fwrite os p b d) \<le> length b \<and>
     content (snd (px_fwrite os p b d)) = (content d)(p := Some (c @ take (fst (px_fwrite os p b d)) b))"
  by (simp add: posix_laws_def)

text \<open>A stream is open only on the path that is kept to remove the file again.\<close>

definition upload_wf :: "CCommonServer \<Rightarrow> bool" where
  "upload_wf s \<longleftrightarrow>
     (\<forall>p. m_fpSendFile s = Some p \<longrightarrow> (\<exists>b. m_pSendFilePath s = Some b \<and> c_string b = Some p))"

text \<open>What the client does after the name: it sends blocks, or it cancels.\<close>

datatype upload_event = Block bytes | Cancel

fun upload_events ::
  "'d posix \<Rightarrow> link \<Rightarrow> upload_event list \<Rightarrow> CCommonServer \<times> 'd \<Rightarrow> (CCommonServer \<times> 'd) option" where
  "upload_events os link [] st = Some st"
| "upload_events os link (Block b # es) st = do {
     st \<leftarrow> On_SENDFILE os link b (length b) st;
     upload_events os link es st
   }"
| "upload_events os link (Cancel # es) st =
     upload_events os link es (On_SENDFILE_CANCEL (fst st), snd st)"

fun upload_blocks :: "upload_event list \<Rightarrow> bytes" where
  "upload_blocks [] = []"
| "upload_blocks (Block b # es) = b @ upload_blocks es"
| "upload_blocks (Cancel # es) = upload_blocks es"

lemma memcpy_fresh: "memcpy (replicate (length b) 0) 0 b 0 (length b) = Some b"
  by (simp add: memcpy_def blit_def)

text \<open>The name of a file is accepted from any state, and an upload under way is dropped.\<close>

lemma SENDFILENAME_cases:
  assumes laws: "posix_laws os content"
    and run: "On_SENDFILENAME os link b (length b) (s, d) = Some (s', d')"
    and b: "c_string b = Some p"
  shows "\<not> m_bIsSendFileCancel s' \<and> m_pSendFilePath s' = Some b \<and>
    (\<exists>a. sv_log s' = sv_log s @ [(MSG_SENDFILE, a, link (sv_log s) MSG_SENDFILE a)] \<and>
      (m_fpSendFile s' = None \<and> a = str ''0'' \<and> (content d' = content d \<or> content d' = (content d)(p := None)) \<or>
       m_fpSendFile s' = Some p \<and> a = str ''1'' \<and>
         (\<exists>c. content d' = (content d)(p := Some c) \<and>
            ((\<forall>d. content d p \<noteq> None \<longrightarrow> fst (px_remove os p d)) \<longrightarrow> c = []))))"
proof -
  define d1 where "d1 = (case m_fpSendFile s of None \<Rightarrow> d | Some fp \<Rightarrow> px_fclose os fp d)"
  have d1: "content d1 = content d"
    by (simp add: d1_def posix_fclose [OF laws] split: option.split)
  define s1 where "s1 = s\<lparr>m_fpSendFile := None, m_bIsSendFileCancel := False, m_pSendFilePath := Some b\<rparr>"
  obtain t e d2 where t: "cut_dir (length b) b = Some t" "CreateDir os t d1 = Some (e, d2)"
    using run unfolding On_SENDFILENAME_def prod.case Let_def memcpy_fresh Option.bind.bind_lunit
      d1_def [symmetric] s1_def [symmetric] by (auto split: bind_splits)
  have d2: "content d2 = content d" using CreateDir_content [OF laws t(2)] d1 by simp
  have snt: "send_text 10 link MSG_SENDFILE (str [c]) x = Some (logged link MSG_SENDFILE (str [c]) x)"
    if "c = CHR ''0'' \<or> c = CHR ''1''" for c x using that by (auto intro!: send_text_eq simp: str_def)
  show ?thesis
  proof (cases "e = 0")
    case False
    then show ?thesis using run d2
      unfolding On_SENDFILENAME_def prod.case Let_def memcpy_fresh Option.bind.bind_lunit
        d1_def [symmetric] s1_def [symmetric] t
      by (auto simp: snt s1_def)
  next
    case True
    define r where "r = px_remove os p d2"
    define f where "f = px_fopen_a os p (snd r)"
    have eq: "s' = logged link MSG_SENDFILE (if fst f then str ''1'' else str ''0'')
        (if fst f then s1\<lparr>m_fpSendFile := Some p\<rparr> else s1)" "d' = snd f"
      using run True b
      unfolding On_SENDFILENAME_def prod.case Let_def memcpy_fresh Option.bind.bind_lunit
        d1_def [symmetric] s1_def [symmetric] t
      by (auto simp: snt f_def r_def split: prod.splits if_splits)
    have "content (snd r) = (if fst r then (content d)(p := None) else content d)"
      using posix_remove [OF laws, of p d2] d2 by (simp add: r_def)
    moreover have "content (snd f) = (if fst f
        then (content (snd r))(p := Some (case content (snd r) p of None \<Rightarrow> [] | Some c \<Rightarrow> c))
        else content (snd r))"
      using posix_fopen_a [OF laws, of p "snd r"] by (simp add: f_def)
    ultimately show ?thesis using eq d2
      by (cases "fst f"; cases "fst r") (auto simp: s1_def r_def split: option.splits)
  qed
qed

text \<open>
  The abstract upload, of the file \<open>p\<close>: bytes already taken over and whether a cancel has come
  in, or given up. \<open>up_rel\<close> says what the server holds in each case; \<open>base\<close> are the other files.
\<close>

datatype upload = Running bytes bool | Given_up

definition up_rel ::
  "('d \<Rightarrow> bytes \<Rightarrow> bytes option) \<Rightarrow> bytes \<Rightarrow> (bytes \<Rightarrow> bytes option) \<Rightarrow> upload \<Rightarrow>
     CCommonServer \<times> 'd \<Rightarrow> bool" where
  "up_rel content p base u = (\<lambda>(s, d). upload_wf s \<and>
     (case u of
        Running acc c \<Rightarrow> m_fpSendFile s = Some p \<and> m_bIsSendFileCancel s = c \<and>
          content d = base(p := Some acc)
      | Given_up \<Rightarrow> m_fpSendFile s = None \<and> content d = base(p := None)))"

definition cancel_sent :: "CCommonServer \<Rightarrow> CCommonServer \<Rightarrow> bool" where
  "cancel_sent s s' \<longleftrightarrow> (\<exists>ok l. sv_log s' = sv_log s @ (MSG_SENDFILE_CANCEL, [], ok) # l)"

lemma SENDFILE_block:
  assumes laws: "posix_laws os content"
    and rm: "\<forall>d. content d p \<noteq> None \<longrightarrow> fst (px_remove os p d)"
    and rel: "up_rel content p base (Running acc False) (s, d)" and b: "b \<noteq> []"
  shows "\<exists>s' d'. On_SENDFILE os link b (length b) (s, d) = Some (s', d') \<and>
    (up_rel content p base (Running (acc @ b) False) (s', d') \<and> sv_log s' = sv_log s \<or>
     up_rel content p base Given_up (s', d') \<and> cancel_sent s s')"
proof -
  have fp: "m_fpSendFile s = Some p" "\<not> m_bIsSendFileCancel s" "content d = base(p := Some acc)"
    using rel by (simp_all add: up_rel_def)
  then obtain blk where blk: "m_pSendFilePath s = Some blk" "c_string blk = Some p"
    using rel by (auto simp: up_rel_def upload_wf_def)
  define w where "w = px_fwrite os p b d"
  have w: "fst w \<le> length b" "content (snd w) = base(p := Some (acc @ take (fst w) b))"
    using posix_fwrite [OF laws, of d p acc b] fp(3) by (simp_all add: w_def)
  show ?thesis
  proof (cases "fst w < length b")
    case True
    define r where "r = px_remove os p (px_fclose os p (snd w))"
    have "content (px_fclose os p (snd w)) = base(p := Some (acc @ take (fst w) b))"
      using posix_fclose [OF laws] w(2) by simp
    then have "content (snd r) = base(p := None)"
      using posix_remove [OF laws, of p "px_fclose os p (snd w)"] rm by (simp add: r_def)
    then show ?thesis
      using True fp blk b
      by (auto simp: On_SENDFILE_def memcpy_fresh w_def r_def cmem Let_def up_rel_def upload_wf_def
          cancel_sent_def split: prod.splits)
  next
    case False
    then have "fst w = length b" using w(1) by simp
    then show ?thesis
      using w fp blk b rel
      by (auto simp: On_SENDFILE_def memcpy_fresh w_def Let_def up_rel_def split: prod.splits)
  qed
qed

lemma SENDFILE_cancelled:
  assumes laws: "posix_laws os content"
    and rm: "\<forall>d. content d p \<noteq> None \<longrightarrow> fst (px_remove os p d)"
    and rel: "up_rel content p base (Running acc True) (s, d)"
  shows "\<exists>s' d'. On_SENDFILE os link b (length b) (s, d) = Some (s', d') \<and>
    up_rel content p base Given_up (s', d') \<and> sv_log s' = sv_log s"
proof -
  have fp: "m_fpSendFile s = Some p" "m_bIsSendFileCancel s" "content d = base(p := Some acc)"
    using rel by (simp_all add: up_rel_def)
  then obtain blk where blk: "m_pSendFilePath s = Some blk" "c_string blk = Some p"
    using rel by (auto simp: up_rel_def upload_wf_def)
  have "content (snd (px_remove os p (px_fclose os p d))) = base(p := None)"
    using posix_remove [OF laws, of p "px_fclose os p d"] posix_fclose [OF laws, of p d] rm fp(3)
    by simp
  then show ?thesis
    using fp blk by (auto simp: On_SENDFILE_def Let_def up_rel_def upload_wf_def)
qed

lemma SENDFILE_end:
  assumes laws: "posix_laws os content"
    and rel: "up_rel content p base (Running acc False) (s, d)"
  shows "\<exists>s' d'. On_SENDFILE os link [] 0 (s, d) = Some (s', d') \<and>
    m_fpSendFile s' = None \<and> m_pSendFilePath s' = None \<and> content d' = base(p := Some acc) \<and>
    sv_log s' = sv_log s"
  using rel posix_fclose [OF laws] by (auto simp: On_SENDFILE_def Let_def up_rel_def)

lemma SENDFILE_closed: "m_fpSendFile s = None \<Longrightarrow> On_SENDFILE os link b n (s, d) = Some (s, d)"
  by (simp add: On_SENDFILE_def)

lemma upload_given_up:
  "up_rel content p base Given_up (s, d) \<Longrightarrow>
     \<exists>s'. upload_events os link es (s, d) = Some (s', d) \<and> m_fpSendFile s' = None \<and> sv_log s' = sv_log s"
proof (induction es arbitrary: s)
  case (Cons e es)
  show ?case
  proof (cases e)
    case (Block b)
    have "m_fpSendFile s = None" using Cons.prems by (simp add: up_rel_def)
    then show ?thesis using Cons Block by (simp add: SENDFILE_closed)
  next
    case Cancel
    have "up_rel content p base Given_up (On_SENDFILE_CANCEL s, d)"
      using Cons.prems by (simp add: up_rel_def On_SENDFILE_CANCEL_def upload_wf_def)
    from Cons.IH [OF this] show ?thesis by (simp add: Cancel On_SENDFILE_CANCEL_def)
  qed
qed (simp add: up_rel_def)

lemma upload_cancel_pending:
  assumes laws: "posix_laws os content"
    and rm: "\<forall>d. content d p \<noteq> None \<longrightarrow> fst (px_remove os p d)"
  shows "up_rel content p base (Running acc True) (s, d) \<Longrightarrow> \<exists>s' d'.
     upload_events os link (es @ [Block []]) (s, d) = Some (s', d') \<and> m_fpSendFile s' = None \<and>
     content d' = base(p := None) \<and> sv_log s' = sv_log s"
proof (induction es arbitrary: s d)
  case Nil
  from SENDFILE_cancelled [OF laws rm this, of link "[]"] show ?case
    by (auto simp: up_rel_def fun_upd_def)
next
  case (Cons e es)
  show ?case
  proof (cases e)
    case (Block b)
    obtain s1 d1 where 1: "On_SENDFILE os link b (length b) (s, d) = Some (s1, d1)"
      "up_rel content p base Given_up (s1, d1)" "sv_log s1 = sv_log s"
      using SENDFILE_cancelled [OF laws rm Cons.prems] by blast
    then show ?thesis
      using upload_given_up [OF 1(2), of os link "es @ [Block []]"] by (auto simp: Block up_rel_def fun_upd_def)
  next
    case Cancel
    have "up_rel content p base (Running acc True) (On_SENDFILE_CANCEL s, d)"
      using Cons.prems by (simp add: up_rel_def On_SENDFILE_CANCEL_def upload_wf_def)
    from Cons.IH [OF this] show ?thesis by (simp add: Cancel On_SENDFILE_CANCEL_def)
  qed
qed

lemma upload_run:
  assumes laws: "posix_laws os content"
    and rm: "\<forall>d. content d p \<noteq> None \<longrightarrow> fst (px_remove os p d)"
  shows "Block [] \<notin> set es \<Longrightarrow> up_rel content p base (Running acc False) (s, d) \<Longrightarrow> \<exists>s' d'.
     upload_events os link (es @ [Block []]) (s, d) = Some (s', d') \<and> m_fpSendFile s' = None \<and>
     (content d' = base(p := Some (acc @ upload_blocks es)) \<and> Cancel \<notin> set es \<and> sv_log s' = sv_log s \<or>
      content d' = base(p := None) \<and> (Cancel \<in> set es \<or> cancel_sent s s'))"
proof (induction es arbitrary: s d acc)
  case Nil
  from SENDFILE_end [OF laws Nil(2), of link] show ?case by (auto simp: fun_upd_def)
next
  case (Cons e es)
  show ?case
  proof (cases e)
    case (Block b)
    then have b: "b \<noteq> []" using Cons.prems(1) by auto
    from SENDFILE_block [OF laws rm Cons.prems(2) b, of link] obtain s1 d1 where
      1: "On_SENDFILE os link b (length b) (s, d) = Some (s1, d1)" and
      2: "up_rel content p base (Running (acc @ b) False) (s1, d1) \<and> sv_log s1 = sv_log s \<or>
          up_rel content p base Given_up (s1, d1) \<and> cancel_sent s s1" by blast
    from 2 show ?thesis
    proof
      assume a: "up_rel content p base (Running (acc @ b) False) (s1, d1) \<and> sv_log s1 = sv_log s"
      then show ?thesis using Cons.IH [of "acc @ b" s1 d1] Cons.prems(1) 1
        by (auto simp: Block cancel_sent_def)
    next
      assume a: "up_rel content p base Given_up (s1, d1) \<and> cancel_sent s s1"
      then obtain s' where "upload_events os link (es @ [Block []]) (s1, d1) = Some (s', d1)"
        "m_fpSendFile s' = None" "sv_log s' = sv_log s1"
        using upload_given_up [of content p base s1 d1 os link "es @ [Block []]"] by blast
      then show ?thesis using a 1 by (auto simp: Block cancel_sent_def up_rel_def)
    qed
  next
    case Cancel
    have "up_rel content p base (Running acc True) (On_SENDFILE_CANCEL s, d)"
      using Cons.prems(2) by (simp add: up_rel_def On_SENDFILE_CANCEL_def upload_wf_def)
    from upload_cancel_pending [OF laws rm this, of link es] show ?thesis
      by (auto simp: Cancel fun_upd_def)
  qed
qed

lemma SENDFILENAME_accepts:
  assumes p: "p = dir @ 47 # name" "0 \<notin> set p" "47 \<notin> set name" "dir \<noteq> []" "length dir < 255"
    and mk: "\<forall>d. fst (make_dirs os (ancestors (with_slash dir)) d) = 0"
    and op: "\<forall>d. fst (px_fopen_a os p d)"
  shows "\<exists>s' d'. On_SENDFILENAME os link (p @ [0]) (Suc (length p)) (s, d) = Some (s', d') \<and>
    m_fpSendFile s' = Some p"
proof -
  have c: "cut_dir (Suc (length p)) (p @ [0]) = Some (dir @ 0 # name @ [0])"
    using cut_dir_eq [of dir "name @ [0]" "length (name @ [0])"] p by simp
  have z: "0 \<notin> set dir" using p by auto
  have m: "CreateDir os (dir @ 0 # name @ [0]) d1 = Some (make_dirs os (ancestors (with_slash dir)) d1)"
    for d1 using CreateDir_eq [OF c_string_append_nul [OF z] p(4,5)] .
  have t: "c_string (p @ [0]) = Some p" using c_string_append_nul [OF p(2), of "[]"] .
  have snt: "send_text 10 link MSG_SENDFILE [49] x = Some (logged link MSG_SENDFILE [49] x)" for x
    by (auto intro!: send_text_eq)
  have f: "memcpy (replicate (Suc (length p)) 0) 0 (p @ [0]) 0 (Suc (length p)) = Some (p @ [0])"
    using memcpy_fresh [of "p @ [0]"] by simp
  have e: "\<exists>d'. make_dirs os (ancestors (with_slash dir)) d1 = (0, d')" for d1
    using mk by (metis prod.collapse)
  have o: "\<exists>d'. px_fopen_a os p d1 = (True, d')" for d1
    using op by (metis (full_types) prod.collapse)
  define d1 where "d1 = (case m_fpSendFile s of None \<Rightarrow> d | Some fp \<Rightarrow> px_fclose os fp d)"
  obtain d2 where d2: "make_dirs os (ancestors (with_slash dir)) d1 = (0, d2)" using e by blast
  obtain x d3 where d3: "px_remove os p d2 = (x, d3)" by fastforce
  obtain d4 where d4: "px_fopen_a os p d3 = (True, d4)" using o by blast
  show ?thesis
    unfolding On_SENDFILENAME_def prod.case Let_def f c m t d1_def [symmetric]
      Option.bind.bind_lunit d2
    by (simp add: d3 d4 snt str_def)
qed

lemma upload_full:
  assumes laws: "posix_laws os content" and full: "\<forall>c d. fst (px_fwrite os p c d) = length c"
  shows "Block [] \<notin> set es \<Longrightarrow> Cancel \<notin> set es \<Longrightarrow> up_rel content p base (Running acc False) (s, d) \<Longrightarrow>
    \<exists>s' d'. upload_events os link es (s, d) = Some (s', d') \<and> sv_log s' = sv_log s \<and>
      up_rel content p base (Running (acc @ upload_blocks es) False) (s', d')"
proof (induction es arbitrary: s d acc)
  case (Cons e es)
  then obtain b where b: "e = Block b" "b \<noteq> []" by (cases e) auto
  have fp: "m_fpSendFile s = Some p" "\<not> m_bIsSendFileCancel s" "content d = base(p := Some acc)"
    using Cons.prems(3) by (simp_all add: up_rel_def)
  obtain d1 where w: "px_fwrite os p b d = (length b, d1)" using full by (metis prod.collapse)
  then have "content d1 = base(p := Some (acc @ b))"
    using posix_fwrite [OF laws, of d p acc b] fp(3) by simp
  then have "up_rel content p base (Running (acc @ b) False) (s, d1)"
    using Cons.prems(3) by (simp add: up_rel_def)
  from Cons.IH [OF _ _ this] Cons.prems(1,2) b w fp show ?case
    by (auto simp: On_SENDFILE_def memcpy_fresh Let_def)
qed simp

subsection \<open>Properties of uploads\<close>


text \<open>
  When the directories can be made, the file can be opened and the disk takes every block, the
  upload is accepted and stores exactly the blocks, whatever upload was under way before.
\<close>

lemma upload_complete:
  assumes "posix_laws os content"
    and "\<forall>d. content d p \<noteq> None \<longrightarrow> fst (px_remove os p d)"
    and "p = dir @ 47 # name" "0 \<notin> set p" "47 \<notin> set name" "dir \<noteq> []" "length dir < 255"
    and "\<forall>d. fst (make_dirs os (ancestors (with_slash dir)) d) = 0"
    and "\<forall>d. fst (px_fopen_a os p d)" and "\<forall>c d. fst (px_fwrite os p c d) = length c"
    and "Block [] \<notin> set es" "Cancel \<notin> set es"
  shows "\<exists>s1 d1 s2 d2 ok. On_SENDFILENAME os link (p @ [0]) (Suc (length p)) (s, d) = Some (s1, d1) \<and>
     upload_events os link (es @ [Block []]) (s1, d1) = Some (s2, d2) \<and>
     content d2 = (content d)(p := Some (upload_blocks es)) \<and>
     m_fpSendFile s2 = None \<and> m_pSendFilePath s2 = None \<and>
     sv_log s2 = sv_log s @ [(MSG_SENDFILE, str ''1'', ok)]"
proof -
  obtain s1 d1 where 1: "On_SENDFILENAME os link (p @ [0]) (Suc (length p)) (s, d) = Some (s1, d1)"
    "m_fpSendFile s1 = Some p"
    using SENDFILENAME_accepts [OF assms(3-9)] by blast
  have t: "c_string (p @ [0]) = Some p" using c_string_append_nul [OF assms(4), of "[]"] .
  have run: "On_SENDFILENAME os link (p @ [0]) (length (p @ [0])) (s, d) = Some (s1, d1)"
    using 1(1) by simp
  have w: "up_rel content p (content d) (Running [] False) (s1, d1)"
    "\<exists>ok. sv_log s1 = sv_log s @ [(MSG_SENDFILE, str ''1'', ok)]"
    using SENDFILENAME_cases [OF assms(1) run t] 1(2) assms(2) t
    by (auto simp: up_rel_def upload_wf_def)
  obtain s2 d2 where 2: "upload_events os link es (s1, d1) = Some (s2, d2)" "sv_log s2 = sv_log s1"
    "up_rel content p (content d) (Running (upload_blocks es) False) (s2, d2)"
    using upload_full [OF assms(1,10-12) w(1), of link] by auto
  have app: "upload_events os link (xs @ ys) st = (upload_events os link xs st \<bind> upload_events os link ys)"
    for xs ys st by (induction os link xs st rule: upload_events.induct) (simp_all split: bind_splits)
  from SENDFILE_end [OF assms(1) 2(3), of link] show ?thesis
    using 1(1) w(2) 2(1,2) by (auto simp: app)
qed

text \<open>
  A file system for the witnesses: files, and the directories that were made; with \<open>small\<close> a
  file holds 4000 bytes at most.
\<close>

definition demo_posix :: "bool \<Rightarrow> ((bytes \<Rightarrow> bytes option) \<times> bytes list) posix" where
  "demo_posix small =
     \<lparr>px_access = (\<lambda>(f, ds) p. f p \<noteq> None \<or> p \<in> set ds),
      px_size = (\<lambda>(f, ds) p. map_option (\<lambda>c. of_nat (length c)) (f p)),
      px_mkdir = (\<lambda>p (f, ds). (True, f, p # ds)),
      px_remove = (\<lambda>p (f, ds). (f p \<noteq> None, f(p := None), ds)),
      px_fopen_a = (\<lambda>p (f, ds). (True, f(p := Some (case f p of None \<Rightarrow> [] | Some c \<Rightarrow> c)), ds)),
      px_fwrite = (\<lambda>p b (f, ds). case f p of
          None \<Rightarrow> (length b, f, ds)
        | Some c \<Rightarrow> let n = (if small then min (length b) (4000 - length c) else length b)
            in (n, f(p := Some (c @ take n b)), ds)),
      px_fclose = (\<lambda>p d. d),
      px_fopen_r = (\<lambda>p (f, ds). f p)\<rparr>"

lemma demo_posix_laws: "posix_laws (demo_posix small) fst"
  by (auto simp: posix_laws_def demo_posix_def Let_def split: option.split)

lemma demo_posix_dirs: "fst (make_dirs (demo_posix small) ps d) = 0"
  by (induction "demo_posix small" ps d rule: make_dirs.induct)
    (auto simp: demo_posix_def split: prod.splits)

lemma demo_posix_remove: "fst d p \<noteq> None \<Longrightarrow> fst (px_remove (demo_posix small) p d)"
  by (auto simp: demo_posix_def split: prod.splits)

lemma demo_posix_fopen_a: "fst (px_fopen_a (demo_posix small) p d)"
  by (auto simp: demo_posix_def split: prod.splits)

lemma demo_posix_fwrite: "fst (px_fwrite (demo_posix False) p b d) = length b"
  by (auto simp: demo_posix_def Let_def split: prod.splits option.splits)

definition demo_path :: bytes where "demo_path = str ''/a'' @ 47 # str ''b''"

lemma demo_path: "demo_path = [47, 97, 47, 98]"
  by (simp add: demo_path_def str_def)


subsection \<open>Downloading\<close>

definition file_msgs :: "message list \<Rightarrow> message list" where
  "file_msgs l = filter (\<lambda>m. fst m = MSG_GETFILE) l"

text \<open>
  The invariant of a download of \<open>p\<close> that started with the log \<open>l0\<close>: what was sent and what is
  left make up the file, and the blocks fit into a message.
\<close>

definition down_ok :: "bytes option \<Rightarrow> down \<Rightarrow> CCommonServer \<Rightarrow> message list \<Rightarrow> bool" where
  "down_ok fc pc s ms \<longleftrightarrow>
     (case pc of
        Down_start \<Rightarrow> ms = []
      | Down_loop rest \<Rightarrow> fc = Some (payload ms @ rest) \<and> all_ok ms
      | _ \<Rightarrow> (pc = Down_off \<longrightarrow> \<not> m_threadDownFile s) \<and>
          (case fc of
             None \<Rightarrow> \<exists>ok. ms = [(MSG_GETFILE, [], ok)]
           | Some c \<Rightarrow> \<exists>rest. c = payload ms @ rest \<and>
               (\<not> m_bIsGetFileCancel s \<and> all_ok ms \<longrightarrow> rest = [])))"

definition down_inv ::
  "'d posix \<Rightarrow> bytes \<Rightarrow> message list \<Rightarrow> bytes option \<Rightarrow> down \<times> CCommonServer \<times> 'd \<Rightarrow> bool" where
  "down_inv os p l0 fc = (\<lambda>(pc, s, d). px_fopen_r os p d = fc \<and>
     (\<exists>b. m_pGetFilePath s = Some b \<and> c_string b = Some p) \<and>
     (\<exists>l. sv_log s = l0 @ l \<and> down_ok fc pc s (file_msgs l) \<and>
        (\<forall>m \<in> set (file_msgs l). length (fst (snd m)) \<le> NR_MAXPACKLEN)))"

lemma file_msgs_simps [simp]:
  "file_msgs [] = []" "file_msgs (k @ l) = file_msgs k @ file_msgs l"
  "file_msgs (m # l) = (if fst m = MSG_GETFILE then m # file_msgs l else file_msgs l)"
  by (simp_all add: file_msgs_def)

lemma fread_block:
  "memcpy (replicate NR_MAXPACKLEN 0) 0 c 0 (min NR_MAXPACKLEN (length c)) =
     Some (blit (replicate NR_MAXPACKLEN 0) 0 (take NR_MAXPACKLEN c))"
  by (simp add: memcpy_def min_def)

lemma sent_block:
  "take (min NR_MAXPACKLEN (length c)) (blit (replicate NR_MAXPACKLEN (0 :: byte)) 0 (take NR_MAXPACKLEN c))
     = take NR_MAXPACKLEN c"
  using take_blit_upto [of 0 "replicate NR_MAXPACKLEN (0 :: byte)" "take NR_MAXPACKLEN c"]
  by (simp add: min.commute)

lemma down_ok_cancel: "down_ok fc pc s ms \<Longrightarrow> down_ok fc pc (On_GETFILE_CANCEL s) ms"
  by (cases pc; cases fc) (auto simp: down_ok_def On_GETFILE_CANCEL_def)

lemma down_ok_log [simp]: "down_ok fc pc (s\<lparr>sv_log := l\<rparr>) ms = down_ok fc pc s ms"
  by (cases pc; cases fc) (simp_all add: down_ok_def)

lemma down_inv_thread:
  assumes "down_inv os p l0 fc (pc, s, d)" "DownFile_DoWork os link d pc s = Some (pc', s')"
  shows "down_inv os p l0 fc (pc', s', d)"
proof (cases pc)
  case Down_start
  with assms show ?thesis
    by (auto simp: down_inv_def down_ok_def SendData_type_logged c_string_def Let_def
        split: option.splits if_splits)
next
  case (Down_loop c)
  let ?n = "min NR_MAXPACKLEN (length c)"
  have nz: "?n = 0 \<longleftrightarrow> c = []" by (auto simp: NR_MAXPACKLEN_def min_def)
  have sd: "SendData link MSG_GETFILE (blit (replicate NR_MAXPACKLEN 0) 0 (take NR_MAXPACKLEN c)) ?n s =
      Some (link (sv_log s) MSG_GETFILE (take NR_MAXPACKLEN c), logged link MSG_GETFILE (take NR_MAXPACKLEN c) s)"
    by (subst SendData_logged) (simp_all add: sent_block)
  have dr: "drop ?n c = drop NR_MAXPACKLEN c" by (simp add: min_def)
  obtain l b where i: "px_fopen_r os p d = fc" "m_pGetFilePath s = Some b" "c_string b = Some p"
    "sv_log s = l0 @ l" "\<forall>m \<in> set (file_msgs l). length (fst (snd m)) \<le> NR_MAXPACKLEN"
    "fc = Some (payload (file_msgs l) @ c)" "all_ok (file_msgs l)"
    using assms(1) by (auto simp: down_inv_def down_ok_def Down_loop Let_def)
  have r: "(if c = [] \<or> m_bIsGetFileCancel s then Some (Down_end, s)
      else if link (sv_log s) MSG_GETFILE (take NR_MAXPACKLEN c)
      then Some (Down_loop (drop NR_MAXPACKLEN c), logged link MSG_GETFILE (take NR_MAXPACKLEN c) s)
      else Some (Down_end, logged link MSG_GETFILE [] (logged link MSG_GETFILE (take NR_MAXPACKLEN c) s)))
      = Some (pc', s')"
    using assms(2)
    by (auto simp: Down_loop fread_block Let_def nz sd dr SendData_type_logged split: if_splits)
  have "\<exists>rest. c = take NR_MAXPACKLEN c @ rest" by (metis append_take_drop_id)
  then show ?thesis
    using r i by (auto simp: down_inv_def down_ok_def Let_def split: if_splits)
qed (use assms in \<open>auto simp: down_inv_def down_ok_def Let_def split: option.splits\<close>)

lemma down_inv_step:
  assumes "df_step os link (pc, s, d) (pc', s', d')" "down_inv os p l0 fc (pc, s, d)"
  shows "down_inv os p l0 fc (pc', s', d')"
  using assms(1)
proof (cases rule: df_step.cases)
  case thread
  then show ?thesis using down_inv_thread [OF assms(2)] by simp
next
  case cancel
  then show ?thesis using assms(2) down_ok_cancel
    by (auto simp: down_inv_def) (auto simp: On_GETFILE_CANCEL_def)
next
  case (other m)
  then show ?thesis using assms(2) by (auto simp: down_inv_def)
qed

lemma down_inv_steps:
  "(df_step os link)\<^sup>*\<^sup>* x y \<Longrightarrow> down_inv os p l0 fc x \<Longrightarrow> down_inv os p l0 fc y"
  by (induction rule: rtranclp_induct) (auto intro: down_inv_step)

subsection \<open>Properties of downloads\<close>

text \<open>
  C17: However a download is interleaved with cancels and with other requests that leave the file
  alone, when its thread has ended the blocks that went out, 2048 bytes each at most, are the
  file from its beginning on; they are the whole file if no cancel came in after the thread
  started and every block was sent. For a file that cannot be opened one empty message went out.
\<close>

theorem download_delivers:
  assumes "m_pGetFilePath s = Some b" "c_string b = Some p"
    and "(df_step os link)\<^sup>*\<^sup>* (Down_start, s, d) (Down_off, s', d')"
  shows "\<not> m_threadDownFile s' \<and> (\<exists>l. sv_log s' = sv_log s @ l \<and>
     (\<forall>m \<in> set (file_msgs l). length (fst (snd m)) \<le> NR_MAXPACKLEN) \<and>
     (case px_fopen_r os p d of
        None \<Rightarrow> \<exists>ok. file_msgs l = [(MSG_GETFILE, [], ok)]
      | Some c \<Rightarrow> \<exists>rest. c = payload (file_msgs l) @ rest \<and>
          (\<not> m_bIsGetFileCancel s' \<and> all_ok (file_msgs l) \<longrightarrow> rest = [])))"
proof -
  have "down_inv os p (sv_log s) (px_fopen_r os p d) (Down_start, s, d)"
    using assms(1,2) by (auto simp: down_inv_def down_ok_def file_msgs_def intro: exI [of _ "[]"])
  from down_inv_steps [OF assms(3) this] show ?thesis
    by (auto simp: down_inv_def down_ok_def)
qed

text \<open>The thread by itself: a run of \<open>n\<close> steps.\<close>

fun df_run :: "'d posix \<Rightarrow> link \<Rightarrow> nat \<Rightarrow> down \<times> CCommonServer \<times> 'd \<Rightarrow> (down \<times> CCommonServer \<times> 'd) option" where
  "df_run os link 0 x = Some x"
| "df_run os link (Suc n) (pc, s, d) =
     (case DownFile_DoWork os link d pc s of
        None \<Rightarrow> None
      | Some (pc, s) \<Rightarrow> df_run os link n (pc, s, d))"

lemma df_run_steps: "df_run os link n x = Some y \<Longrightarrow> (df_step os link)\<^sup>*\<^sup>* x y"
proof (induction os link n x rule: df_run.induct)
  case (2 os link n pc s d)
  then show ?case
    by (auto split: option.splits intro: converse_rtranclp_into_rtranclp df_step.thread)
qed simp

theorem download_delivers_witness:
  "\<exists>s' l. df_run (demo_posix False) (\<lambda>_ _ _. True) 4
      (Down_start, (CCommonServer_new None 0 no_memory)\<lparr>m_pGetFilePath := Some (demo_path @ [0]), m_threadDownFile := True\<rparr>,
         [demo_path \<mapsto> [7, 8]], []) = Some (Down_off, s', [demo_path \<mapsto> [7, 8]], []) \<and>
     sv_log s' = l \<and> payload (file_msgs l) = [7, 8]"
proof -
  let ?s = "(CCommonServer_new None 0 no_memory)\<lparr>m_pGetFilePath := Some (demo_path @ [0]), m_threadDownFile := True\<rparr>"
  let ?d = "([demo_path \<mapsto> [7, 8]], []) :: (bytes \<Rightarrow> bytes option) \<times> bytes list"
  have t: "c_string (demo_path @ [0]) = Some demo_path"
    by (simp add: demo_path c_string_def cstr_def)
  have n: "4 = Suc (Suc (Suc (Suc 0)))" by simp
  define s' where "s' = (logged (\<lambda>_ _ _. True) MSG_GETFILE [7, 8] (?s\<lparr>m_bIsGetFileCancel := False\<rparr>))
      \<lparr>m_threadDownFile := False\<rparr>"
  have run: "df_run (demo_posix False) (\<lambda>_ _ _. True) 4 (Down_start, ?s, ?d) = Some (Down_off, s', ?d)"
    by (simp add: n t demo_posix_def CCommonServer_new_def memcpy_def blit_def NR_MAXPACKLEN_def
        SendData_logged s'_def)
  have "\<not> m_threadDownFile s' \<and> (\<exists>l. sv_log s' = sv_log ?s @ l \<and>
     (\<forall>m \<in> set (file_msgs l). length (fst (snd m)) \<le> NR_MAXPACKLEN) \<and>
     (case px_fopen_r (demo_posix False) demo_path ?d of
        None \<Rightarrow> \<exists>ok. file_msgs l = [(MSG_GETFILE, [], ok)]
      | Some c \<Rightarrow> \<exists>rest. c = payload (file_msgs l) @ rest \<and>
          (\<not> m_bIsGetFileCancel s' \<and> all_ok (file_msgs l) \<longrightarrow> rest = [])))"
    by (rule download_delivers [OF _ t df_run_steps [OF run]]) simp
  moreover have "\<not> m_bIsGetFileCancel s'" "all_ok (sv_log s')" "sv_log ?s = []"
    by (simp_all add: s'_def logged_def CCommonServer_new_def all_ok_def)
  ultimately have "payload (file_msgs (sv_log s')) = [7, 8]"
    by (auto simp: demo_posix_def all_ok_def file_msgs_def)
  then show ?thesis using run by blast
qed

text \<open>Left alone, the thread ends.\<close>

lemma down_loop_ends: "\<exists>n s'. df_run os link n (Down_loop c, s, d) = Some (Down_off, s', d)"
proof (induction "length c" arbitrary: c s rule: less_induct)
  case less
  let ?n = "min NR_MAXPACKLEN (length c)"
  have e: "df_run os link (Suc 0) (Down_end, s, d) = Some (Down_off, s\<lparr>m_threadDownFile := False\<rparr>, d)" for s
    by simp
  show ?case
  proof (cases "?n = 0 \<or> m_bIsGetFileCancel s")
    case True
    then have "df_run os link (Suc (Suc 0)) (Down_loop c, s, d) = Some (Down_off, s\<lparr>m_threadDownFile := False\<rparr>, d)"
      by (simp add: fread_block Let_def)
    then show ?thesis by blast
  next
    case False
    define b where "b = blit (replicate NR_MAXPACKLEN (0 :: byte)) 0 (take NR_MAXPACKLEN c)"
    have nz: "(?n = 0) = False" "\<not> m_bIsGetFileCancel s" using False by blast+
    have "?n \<le> length b" by (simp add: b_def)
    then obtain ok s1 where sd: "SendData link MSG_GETFILE b ?n s = Some (ok, s1)"
      by (simp add: SendData_logged)
    show ?thesis
    proof (cases ok)
      case True
      have "length (drop ?n c) < length c" using False by auto
      then obtain n s' where "df_run os link n (Down_loop (drop ?n c), s1, d) = Some (Down_off, s', d)"
        using less by blast
      then have "df_run os link (Suc n) (Down_loop c, s, d) = Some (Down_off, s', d)"
        using True sd by (simp add: nz fread_block Let_def b_def [symmetric])
      then show ?thesis by blast
    next
      case f: False
      then have "\<exists>s'. df_run os link (Suc (Suc 0)) (Down_loop c, s, d) = Some (Down_off, s', d)"
        using False sd by (simp add: fread_block Let_def b_def [symmetric] SendData_type_logged)
      then show ?thesis by blast
    qed
  qed
qed

lemma down_ends:
  assumes "m_pGetFilePath s = Some b" "c_string b = Some p"
  shows "\<exists>n s'. df_run os link n (Down_start, s, d) = Some (Down_off, s', d)"
proof (cases "px_fopen_r os p d")
  case None
  then have "\<exists>s'. df_run os link (Suc (Suc 0)) (Down_start, s, d) = Some (Down_off, s', d)"
    using assms by (simp add: SendData_type_logged Let_def)
  then show ?thesis by blast
next
  case (Some c)
  obtain n s' where "df_run os link n (Down_loop c, s\<lparr>m_bIsGetFileCancel := False\<rparr>, d) = Some (Down_off, s', d)"
    using down_loop_ends [of os link c "s\<lparr>m_bIsGetFileCancel := False\<rparr>" d] by auto
  then have "df_run os link (Suc n) (Down_start, s, d) = Some (Down_off, s', d)"
    using Some assms by (simp add: Let_def)
  then show ?thesis by blast
qed

text \<open>A cancel that comes in before the thread has started is lost.\<close>

lemma early_cancel_lost:
  assumes "m_pGetFilePath s = Some b" "c_string b = Some p" "px_fopen_r os p d = Some c"
  shows "DownFile_DoWork os link d Down_start (On_GETFILE_CANCEL s) =
     Some (Down_loop c, s\<lparr>m_bIsGetFileCancel := False\<rparr>)"
  using assms by (simp add: On_GETFILE_CANCEL_def Let_def)

lemma GETFILELENGTH_eq:
  assumes "c_string data = Some p" "px_size os d p = Some n"
  shows "On_GETFILELENGTH os link data d s = Some (logged link MSG_GETFILELENGTH (str (dec (sint n))) s)"
proof -
  have "- (2 ^ 31) \<le> sint n" "sint n < 2 ^ 31"
    using sint_greater_eq [of n] sint_less [of n] by simp_all
  from str_dec_props [OF this] show ?thesis
    using assms by (simp add: On_GETFILELENGTH_def Let_def send_text_eq NR_MAXPACKLEN_def)
qed

text \<open>
  C16: Uploading a file and downloading it gives it back: the blocks of \<^verbatim>\<open>MSG_GETFILE\<close> that go out
  make up the blocks that came in with \<^verbatim>\<open>MSG_SENDFILE\<close>, for any sizes of the blocks that came
  in and any interleaving of the thread, unless the download is cancelled or a message is lost.
\<close>

theorem upload_download_roundtrip:
  assumes "posix_laws os content" "\<forall>q d. px_fopen_r os q d = content d q"
    and "\<forall>d. content d p \<noteq> None \<longrightarrow> fst (px_remove os p d)"
    and "p = dir @ 47 # name" "0 \<notin> set p" "47 \<notin> set name" "dir \<noteq> []" "length dir < 255"
    and "\<forall>d. fst (make_dirs os (ancestors (with_slash dir)) d) = 0"
    and "\<forall>d. fst (px_fopen_a os p d)" and "\<forall>c d. fst (px_fwrite os p c d) = length c"
    and "Block [] \<notin> set es" "Cancel \<notin> set es"
  shows "\<exists>s1 d1 s2 d2 s3. On_SENDFILENAME os link (p @ [0]) (Suc (length p)) (s, d) = Some (s1, d1) \<and>
     upload_events os link (es @ [Block []]) (s1, d1) = Some (s2, d2) \<and>
     On_GETFILE True (p @ [0]) (Suc (length p)) s2 = Some s3 \<and>
     (\<exists>n s4. df_run os link n (Down_start, s3, d2) = Some (Down_off, s4, d2)) \<and>
     (\<forall>s4 d4. (df_step os link)\<^sup>*\<^sup>* (Down_start, s3, d2) (Down_off, s4, d4) \<longrightarrow>
        (let ms = file_msgs (drop (length (sv_log s3)) (sv_log s4)) in
           \<not> m_bIsGetFileCancel s4 \<and> all_ok ms \<longrightarrow> payload ms = upload_blocks es))"
proof -
  obtain s1 d1 s2 d2 where up: "On_SENDFILENAME os link (p @ [0]) (Suc (length p)) (s, d) = Some (s1, d1)"
    "upload_events os link (es @ [Block []]) (s1, d1) = Some (s2, d2)"
    "content d2 = (content d)(p := Some (upload_blocks es))"
    using upload_complete [OF assms(1,3-13)] by blast
  have t: "c_string (p @ [0]) = Some p" using c_string_append_nul [OF assms(5), of "[]"] .
  define s3 where "s3 = s2\<lparr>m_pGetFilePath := Some (p @ [0]), m_threadDownFile := True\<rparr>"
  have g: "On_GETFILE True (p @ [0]) (Suc (length p)) s2 = Some s3"
    using memcpy_fresh [of "p @ [0]"] by (simp add: On_GETFILE_def s3_def)
  have s3: "m_pGetFilePath s3 = Some (p @ [0])" by (simp add: s3_def)
  have i: "down_inv os p (sv_log s3) (Some (upload_blocks es)) (Down_start, s3, d2)"
    using s3 t assms(2) up(3) by (auto simp: down_inv_def down_ok_def intro: exI [of _ "[]"])
  have "payload (file_msgs (drop (length (sv_log s3)) (sv_log s4))) = upload_blocks es"
    if "(df_step os link)\<^sup>*\<^sup>* (Down_start, s3, d2) (Down_off, s4, d4)" "\<not> m_bIsGetFileCancel s4"
      "all_ok (file_msgs (drop (length (sv_log s3)) (sv_log s4)))" for s4 d4
    using down_inv_steps [OF that(1) i] that(2,3) by (auto simp: down_inv_def down_ok_def)
  then show ?thesis using up(1,2) g down_ends [OF s3 t, of os link d2] unfolding Let_def by blast
qed

theorem upload_download_roundtrip_witness:
  "\<exists>s1 d1 s2 d2 s3. On_SENDFILENAME (demo_posix False) (\<lambda>_ _ _. True) (demo_path @ [0])
       (Suc (length demo_path)) (CCommonServer_new None 0 no_memory, \<lambda>_. None, []) = Some (s1, d1) \<and>
     upload_events (demo_posix False) (\<lambda>_ _ _. True) ([Block [1, 2], Block [3]] @ [Block []]) (s1, d1) = Some (s2, d2) \<and>
     On_GETFILE True (demo_path @ [0]) (Suc (length demo_path)) s2 = Some s3 \<and>
     (\<exists>n s4. df_run (demo_posix False) (\<lambda>_ _ _. True) n (Down_start, s3, d2) = Some (Down_off, s4, d2)) \<and>
     (\<forall>s4 d4. (df_step (demo_posix False) (\<lambda>_ _ _. True))\<^sup>*\<^sup>* (Down_start, s3, d2) (Down_off, s4, d4) \<longrightarrow>
        (let ms = file_msgs (drop (length (sv_log s3)) (sv_log s4)) in
           \<not> m_bIsGetFileCancel s4 \<and> all_ok ms \<longrightarrow> payload ms = upload_blocks [Block [1, 2], Block [3]]))"
  by (rule upload_download_roundtrip [OF demo_posix_laws _ _ demo_path_def])
    (use demo_posix_remove demo_posix_dirs demo_posix_fopen_a demo_posix_fwrite in
      \<open>auto simp: demo_path str_def demo_posix_def\<close>)

end
