(* ===== verification/Catalog.thy ===== *)
theory Catalog
  imports Server
begin

text \<open>
  The listing of a directory: \<^verbatim>\<open>IsFolder\<close> and the case \<^verbatim>\<open>MSG_GETCATALOG\<close> of
  \<^verbatim>\<open>CCommonServer::OnReceived\<close> (\<^verbatim>\<open>common/CommonServer.cpp\<close>). What \<^verbatim>\<open>opendir\<close> and the calls of
  \<^verbatim>\<open>readdir\<close> deliver for a path is the argument \<open>opendir\<close>, whether \<^verbatim>\<open>stat\<close> succeeds on a path with
  the bit \<^verbatim>\<open>S_IFDIR\<close> in its mode the argument \<open>isdir\<close>.
\<close>

subsection \<open>The handler\<close>

definition IsFolder :: "(bytes \<Rightarrow> bool) \<Rightarrow> bytes \<Rightarrow> bytes \<Rightarrow> bool option" where
  "IsFolder isdir pathname filename = do {
     name \<leftarrow> memcpy (replicate 800 0) 0 (pathname @ [0]) 0 (length pathname + 1);
     name \<leftarrow> c_strcat name [47];
     name \<leftarrow> c_strcat name filename;
     p \<leftarrow> c_string name;
     Some (isdir p)
   }"

definition add_entry :: "(bytes \<Rightarrow> bool) \<Rightarrow> bytes \<Rightarrow> bytes \<Rightarrow> bytes \<Rightarrow> bytes option" where
  "add_entry isdir path strTemp name = do {
     folder \<leftarrow> IsFolder isdir path name;
     strTemp \<leftarrow> c_strcat strTemp (if folder then str ''1'' else str ''0'');
     c_strcat strTemp name
   }"

definition is_dot :: "bytes \<Rightarrow> bool" where
  "is_dot name \<longleftrightarrow> name = str ''.'' \<or> name = str ''..''"

definition send_query :: "link \<Rightarrow> CCommonServer \<Rightarrow> CCommonServer option" where
  "send_query link s = send_text NR_MAXPACKLEN link MSG_GETCATALOG (str ''?'') s"

text \<open>The loop over the entries gives no buffer when it returned from the function.\<close>

fun catalog_loop ::
  "(bytes \<Rightarrow> bool) \<Rightarrow> link \<Rightarrow> bytes \<Rightarrow> bytes list \<Rightarrow> bytes \<Rightarrow> CCommonServer \<Rightarrow>
     (bytes option \<times> CCommonServer) option" where
  "catalog_loop isdir link path [] strTemp s = Some (Some strTemp, s)"
| "catalog_loop isdir link path (name # names) strTemp s =
     (if is_dot name then catalog_loop isdir link path names strTemp s
      else do {
        t \<leftarrow> c_string strTemp;
        (sent, strTemp, s) \<leftarrow>
          (if length t + 1 + 1 + length name \<ge> NR_MAXPACKLEN then do {
             (ok, s) \<leftarrow> SendData link MSG_GETCATALOG strTemp (length t) s;
             Some (ok, replicate NR_MAXPACKLEN 0, s)
           }
           else Some (True, strTemp, s));
        if \<not> sent then do {
          s \<leftarrow> send_query link s;
          Some (None, s)
        }
        else do {
          t \<leftarrow> c_string strTemp;
          strTemp \<leftarrow> (if 0 < length t then c_strcat strTemp (str '':'') else Some strTemp);
          strTemp \<leftarrow> add_entry isdir path strTemp name;
          catalog_loop isdir link path names strTemp s
        }
      })"

text \<open>The number is that of the directory streams that are open.\<close>

definition On_GETCATALOG ::
  "(bytes \<Rightarrow> bytes list option) \<Rightarrow> (bytes \<Rightarrow> bool) \<Rightarrow> link \<Rightarrow> bytes \<Rightarrow> CCommonServer \<times> nat \<Rightarrow>
     (CCommonServer \<times> nat) option" where
  "On_GETCATALOG opendir isdir link data = (\<lambda>(s, streams). do {
     path \<leftarrow> c_string data;
     case (if path \<noteq> [] then opendir path else None) of
       None \<Rightarrow> do {
         s \<leftarrow> send_query link s;
         Some (s, streams)
       }
     | Some [] \<Rightarrow> do {
         s \<leftarrow> send_query link s;
         Some (s, streams + 1)
       }
     | Some (name # names) \<Rightarrow> do {
         let strTemp = replicate NR_MAXPACKLEN 0;
         strTemp \<leftarrow> (if \<not> is_dot name then add_entry isdir path strTemp name else Some strTemp);
         (rest, s) \<leftarrow> catalog_loop isdir link path names strTemp s;
         case rest of
           None \<Rightarrow> Some (s, streams + 1)
         | Some strTemp \<Rightarrow> do {
             t \<leftarrow> c_string strTemp;
             strTemp \<leftarrow> (if 0 < length t then c_strcat strTemp (str ''?'')
                         else memcpy strTemp 0 (str ''?'') 0 1);
             (ok, s) \<leftarrow> SendData link MSG_GETCATALOG strTemp (strlen strTemp) s;
             s \<leftarrow> (if ok then Some s else send_query link s);
             Some (s, streams + 1)
           }
       }
   })"

subsection \<open>The pages\<close>

text \<open>
  The reference: the entries, a flag and a name each, are collected with colons between them
  until the next one does not fit.
\<close>

definition entry :: "(bytes \<Rightarrow> bool) \<Rightarrow> bytes \<Rightarrow> bytes \<Rightarrow> bytes" where
  "entry isdir path name = (if isdir (path @ 47 # name) then 49 else 48) # name"

definition entries :: "(bytes \<Rightarrow> bool) \<Rightarrow> bytes \<Rightarrow> bytes list \<Rightarrow> bytes list" where
  "entries isdir path names = map (entry isdir path) (filter (\<lambda>n. \<not> is_dot n) names)"

definition join :: "bytes \<Rightarrow> bytes \<Rightarrow> bytes" where
  "join t e = (if t = [] then e else t @ 58 # e)"

fun paginate :: "bytes \<Rightarrow> bytes list \<Rightarrow> bytes list" where
  "paginate t [] = [t]"
| "paginate t (e # es) =
     (if NR_MAXPACKLEN \<le> length t + 1 + length e then t # paginate e es else paginate (join t e) es)"

text \<open>The entries of a page, split at the colons.\<close>

fun fields :: "bytes \<Rightarrow> bytes \<Rightarrow> bytes list" where
  "fields acc [] = [acc]"
| "fields acc (c # cs) = (if c = 58 then acc # fields [] cs else fields (acc @ [c]) cs)"

definition page_entries :: "bytes \<Rightarrow> bytes list" where
  "page_entries p = (if p = [] then [] else fields [] p)"

text \<open>A name a directory entry can have on this system.\<close>

definition good_name :: "bytes \<Rightarrow> bool" where
  "good_name n \<longleftrightarrow> n \<noteq> [] \<and> 0 \<notin> set n \<and> length n \<le> 255"

definition log_pages :: "link \<Rightarrow> bytes list \<Rightarrow> CCommonServer \<Rightarrow> CCommonServer" where
  "log_pages link ps s = fold (logged link MSG_GETCATALOG) ps s"

lemma IsFolder_eq:
  assumes "0 \<notin> set path" "0 \<notin> set n" "length path + length n < 799"
  shows "IsFolder isdir path n = Some (isdir (path @ 47 # n))"
proof -
  have m: "memcpy (replicate 800 0) 0 (path @ [0]) 0 (Suc (length path)) = Some (pad 800 path)"
    using assms(3) by (simp add: pad_Nil memcpy_pad)
  show ?thesis using assms by (simp add: IsFolder_def m c_strcat_pad)
qed

lemma IsFolder_overruns:
  assumes "0 \<notin> set path" "0 \<notin> set n" "799 \<le> length path + length n"
  shows "IsFolder isdir path n = None"
proof (cases "length path < 800")
  case True
  then have m: "memcpy (replicate 800 0) 0 (path @ [0]) 0 (Suc (length path)) = Some (pad 800 path)"
    by (simp add: pad_Nil memcpy_pad)
  show ?thesis using assms True by (simp add: IsFolder_def m c_strcat_pad)
qed (simp add: IsFolder_def memcpy_def)

lemma add_entry_eq:
  assumes "0 \<notin> set path" "length path \<le> 500" "good_name n" "0 \<notin> set t" "length t < NR_MAXPACKLEN"
  shows "add_entry isdir path (pad NR_MAXPACKLEN t) n =
     (if length t + length (entry isdir path n) < NR_MAXPACKLEN
      then Some (pad NR_MAXPACKLEN (t @ entry isdir path n)) else None)"
proof -
  have f: "IsFolder isdir path n = Some (isdir (path @ 47 # n))"
    using assms by (intro IsFolder_eq) (simp_all add: good_name_def)
  have s: "0 \<notin> set (str ''1'')" "0 \<notin> set (str ''0'')" "0 \<notin> set n"
    using assms(3) by (simp_all add: str_def good_name_def)
  show ?thesis using assms(4,5) s
    by (simp add: add_entry_def f c_strcat_pad entry_def str_def)
qed

lemma entry_props:
  "good_name n \<Longrightarrow> 0 \<notin> set (entry isdir path n) \<and> length (entry isdir path n) = Suc (length n) \<and>
     length (entry isdir path n) \<le> 256"
  by (auto simp: entry_def good_name_def)

lemma send_query_eq: "send_query link s = Some (logged link MSG_GETCATALOG [63] s)"
  by (simp add: send_query_def send_text_eq str_def NR_MAXPACKLEN_def)

lemma paginate_not_Nil [simp]: "paginate t es \<noteq> []"
  by (induction t es rule: paginate.induct) simp_all

lemma paginate_props:
  "0 \<notin> set t \<Longrightarrow> length t < NR_MAXPACKLEN \<Longrightarrow> \<forall>e \<in> set es. 0 \<notin> set e \<and> length e \<le> 256 \<Longrightarrow>
     p \<in> set (paginate t es) \<Longrightarrow> 0 \<notin> set p \<and> length p < NR_MAXPACKLEN"
proof (induction t es rule: paginate.induct)
  case (2 t e es)
  have e: "0 \<notin> set e" "length e < NR_MAXPACKLEN" using 2(5) by (auto simp: NR_MAXPACKLEN_def)
  show ?case
  proof (cases "NR_MAXPACKLEN \<le> length t + 1 + length e")
    case True
    then have "p = t \<or> p \<in> set (paginate e es)" using 2(6) by simp
    then show ?thesis using 2(1) [OF True e] 2(3-5) by auto
  next
    case False
    then have "0 \<notin> set (join t e)" "length (join t e) < NR_MAXPACKLEN"
      using 2(3) e by (auto simp: join_def)
    then show ?thesis using 2(2) [OF False] 2(5,6) False by simp
  qed
qed simp

lemma catalog_loop_eq:
  assumes link: "\<And>l t d. link l t d" and path: "0 \<notin> set path" "length path \<le> 500"
  shows "0 \<notin> set t \<Longrightarrow> length t < NR_MAXPACKLEN \<Longrightarrow> \<forall>n \<in> set names. good_name n \<Longrightarrow>
    catalog_loop isdir link path names (pad NR_MAXPACKLEN t) s =
      (let ps = paginate t (entries isdir path names)
       in Some (Some (pad NR_MAXPACKLEN (last ps)), log_pages link (butlast ps) s))"
proof (induction names arbitrary: t s)
  case Nil
  then show ?case by (simp add: entries_def log_pages_def)
next
  case (Cons n ns)
  show ?case
  proof (cases "is_dot n")
    case True
    then show ?thesis using Cons by (simp add: entries_def)
  next
    case False
    define e where "e = entry isdir path n"
    have e: "0 \<notin> set e" "length e = Suc (length n)" "length e \<le> 256"
      using entry_props [of n isdir path] Cons.prems(3) by (simp_all add: e_def)
    have es: "entries isdir path (n # ns) = e # entries isdir path ns"
      using False by (simp add: entries_def e_def)
    have add: "add_entry isdir path (pad NR_MAXPACKLEN u) n = Some (pad NR_MAXPACKLEN (u @ e))"
      if "0 \<notin> set u" "length u + length e < NR_MAXPACKLEN" for u
      using add_entry_eq [OF path, of n u isdir] that Cons.prems(3) by (simp add: e_def)
    show ?thesis
    proof (cases "NR_MAXPACKLEN \<le> length t + 1 + length e")
      case True
      have "length e < NR_MAXPACKLEN" using e(3) by (simp add: NR_MAXPACKLEN_def)
      then have "catalog_loop isdir link path (n # ns) (pad NR_MAXPACKLEN t) s =
          catalog_loop isdir link path ns (pad NR_MAXPACKLEN e) (logged link MSG_GETCATALOG t s)"
        using True False Cons.prems(1,2) e add [of "[]"] link
        by (simp add: SendData_logged pad_Nil NR_MAXPACKLEN_def)
      then show ?thesis using Cons.IH [of e] Cons.prems(3) e True \<open>length e < NR_MAXPACKLEN\<close>
        by (simp add: es Let_def log_pages_def)
    next
      case F: False
      have j: "0 \<notin> set (join t e)" "length (join t e) < NR_MAXPACKLEN"
        using F Cons.prems(1) e(1) by (auto simp: join_def)
      have "catalog_loop isdir link path (n # ns) (pad NR_MAXPACKLEN t) s =
          catalog_loop isdir link path ns (pad NR_MAXPACKLEN (join t e)) s"
      proof (cases "t = []")
        case True
        then show ?thesis using F False e add [of "[]"] by (simp add: join_def)
      next
        case nt: False
        then show ?thesis using F False Cons.prems(1,2) e add [of "t @ [58]"]
          by (simp add: join_def c_strcat_pad str_def)
      qed
      then show ?thesis using Cons.IH [OF j] Cons.prems(3) F by (simp add: es)
    qed
  qed
qed

lemma fields_snoc: "58 \<notin> set e \<Longrightarrow> fields acc (t @ 58 # e) = fields acc t @ [e]"
proof (induction t arbitrary: acc)
  case Nil
  have "fields acc e = [acc @ e]" for acc using Nil by (induction e arbitrary: acc) auto
  then show ?case by simp
qed simp

lemma fields_plain: "58 \<notin> set e \<Longrightarrow> fields acc e = [acc @ e]"
  by (induction e arbitrary: acc) auto

lemma paginate_entries:
  "\<forall>e \<in> set es. e \<noteq> [] \<and> 58 \<notin> set e \<Longrightarrow>
     concat (map page_entries (paginate t es)) = page_entries t @ es"
proof (induction t es rule: paginate.induct)
  case (2 t e es)
  have "page_entries e = [e]" "page_entries (join t e) = page_entries t @ [e]"
    using 2(3) by (simp_all add: page_entries_def join_def fields_plain fields_snoc)
  then show ?case using 2 by auto
qed simp

lemma On_GETCATALOG_eq:
  assumes link: "\<forall>l t d. link l t d"
    and path: "c_string data = Some path" "path \<noteq> []" "opendir path = Some (n # ns)"
    and first: "(if \<not> is_dot n then add_entry isdir path (replicate NR_MAXPACKLEN 0) n
      else Some (replicate NR_MAXPACKLEN 0)) = Some (pad NR_MAXPACKLEN t)"
    and loop: "catalog_loop isdir link path ns (pad NR_MAXPACKLEN t) s =
      Some (Some (pad NR_MAXPACKLEN l), s1)"
    and l: "0 \<notin> set l" "length l < 2048"
  shows "On_GETCATALOG opendir isdir link data (s, k) =
    (if length l = 2047 then None else Some (logged link MSG_GETCATALOG (l @ [63]) s1, k + 1))"
proof -
  have q: "(if 0 < length l then c_strcat (pad NR_MAXPACKLEN l) (str ''?'')
      else memcpy (pad NR_MAXPACKLEN l) 0 (str ''?'') 0 1) =
    (if length l = 2047 then None else Some (pad NR_MAXPACKLEN (l @ [63])))"
  proof (cases "l = []")
    case True
    then show ?thesis by (simp add: str_def NR_MAXPACKLEN_def memcpy_def blit_def pad_def)
  next
    case False
    then show ?thesis using l by (auto simp: c_strcat_pad str_def NR_MAXPACKLEN_def)
  qed
  have c: "c_string (pad NR_MAXPACKLEN l) = Some l" using l by (simp add: NR_MAXPACKLEN_def)
  have sd: "SendData link MSG_GETCATALOG (pad NR_MAXPACKLEN (l @ [63])) (strlen (pad NR_MAXPACKLEN (l @ [63]))) s1 =
      Some (True, logged link MSG_GETCATALOG (l @ [63]) s1)" if "length l \<noteq> 2047"
  proof -
    have "length (l @ [63]) < NR_MAXPACKLEN" "0 \<notin> set (l @ [63])"
      using that l by (simp_all add: NR_MAXPACKLEN_def)
    then show ?thesis
      using link SendData_logged [of "length (l @ [63])" "pad NR_MAXPACKLEN (l @ [63])" link MSG_GETCATALOG s1]
      by (simp del: length_append add: take_pad)
  qed
  show ?thesis
    unfolding On_GETCATALOG_def prod.case path Option.bind.bind_lunit Let_def if_P [OF path(2)]
      option.case list.case first loop c q
    by (simp add: sd)
qed

subsection \<open>Properties\<close>

text \<open>
  C18: The answer to \<^verbatim>\<open>MSG_GETCATALOG\<close> for a directory that can be read, when every message is
  sent: pages below 2048 bytes, the last one with a question mark behind it, that list every
  entry but the two dots once and in order, each with 1 for a folder and 0 otherwise. Exactly
  when the last page has 2047 bytes the question mark makes the handler write past its buffer.
  One more directory stream stays open.
\<close>

theorem GETCATALOG_lists_directory:
  assumes "\<And>l t d. link l t d" and "c_string data = Some path" "path \<noteq> []" "length path \<le> 500"
    and "opendir path = Some names" "names \<noteq> []" "\<forall>n \<in> set names. good_name n \<and> 58 \<notin> set n"
  shows "let ps = paginate [] (entries isdir path names) in
     On_GETCATALOG opendir isdir link data (s, k) =
       (if length (last ps) = 2047 then None
        else Some (log_pages link (butlast ps @ [last ps @ [63]]) s, k + 1)) \<and>
     (\<forall>p \<in> set ps. length p < 2048) \<and> concat (map page_entries ps) = entries isdir path names"
proof -
  have path: "0 \<notin> set path" using assms(2) by (auto simp: c_string_def cstr_no_nul split: if_splits)
  have link: "\<forall>l t d. link l t d" using assms(1) by blast
  define ps where "ps = paginate [] (entries isdir path names)"
  obtain n ns where names: "names = n # ns" using assms(6) by (cases names) auto
  have good: "\<forall>e \<in> set (entries isdir path names). e \<noteq> [] \<and> 0 \<notin> set e \<and> length e \<le> 256 \<and> 58 \<notin> set e"
    using assms(7) entry_props [of _ isdir path] by (auto simp: entries_def entry_def)
  have ps: "0 \<notin> set p \<and> length p < NR_MAXPACKLEN" if "p \<in> set ps" for p
    using paginate_props [of "[]" "entries isdir path names" p] good that
    by (simp add: ps_def NR_MAXPACKLEN_def)
  define t where "t = (if is_dot n then [] else entry isdir path n)"
  have t: "0 \<notin> set t" "length t < NR_MAXPACKLEN" "paginate t (entries isdir path ns) = ps"
    using entry_props [of n isdir path] assms(7)
    by (auto simp: t_def ps_def names entries_def join_def NR_MAXPACKLEN_def entry_def)
  have first: "(if \<not> is_dot n then add_entry isdir path (replicate NR_MAXPACKLEN 0) n
      else Some (replicate NR_MAXPACKLEN 0)) = Some (pad NR_MAXPACKLEN t)"
    using add_entry_eq [OF path assms(4), of n "[]" isdir] assms(7) t(2)
    by (cases "is_dot n") (simp_all add: t_def names pad_Nil NR_MAXPACKLEN_def)
  have loop: "catalog_loop isdir link path ns (pad NR_MAXPACKLEN t) s =
      Some (Some (pad NR_MAXPACKLEN (last ps)), log_pages link (butlast ps) s)"
    using catalog_loop_eq [OF assms(1) path assms(4) t(1,2),
        where names = ns and isdir = isdir and s = s] assms(7)
    by (simp add: names t(3) Let_def)
  have l: "0 \<notin> set (last ps)" "length (last ps) < 2048"
    using ps [of "last ps"] by (simp_all add: ps_def NR_MAXPACKLEN_def)
  have "On_GETCATALOG opendir isdir link data (s, k) =
       (if length (last ps) = 2047 then None
        else Some (log_pages link (butlast ps @ [last ps @ [63]]) s, k + 1))"
    using On_GETCATALOG_eq [where opendir = opendir, OF link assms(2,3) assms(5) [unfolded names] first loop l]
    by (simp add: log_pages_def)
  moreover have "concat (map page_entries ps) = entries isdir path names"
    using paginate_entries [of "entries isdir path names" "[]"] good
    by (simp add: ps_def page_entries_def)
  ultimately show ?thesis using ps unfolding Let_def ps_def [symmetric]
    by (simp add: NR_MAXPACKLEN_def)
qed

theorem GETCATALOG_lists_directory_witness:
  "On_GETCATALOG (\<lambda>_. Some [[46], [46, 46], [97], [98]]) (\<lambda>p. p = [47, 47, 98]) (\<lambda>_ _ _. True)
        [47, 0] (CCommonServer_new None 0 no_memory, 0) =
     Some (logged (\<lambda>_ _ _. True) MSG_GETCATALOG [48, 97, 58, 49, 98, 63] (CCommonServer_new None 0 no_memory), 1)"
proof -
  have e: "entries (\<lambda>p. p = [47, 47, 98]) [47] [[46], [46, 46], [97], [98]] = [[48, 97], [49, 98]]"
    by (simp add: entries_def entry_def is_dot_def str_def)
  have p: "paginate [] [[48, 97], [49, 98]] = [[48, 97, 58, 49, 98]]"
    by (simp add: join_def NR_MAXPACKLEN_def)
  have c: "c_string [47, 0] = Some [47]" by (simp add: c_string_def cstr_def)
  have "\<forall>n \<in> set [[46], [46, 46], [97], [98]]. good_name n \<and> 58 \<notin> set n" by (simp add: good_name_def)
  from GETCATALOG_lists_directory [where opendir = "\<lambda>_. Some [[46], [46, 46], [97], [98]]"
      and isdir = "\<lambda>p. p = [47, 47, 98]" and link = "\<lambda>_ _ _. True"
      and s = "CCommonServer_new None 0 no_memory" and k = 0, OF _ c _ _ refl _ this]
  show ?thesis unfolding e p Let_def by (simp add: log_pages_def)
qed

text \<open>
  Eight files with names of 254 characters fill a page to the last byte but one, so that listing
  their directory writes past the buffer.
\<close>

lemma catalog_overruns:
  assumes "\<And>l t d. link l t d" "c_string data = Some path" "path \<noteq> []" "length path \<le> 500"
    and "opendir path = Some (replicate 8 (replicate 254 97))"
  shows "On_GETCATALOG opendir isdir link data (s, k) = None"
proof -
  let ?n = "replicate 254 (97 :: byte)"
  have link: "\<forall>l t d. link l t d" using assms(1) by blast
  have path: "0 \<notin> set path" using assms(2) by (auto simp: c_string_def cstr_no_nul split: if_splits)
  have dot: "\<not> is_dot ?n" by (auto simp: is_dot_def str_def dest: arg_cong [of _ _ length])
  have good: "good_name ?n" by (simp add: good_name_def)
  define e where "e = entry isdir path ?n"
  have e: "length e = 255" "e \<noteq> []" "0 \<notin> set e"
    using entry_props [OF good, of isdir path] by (auto simp: e_def)
  have r: "replicate 8 ?n = ?n # replicate 7 ?n" by (simp add: eval_nat_numeral)
  have es: "entries isdir path (replicate 7 ?n) = replicate 7 e"
    using dot by (simp add: entries_def e_def)
  have pg: "paginate t (replicate k e) = [t @ concat (replicate k (58 # e))]"
    if "t \<noteq> []" "length t + 256 * k < 2048" for t k
    using that
  proof (induction k arbitrary: t)
    case (Suc k)
    then show ?case using Suc.IH [of "join t e"] e(1) by (simp add: join_def NR_MAXPACKLEN_def)
  qed simp
  have p7: "paginate e (replicate 7 e) = [e @ concat (replicate 7 (58 # e))]"
    using pg [of e 7] e by simp
  have len: "length (e @ concat (replicate 7 (58 # e))) = 2047"
    using e(1) by (simp add: eval_nat_numeral)
  have z: "0 \<notin> set (e @ concat (replicate 7 (58 # e)))" using e(3) by auto
  have first: "add_entry isdir path (replicate NR_MAXPACKLEN 0) ?n = Some (pad NR_MAXPACKLEN e)"
    using add_entry_eq [OF path assms(4) good, of "[]" isdir] e(1)
    by (simp add: pad_Nil NR_MAXPACKLEN_def e_def)
  have loop: "catalog_loop isdir link path (replicate 7 ?n) (pad NR_MAXPACKLEN e) s =
      Some (Some (pad NR_MAXPACKLEN (e @ concat (replicate 7 (58 # e)))), s)"
    using catalog_loop_eq [OF assms(1) path assms(4) e(3),
        where names = "replicate 7 ?n" and isdir = isdir and s = s] e(1) good
    by (simp add: es p7 NR_MAXPACKLEN_def log_pages_def)
  have "(if \<not> is_dot ?n then add_entry isdir path (replicate NR_MAXPACKLEN 0) ?n
      else Some (replicate NR_MAXPACKLEN 0)) = Some (pad NR_MAXPACKLEN e)"
    using dot first by simp
  from On_GETCATALOG_eq [where opendir = opendir, OF link assms(2,3) assms(5) [unfolded r] this loop z] len
  show ?thesis by simp
qed

end
