(* ===== verification/FileInfo.thy ===== *)
theory FileInfo
  imports Catalog
begin

text \<open>
  Dates and lengths of files: the cases \<^verbatim>\<open>MSG_GETFILECREATEDATE\<close>, \<^verbatim>\<open>MSG_GETFILEINFO\<close> and
  \<^verbatim>\<open>MSG_GETALLFILEINFO\<close> of \<^verbatim>\<open>CCommonServer::OnReceived\<close> (\<^verbatim>\<open>common/CommonServer.cpp\<close>). What
  \<^verbatim>\<open>opendir\<close> with \<^verbatim>\<open>readdir\<close>, \<^verbatim>\<open>stat\<close> and \<^verbatim>\<open>localtime\<close> deliver are arguments; \<^verbatim>\<open>None\<close> is a failure,
  for \<^verbatim>\<open>localtime\<close> the null pointer.
\<close>

definition MSG_GETFILECREATEDATE :: u32 where "MSG_GETFILECREATEDATE = 0x108"
definition MSG_GETFILEINFO :: u32 where "MSG_GETFILEINFO = 0x126"
definition MSG_GETALLFILEINFO :: u32 where "MSG_GETALLFILEINFO = 0x129"
definition MAX_FILENAME_LEN :: nat where "MAX_FILENAME_LEN = 256"

record TIME =
  year :: int
  month :: int
  day :: int
  hour :: int
  minute :: int
  second :: int

record stat_info =
  st_isdir :: bool
  st_atime :: int
  st_size :: int

type_synonym stat = "bytes \<Rightarrow> stat_info option"
type_synonym localtime = "int \<Rightarrow> TIME option"

subsection \<open>One file\<close>

definition TIME_bytes :: "TIME \<Rightarrow> bytes" where
  "TIME_bytes t = concat (map (\<lambda>i. le32 (word_of_int i)) [year t, month t, day t, hour t, minute t, second t])"

definition SIZEOF_TIME :: nat where "SIZEOF_TIME = 24"
definition SIZEOF_FILEINFO :: nat where "SIZEOF_FILEINFO = 28"

definition On_GETFILECREATEDATE ::
  "stat \<Rightarrow> localtime \<Rightarrow> link \<Rightarrow> bytes \<Rightarrow> CCommonServer \<Rightarrow> CCommonServer option" where
  "On_GETFILECREATEDATE stat localtime link data s = do {
     p \<leftarrow> c_string data;
     let strTemp = replicate NR_MAXPACKLEN 0;
     strTemp \<leftarrow> (case stat p of
        None \<Rightarrow> Some strTemp
      | Some info \<Rightarrow> do {
          newtime \<leftarrow> localtime (st_atime info);
          memcpy strTemp 0 (TIME_bytes newtime) 0 SIZEOF_TIME
        });
     (_, s) \<leftarrow> SendData link MSG_GETFILECREATEDATE strTemp SIZEOF_TIME s;
     Some s
   }"

definition On_GETFILEINFO ::
  "stat \<Rightarrow> localtime \<Rightarrow> link \<Rightarrow> bytes \<Rightarrow> CCommonServer \<Rightarrow> CCommonServer option" where
  "On_GETFILEINFO stat localtime link data s = do {
     p \<leftarrow> c_string data;
     let strTemp = replicate NR_MAXPACKLEN 0;
     strTemp \<leftarrow> (case stat p of
        None \<Rightarrow> Some strTemp
      | Some info \<Rightarrow> do {
          newtime \<leftarrow> localtime (st_atime info);
          strTemp \<leftarrow> memcpy strTemp 0 (TIME_bytes newtime) 0 SIZEOF_TIME;
          memcpy strTemp SIZEOF_TIME (le32 (word_of_int (st_size info))) 0 4
        });
     (_, s) \<leftarrow> SendData link MSG_GETFILEINFO strTemp SIZEOF_FILEINFO s;
     Some s
   }"

subsection \<open>All files of some directories\<close>

text \<open>\<^verbatim>\<open>%0nd\<close>.\<close>

definition zfill :: "nat \<Rightarrow> string \<Rightarrow> string" where
  "zfill n ds = replicate (n - length ds) CHR ''0'' @ ds"

definition dec0 :: "nat \<Rightarrow> int \<Rightarrow> string" where
  "dec0 n i = (if i < 0 then CHR ''-'' # zfill (n - 1) (digits (nat (- i))) else zfill n (digits (nat i)))"

definition time_text :: "TIME \<Rightarrow> int \<Rightarrow> bytes" where
  "time_text t len = str (dec0 4 (year t) @ ''-'' @ dec0 2 (month t) @ ''-'' @ dec0 2 (day t) @ ''-'' @
     dec0 2 (hour t) @ ''-'' @ dec0 2 (minute t) @ ''-'' @ dec0 2 (second t) @ '':'' @ dec len) @ [13]"

definition file_name :: "bytes \<Rightarrow> bytes \<Rightarrow> bytes option" where
  "file_name path name = do {
     fileName \<leftarrow> memcpy (replicate MAX_FILENAME_LEN 0) 0 (path @ [0]) 0 (length path + 1);
     fileName \<leftarrow> c_strcat fileName (str ''/'');
     fileName \<leftarrow> c_strcat fileName name;
     c_string fileName
   }"

definition file_entry :: "localtime \<Rightarrow> bytes \<Rightarrow> bytes \<Rightarrow> stat_info \<Rightarrow> bytes option" where
  "file_entry localtime fileType name info = do {
     fileInfo \<leftarrow> memcpy (replicate NR_MAXPACKLEN 0) 0 (name @ [0]) 0 (length name + 1);
     fileInfo \<leftarrow> c_strcat fileInfo (str '':'');
     fileInfo \<leftarrow> c_strcat fileInfo fileType;
     fileInfo \<leftarrow> c_strcat fileInfo (str '':'');
     newtime \<leftarrow> localtime (st_atime info);
     let text = time_text newtime (st_size info);
     tempTime \<leftarrow> memcpy (replicate 40 0) 0 (text @ [0]) 0 (length text + 1);
     text \<leftarrow> c_string tempTime;
     fileInfo \<leftarrow> c_strcat fileInfo text;
     c_string fileInfo
   }"

definition send_end :: "link \<Rightarrow> CCommonServer \<Rightarrow> CCommonServer option" where
  "send_end link s = send_text NR_MAXPACKLEN link MSG_GETALLFILEINFO (str ''?'') s"

text \<open>
  The loop over the entries of a directory. \<open>info\<close> keeps what the last call of \<^verbatim>\<open>stat\<close> that
  succeeded stored there. There is no buffer when the loop returned from the function.
\<close>

fun info_loop ::
  "stat \<Rightarrow> localtime \<Rightarrow> link \<Rightarrow> bytes \<Rightarrow> bytes \<Rightarrow> bytes list \<Rightarrow> bytes \<Rightarrow> stat_info \<Rightarrow> CCommonServer \<Rightarrow>
     (bytes option \<times> stat_info \<times> CCommonServer) option" where
  "info_loop stat localtime link path fileType [] strTemp info s = Some (Some strTemp, info, s)"
| "info_loop stat localtime link path fileType (name # names) strTemp info s =
     (if is_dot name then info_loop stat localtime link path fileType names strTemp info s
      else do {
        fileName \<leftarrow> file_name path name;
        let iState = stat fileName;
        let info = (case iState of None \<Rightarrow> info | Some i \<Rightarrow> i);
        if iState \<noteq> None \<and> st_isdir info then info_loop stat localtime link path fileType names strTemp info s
        else do {
          fileInfo \<leftarrow> file_entry localtime fileType name info;
          t \<leftarrow> c_string strTemp;
          (sent, strTemp, s) \<leftarrow>
            (if length t + length fileInfo > NR_MAXPACKLEN then do {
               (ok, s) \<leftarrow> SendData link MSG_GETALLFILEINFO strTemp (length t) s;
               Some (ok, replicate NR_MAXPACKLEN 0, s)
             }
             else Some (True, strTemp, s));
          if \<not> sent then do {
            s \<leftarrow> send_end link s;
            Some (None, info, s)
          }
          else do {
            t \<leftarrow> c_string strTemp;
            strTemp \<leftarrow> (if length t = 0 then memcpy strTemp 0 (fileInfo @ [0]) 0 (length fileInfo + 1)
                        else c_strcat strTemp fileInfo);
            info_loop stat localtime link path fileType names strTemp info s
          }
        }
      })"

text \<open>The characters up to a separator, \<open>n\<close> at most, and the rest from there on.\<close>

fun upto_sep :: "byte \<Rightarrow> nat \<Rightarrow> bytes \<Rightarrow> bytes \<times> bytes" where
  "upto_sep sep 0 cs = ([], cs)"
| "upto_sep sep (Suc n) [] = ([], [])"
| "upto_sep sep (Suc n) (c # cs) =
     (if c = sep then ([], c # cs) else (case upto_sep sep n cs of (f, r) \<Rightarrow> (c # f, r)))"

lemma upto_sep_length: "upto_sep sep n cs = (f, r) \<Longrightarrow> length r \<le> length cs"
  by (induction sep n cs arbitrary: f r rule: upto_sep.induct) (auto split: if_splits prod.splits)

lemma query_rest_shorter:
  assumes "data \<noteq> []" "(p, rest) = upto_sep 58 n data" "(f, rest') = upto_sep 63 m (if b then tl rest else rest)"
  shows "length (tl rest') < length data"
proof -
  have "length rest' \<le> length (if b then tl rest else rest)" using upto_sep_length [OF assms(3) [symmetric]] .
  moreover have "length rest \<le> length data" using upto_sep_length [OF assms(2) [symmetric]] .
  ultimately have "length rest' \<le> length data" by (auto split: if_splits)
  then show ?thesis using assms(1) by (cases rest') auto
qed

text \<open>
  The loop over the paths and types of the message. The number of directory streams that are
  open grows when the function returns in the middle of a directory.
\<close>

function query_loop ::
  "(bytes \<Rightarrow> bytes list option) \<Rightarrow> stat \<Rightarrow> localtime \<Rightarrow> link \<Rightarrow> bytes \<Rightarrow> bytes \<Rightarrow> stat_info \<Rightarrow>
     CCommonServer \<times> nat \<Rightarrow> (bytes option \<times> CCommonServer \<times> nat) option" where
  "query_loop opendir stat localtime link data strTemp info (s, streams) =
     (if data = [] then Some (Some strTemp, s, streams)
      else case upto_sep 58 MAX_FILENAME_LEN data of (p, rest) \<Rightarrow>
        case upto_sep 63 MAX_FILENAME_LEN
            (if length p < MAX_FILENAME_LEN \<and> rest \<noteq> [] then tl rest else rest) of (f, rest) \<Rightarrow> do {
          path \<leftarrow> memcpy (replicate MAX_FILENAME_LEN 0) 0 p 0 (length p);
          fileType \<leftarrow> memcpy (replicate MAX_FILENAME_LEN 0) 0 f 0 (length f);
          p \<leftarrow> c_string path;
          ask \<leftarrow> (if p \<noteq> [] then do {
                   f \<leftarrow> c_string fileType;
                   Some (if f \<noteq> [] then Some f else None)
                 }
                 else Some None);
          case (case ask of None \<Rightarrow> None | Some f \<Rightarrow> map_option (\<lambda>names. (f, names)) (opendir p)) of
            None \<Rightarrow> query_loop opendir stat localtime link (tl rest) strTemp info (s, streams)
          | Some (f, names) \<Rightarrow> do {
              (strTemp, info, s) \<leftarrow> info_loop stat localtime link p f names strTemp info s;
              case strTemp of
                None \<Rightarrow> Some (None, s, streams + 1)
              | Some strTemp \<Rightarrow> query_loop opendir stat localtime link (tl rest) strTemp info (s, streams)
            }
        })"
  by pat_completeness auto

termination
  by (relation "measure (\<lambda>(_, _, _, _, data, _). length data)")
    (simp, (simp only: in_measure prod.case, erule (2) query_rest_shorter)+)

declare query_loop.simps [simp del]

text \<open>\<open>junk\<close> is what the local variable \<open>info\<close> has in it before the first call of \<^verbatim>\<open>stat\<close>.\<close>

text \<open>What follows the loop.\<close>

definition send_last_info :: "link \<Rightarrow> bytes \<Rightarrow> CCommonServer \<Rightarrow> CCommonServer option" where
  "send_last_info link strTemp s = do {
     t \<leftarrow> c_string strTemp;
     (sent, strTemp, s) \<leftarrow>
       (if length t + 1 > NR_MAXPACKLEN then do {
          (ok, s) \<leftarrow> SendData link MSG_GETALLFILEINFO strTemp (length t) s;
          Some (ok, replicate NR_MAXPACKLEN 0, s)
        }
        else Some (True, strTemp, s));
     if \<not> sent then send_end link s
     else do {
       t \<leftarrow> c_string strTemp;
       strTemp \<leftarrow> (if length t = 0 then memcpy strTemp 0 (str ''?'' @ [0]) 0 2
                   else c_strcat strTemp (str ''?''));
       (ok, s) \<leftarrow> SendData link MSG_GETALLFILEINFO strTemp (strlen strTemp) s;
       if ok then Some s else send_end link s
     }
   }"

definition On_GETALLFILEINFO ::
  "(bytes \<Rightarrow> bytes list option) \<Rightarrow> stat \<Rightarrow> localtime \<Rightarrow> stat_info \<Rightarrow> link \<Rightarrow> bytes \<Rightarrow>
     CCommonServer \<times> nat \<Rightarrow> (CCommonServer \<times> nat) option" where
  "On_GETALLFILEINFO opendir stat localtime junk link data st = do {
     d \<leftarrow> c_string data;
     (strTemp, s, streams) \<leftarrow> query_loop opendir stat localtime link d (replicate NR_MAXPACKLEN 0) junk st;
     case strTemp of
       None \<Rightarrow> Some (s, streams)
     | Some strTemp \<Rightarrow> do {
         s \<leftarrow> send_last_info link strTemp s;
         Some (s, streams)
       }
   }"

subsection \<open>The entries\<close>

text \<open>What \<^verbatim>\<open>localtime\<close> documents of its result, for a year and a length that are \<^verbatim>\<open>int\<close>s.\<close>

definition time_ok :: "TIME \<Rightarrow> int \<Rightarrow> bool" where
  "time_ok t len \<longleftrightarrow> -(2 ^ 31) \<le> year t \<and> year t < 2 ^ 31 \<and> -(2 ^ 31) \<le> len \<and> len < 2 ^ 31 \<and>
     (\<forall>i \<in> {month t, day t, hour t, minute t, second t}. 0 \<le> i \<and> i < 100)"

lemma length_zfill: "length (zfill n ds) = max n (length ds)"
  by (simp add: zfill_def)

lemma dec0_length: "0 \<le> i \<Longrightarrow> i < 100 \<Longrightarrow> length (dec0 2 i) = 2"
  using length_digits [of "nat i" 2] by (simp add: dec0_def length_zfill)

lemma dec0_length4: "-(2 ^ 31) \<le> i \<Longrightarrow> i < 2 ^ 31 \<Longrightarrow> length (dec0 4 i) \<le> 11"
proof -
  assume i: "-(2 ^ 31) \<le> i" "i < 2 ^ 31"
  have "length (digits n) \<le> 10" if "n \<le> 2 ^ 31" for n using that by (intro length_digits) auto
  then have "length (digits (nat (- i))) \<le> 10" "length (digits (nat i)) \<le> 10" using i by auto
  then show ?thesis by (simp add: dec0_def length_zfill)
qed

lemma dec0_nul: "0 \<notin> set (str (dec0 n i))"
proof -
  have d: "0 \<notin> set (str (digits m))" for m using str_digits [of m] by force
  have "0 \<notin> set (str (zfill m (digits k)))" for m k using d [of k] by (auto simp: zfill_def str_def)
  then show ?thesis by (auto simp: dec0_def str_def)
qed

lemma str_append: "str (a @ b) = str a @ str b" "str (c # b) = of_char c # str b"
  by (simp_all add: str_def)

lemma time_text_props:
  assumes "time_ok t len"
  shows "0 \<notin> set (time_text t len)" "length (time_text t len) \<le> 39"
proof -
  have b: "-(2 ^ 31) \<le> len" "len < 2 ^ 31" "-(2 ^ 31) \<le> year t" "year t < 2 ^ 31"
    using assms by (auto simp: time_ok_def)
  have m: "length (dec0 2 i) = 2" if "i \<in> {month t, day t, hour t, minute t, second t}" for i
    using assms that by (intro dec0_length) (auto simp: time_ok_def)
  show "0 \<notin> set (time_text t len)"
    using dec0_nul str_dec_props(1) [OF b(1,2)] by (simp add: time_text_def str_append)
  show "length (time_text t len) \<le> 39"
    using m dec0_length4 [OF b(3,4)] str_dec_props(2) [OF b(1,2)] by (simp add: time_text_def)
qed

definition file_ok :: "stat \<Rightarrow> localtime \<Rightarrow> bytes \<Rightarrow> bytes \<Rightarrow> bool" where
  "file_ok stat localtime path n \<longleftrightarrow> good_name n \<and> length path + length n < 255 \<and>
     (\<exists>i t. stat (path @ 47 # n) = Some i \<and> localtime (st_atime i) = Some t \<and> time_ok t (st_size i))"

definition info_entry :: "stat \<Rightarrow> localtime \<Rightarrow> bytes \<Rightarrow> bytes \<Rightarrow> bytes \<Rightarrow> bytes" where
  "info_entry stat localtime path f n =
     (let i = the (stat (path @ 47 # n)) in n @ 58 # f @ 58 # time_text (the (localtime (st_atime i))) (st_size i))"

definition info_entries :: "stat \<Rightarrow> localtime \<Rightarrow> bytes \<Rightarrow> bytes \<Rightarrow> bytes list \<Rightarrow> bytes list" where
  "info_entries stat localtime path f names =
     map (info_entry stat localtime path f)
       (filter (\<lambda>n. \<not> is_dot n \<and> \<not> st_isdir (the (stat (path @ 47 # n)))) names)"

lemma file_name_eq:
  assumes "0 \<notin> set path" "good_name n" "length path + length n < 255"
  shows "file_name path n = Some (path @ 47 # n)"
proof -
  have m: "memcpy (replicate MAX_FILENAME_LEN 0) 0 (path @ [0]) 0 (Suc (length path)) = Some (pad MAX_FILENAME_LEN path)"
    using assms(3) by (simp add: pad_Nil memcpy_pad MAX_FILENAME_LEN_def)
  show ?thesis using assms
    by (simp add: file_name_def m [unfolded MAX_FILENAME_LEN_def] c_strcat_pad str_def good_name_def MAX_FILENAME_LEN_def)
qed

lemma file_entry_eq:
  assumes "good_name n" "0 \<notin> set f" "length f \<le> 255" "localtime (st_atime i) = Some t" "time_ok t (st_size i)"
  shows "file_entry localtime f n i = Some (n @ 58 # f @ 58 # time_text t (st_size i))"
proof -
  note tt = time_text_props [OF assms(5)]
  have n: "0 \<notin> set n" "length n \<le> 255" using assms(1) by (auto simp: good_name_def)
  have c: "str '':'' = [58]" by (simp add: str_def)
  have m: "memcpy (replicate NR_MAXPACKLEN 0) 0 (n @ [0]) 0 (Suc (length n)) = Some (pad NR_MAXPACKLEN n)"
    using n(2) by (simp add: pad_Nil memcpy_pad NR_MAXPACKLEN_def)
  have "memcpy (replicate 40 0) 0 (time_text t (st_size i) @ [0]) 0 (Suc (length (time_text t (st_size i)))) =
      Some (pad 40 (time_text t (st_size i)))"
    using tt(2) by (simp add: pad_Nil memcpy_pad)
  moreover have "c_string (pad 40 (time_text t (st_size i))) = Some (time_text t (st_size i))"
    using tt by simp
  ultimately show ?thesis
    using n assms(2-4) tt by (simp add: file_entry_def m [unfolded NR_MAXPACKLEN_def] c c_strcat_pad NR_MAXPACKLEN_def Let_def)
qed

lemma info_entry_props:
  assumes "file_ok stat localtime path n" "0 \<notin> set f" "length f \<le> 255"
  shows "0 \<notin> set (info_entry stat localtime path f n)" "length (info_entry stat localtime path f n) \<le> 551"
    "info_entry stat localtime path f n \<noteq> []"
    "stat (path @ 47 # n) = Some i \<Longrightarrow> file_entry localtime f n i = Some (info_entry stat localtime path f n)"
proof -
  obtain j t where j: "stat (path @ 47 # n) = Some j" "localtime (st_atime j) = Some t" "time_ok t (st_size j)" "good_name n"
    using assms(1) by (auto simp: file_ok_def)
  have e: "info_entry stat localtime path f n = n @ 58 # f @ 58 # time_text t (st_size j)"
    using j by (simp add: info_entry_def)
  show "0 \<notin> set (info_entry stat localtime path f n)" "length (info_entry stat localtime path f n) \<le> 551"
    "info_entry stat localtime path f n \<noteq> []"
    using time_text_props [OF j(3)] assms(2,3) j(4) by (auto simp: e good_name_def)
  show "file_entry localtime f n i = Some (info_entry stat localtime path f n)" if "stat (path @ 47 # n) = Some i"
    using file_entry_eq [where localtime = localtime, OF j(4) assms(2,3) j(2,3)] that j(1) by (simp add: e)
qed

subsection \<open>The pages\<close>

fun pages :: "bytes \<Rightarrow> bytes list \<Rightarrow> bytes list" where
  "pages t [] = [t]"
| "pages t (e # es) = (if NR_MAXPACKLEN < length t + length e then t # pages e es else pages (t @ e) es)"

lemma pages_not_Nil [simp]: "pages t es \<noteq> []"
  by (induction t es rule: pages.induct) simp_all

lemma concat_pages: "concat (pages t es) = t @ concat es"
  by (induction t es rule: pages.induct) simp_all

lemma pages_append: "pages t (es @ fs) = butlast (pages t es) @ pages (last (pages t es)) fs"
  by (induction t es rule: pages.induct) simp_all

text \<open>A page that is full to the last byte.\<close>

definition full_page :: "bytes list \<Rightarrow> bool" where
  "full_page ps \<longleftrightarrow> (\<exists>p \<in> set ps. length p = NR_MAXPACKLEN)"

lemma pages_full:
  assumes "length t = NR_MAXPACKLEN" "\<forall>e \<in> set es. e \<noteq> []"
  shows "full_page (pages t es)"
  using assms by (cases es) (auto simp: full_page_def)

lemma pages_nul: "0 \<notin> set t \<Longrightarrow> \<forall>e \<in> set es. 0 \<notin> set e \<Longrightarrow> p \<in> set (pages t es) \<Longrightarrow> 0 \<notin> set p"
  by (induction t es rule: pages.induct) (auto split: if_splits)

lemma pages_length:
  "length t \<le> NR_MAXPACKLEN \<Longrightarrow> \<forall>e \<in> set es. length e \<le> NR_MAXPACKLEN \<Longrightarrow> p \<in> set (pages t es) \<Longrightarrow>
     length p \<le> NR_MAXPACKLEN"
  by (induction t es rule: pages.induct) (auto split: if_splits)

definition log_info :: "link \<Rightarrow> bytes list \<Rightarrow> CCommonServer \<Rightarrow> CCommonServer" where
  "log_info link ps s = fold (logged link MSG_GETALLFILEINFO) ps s"

lemma log_info_simps [simp]:
  "log_info link [] s = s" "log_info link (p # ps) s = log_info link ps (logged link MSG_GETALLFILEINFO p s)"
  "log_info link (ps @ qs) s = log_info link qs (log_info link ps s)"
  by (simp_all add: log_info_def)

subsection \<open>The loops\<close>

text \<open>Appending an entry to the page.\<close>

lemma append_info:
  assumes "0 \<notin> set t" "length t < NR_MAXPACKLEN" "0 \<notin> set e" "length e \<le> 551"
  shows "(if length t = 0 then memcpy (pad NR_MAXPACKLEN t) 0 (e @ [0]) 0 (length e + 1)
      else c_strcat (pad NR_MAXPACKLEN t) e) =
    (if length t + length e < NR_MAXPACKLEN then Some (pad NR_MAXPACKLEN (t @ e)) else None)"
proof (cases "t = []")
  case True
  have "length e < NR_MAXPACKLEN" using assms(4) by (simp add: NR_MAXPACKLEN_def)
  then show ?thesis using True memcpy_pad [of e NR_MAXPACKLEN] by simp
next
  case False
  then show ?thesis using assms c_strcat_pad [of t e NR_MAXPACKLEN] by simp
qed

lemma info_loop_skips:
  assumes "0 \<notin> set path" "is_dot n \<or> file_ok stat localtime path n" "is_dot n \<or> stat (path @ 47 # n) = Some i \<and> st_isdir i"
  shows "\<exists>info'. info_loop stat localtime link path f (n # ns) strTemp info s = info_loop stat localtime link path f ns strTemp info' s"
    "info_entries stat localtime path f (n # ns) = info_entries stat localtime path f ns"
proof -
  show "info_entries stat localtime path f (n # ns) = info_entries stat localtime path f ns"
    using assms(3) by (auto simp: info_entries_def)
  show "\<exists>info'. info_loop stat localtime link path f (n # ns) strTemp info s = info_loop stat localtime link path f ns strTemp info' s"
  proof (cases "is_dot n")
    case False
    then have "file_name path n = Some (path @ 47 # n)"
      using assms(2) by (intro file_name_eq [OF assms(1)]) (auto simp: file_ok_def)
    then show ?thesis using assms(3) False by (intro exI [of _ i]) simp
  qed auto
qed

lemma info_loop_entry:
  assumes link: "\<forall>l t d. link l t d" and p: "0 \<notin> set path" and f: "0 \<notin> set f" "length f \<le> 255"
    and t: "0 \<notin> set t" "length t < NR_MAXPACKLEN" and n: "\<not> is_dot n" "file_ok stat localtime path n"
    and i: "stat (path @ 47 # n) = Some i" "\<not> st_isdir i"
  defines "e \<equiv> info_entry stat localtime path f n"
  shows "info_loop stat localtime link path f (n # ns) (pad NR_MAXPACKLEN t) info s =
    (if NR_MAXPACKLEN < length t + length e
     then info_loop stat localtime link path f ns (pad NR_MAXPACKLEN e) i (logged link MSG_GETALLFILEINFO t s)
     else if length t + length e = NR_MAXPACKLEN then None
     else info_loop stat localtime link path f ns (pad NR_MAXPACKLEN (t @ e)) i s)"
proof -
  have e: "0 \<notin> set e" "length e \<le> 551" "file_entry localtime f n i = Some e"
    using info_entry_props [OF n(2) f] i by (simp_all add: e_def)
  have le: "length e < NR_MAXPACKLEN" using e(2) by (simp add: NR_MAXPACKLEN_def)
  have fn: "file_name path n = Some (path @ 47 # n)"
    using n(2) by (intro file_name_eq [OF p]) (auto simp: file_ok_def)
  have ct: "c_string (pad NR_MAXPACKLEN t) = Some t" "c_string (pad NR_MAXPACKLEN []) = Some []"
    using t by (simp_all add: NR_MAXPACKLEN_def)
  note ap = append_info [OF t e(1,2)] append_info [OF _ _ e(1,2), of "[]"]
  consider "NR_MAXPACKLEN < length t + length e" | "length t + length e = NR_MAXPACKLEN"
    | "length t + length e < NR_MAXPACKLEN" by linarith
  then show ?thesis
  proof cases
    case 1
    then show ?thesis
      using n(1) fn i e(3) ct SendData_pad [of t NR_MAXPACKLEN link MSG_GETALLFILEINFO s] t(2) link ap(2) le
      by (simp add: pad_Nil)
  next
    case 2
    then show ?thesis using n(1) fn i e(3) ct(1) ap(1) by simp
  next
    case 3
    then show ?thesis using n(1) fn i e(3) ct(1) ap(1) by simp
  qed
qed

lemma info_loop_eq:
  assumes link: "\<forall>l t d. link l t d" and p: "0 \<notin> set path" and f: "0 \<notin> set f" "length f \<le> 255"
  shows "0 \<notin> set t \<Longrightarrow> length t < NR_MAXPACKLEN \<Longrightarrow>
    \<forall>n \<in> set names. is_dot n \<or> file_ok stat localtime path n \<Longrightarrow>
    ps = pages t (info_entries stat localtime path f names) \<Longrightarrow>
    if full_page ps then info_loop stat localtime link path f names (pad NR_MAXPACKLEN t) info s = None
    else \<exists>info'. info_loop stat localtime link path f names (pad NR_MAXPACKLEN t) info s =
      Some (Some (pad NR_MAXPACKLEN (last ps)), info', log_info link (butlast ps) s)"
proof (induction names arbitrary: t info s ps)
  case Nil
  then show ?case by (auto simp: info_entries_def full_page_def)
next
  case (Cons n ns)
  have rest: "\<forall>n \<in> set ns. is_dot n \<or> file_ok stat localtime path n" using Cons.prems(3) by simp
  show ?case
  proof (cases "is_dot n \<or> (\<exists>i. stat (path @ 47 # n) = Some i \<and> st_isdir i)")
    case True
    then obtain i where i: "is_dot n \<or> stat (path @ 47 # n) = Some i \<and> st_isdir i" by blast
    have "is_dot n \<or> file_ok stat localtime path n" using Cons.prems(3) by simp
    note sk = info_loop_skips [OF p this i]
    obtain info' where "info_loop stat localtime link path f (n # ns) (pad NR_MAXPACKLEN t) info s =
        info_loop stat localtime link path f ns (pad NR_MAXPACKLEN t) info' s"
      using sk(1) by blast
    then show ?thesis using Cons.IH [OF Cons.prems(1,2) rest refl] sk(2) Cons.prems(3,4) by simp
  next
    case False
    then have ok: "\<not> is_dot n" "file_ok stat localtime path n" using Cons.prems(3) by auto
    then obtain i where i: "stat (path @ 47 # n) = Some i" "\<not> st_isdir i" using False by (auto simp: file_ok_def)
    define e where "e = info_entry stat localtime path f n"
    define es where "es = info_entries stat localtime path f ns"
    have es: "info_entries stat localtime path f (n # ns) = e # es"
      using i ok by (simp add: info_entries_def es_def e_def)
    have e: "0 \<notin> set e" "length e \<le> 551" using info_entry_props [OF ok(2) f] i by (simp_all add: e_def)
    have le: "length e < NR_MAXPACKLEN" using e(2) by (simp add: NR_MAXPACKLEN_def)
    note step = info_loop_entry [OF link p f Cons.prems(1,2) ok i, of ns info s, folded e_def]
    consider (next_page) "NR_MAXPACKLEN < length t + length e" | (full) "length t + length e = NR_MAXPACKLEN"
      | (fits) "length (t @ e) < NR_MAXPACKLEN" by fastforce
    then show ?thesis
    proof cases
      case next_page
      then have "ps = t # pages e es" "full_page (t # pages e es) = full_page (pages e es)"
        using Cons.prems(2,4) es by (simp_all add: full_page_def)
      then show ?thesis
        using step next_page Cons.IH [OF e(1) le rest refl, of i "logged link MSG_GETALLFILEINFO t s"]
        by (simp add: es_def)
    next
      case full
      have "\<forall>x \<in> set es. x \<noteq> []" by (auto simp: es_def info_entries_def info_entry_def Let_def)
      then have "full_page ps" using pages_full [of "t @ e" es] full es Cons.prems(4) by simp
      then show ?thesis using step full by simp
    next
      case fits
      then show ?thesis
        using step Cons.IH [OF _ fits rest refl, of i s] Cons.prems(1,4) e(1) es by (simp add: es_def)
    qed
  qed
qed

text \<open>The request: a path and a type for each directory, the characters : and ? behind them.\<close>

definition request :: "(bytes \<times> bytes) list \<Rightarrow> bytes" where
  "request qs = concat (map (\<lambda>(p, f). p @ 58 # f @ [63]) qs)"

definition query_ok ::
  "(bytes \<Rightarrow> bytes list option) \<Rightarrow> stat \<Rightarrow> localtime \<Rightarrow> bytes \<times> bytes \<Rightarrow> bool" where
  "query_ok opendir stat localtime = (\<lambda>(p, f).
     p \<noteq> [] \<and> f \<noteq> [] \<and> 0 \<notin> set p \<and> 0 \<notin> set f \<and> 58 \<notin> set p \<and> 63 \<notin> set f \<and>
     length p \<le> 255 \<and> length f \<le> 255 \<and>
     (\<forall>names. opendir p = Some names \<longrightarrow> (\<forall>n \<in> set names. is_dot n \<or> file_ok stat localtime p n)))"

definition query_entries ::
  "(bytes \<Rightarrow> bytes list option) \<Rightarrow> stat \<Rightarrow> localtime \<Rightarrow> bytes \<times> bytes \<Rightarrow> bytes list" where
  "query_entries opendir stat localtime = (\<lambda>(p, f).
     case opendir p of None \<Rightarrow> [] | Some names \<Rightarrow> info_entries stat localtime p f names)"

lemma upto_sep_found: "sep \<notin> set p \<Longrightarrow> length p < n \<Longrightarrow> upto_sep sep n (p @ sep # r) = (p, sep # r)"
proof (induction p arbitrary: n)
  case Nil
  then show ?case by (cases n) simp_all
next
  case (Cons c p)
  then obtain m where "n = Suc m" by (cases n) auto
  then show ?case using Cons by auto
qed

lemma field_buffer:
  assumes "0 \<notin> set p" "length p \<le> 255"
  shows "memcpy (replicate MAX_FILENAME_LEN 0) 0 p 0 (length p) = Some (pad MAX_FILENAME_LEN p)"
    "c_string (pad MAX_FILENAME_LEN p) = Some p"
  using assms memcpy_pad_at [of "[]" "length p" MAX_FILENAME_LEN p]
  by (simp_all add: pad_Nil MAX_FILENAME_LEN_def)

lemma query_step:
  assumes "query_ok opendir stat localtime (p, f)"
  shows "query_loop opendir stat localtime link (p @ 58 # f @ 63 # r) strTemp info (s, k) =
    (case opendir p of
       None \<Rightarrow> query_loop opendir stat localtime link r strTemp info (s, k)
     | Some names \<Rightarrow> do {
         (strTemp, info, s) \<leftarrow> info_loop stat localtime link p f names strTemp info s;
         case strTemp of
           None \<Rightarrow> Some (None, s, k + 1)
         | Some strTemp \<Rightarrow> query_loop opendir stat localtime link r strTemp info (s, k)
       })"
proof -
  have q: "p \<noteq> []" "f \<noteq> []" "0 \<notin> set p" "0 \<notin> set f" "58 \<notin> set p" "63 \<notin> set f" "length p \<le> 255" "length f \<le> 255"
    using assms by (auto simp: query_ok_def)
  have u1: "upto_sep 58 MAX_FILENAME_LEN (p @ 58 # f @ 63 # r) = (p, 58 # f @ 63 # r)"
    using q by (intro upto_sep_found) (simp_all add: MAX_FILENAME_LEN_def)
  have u2: "upto_sep 63 MAX_FILENAME_LEN (f @ 63 # r) = (f, 63 # r)"
    using q by (intro upto_sep_found) (simp_all add: MAX_FILENAME_LEN_def)
  have lp: "length p < MAX_FILENAME_LEN" using q(7) by (simp add: MAX_FILENAME_LEN_def)
  show ?thesis
    by (subst query_loop.simps)
      (simp add: u1 u2 lp q(1,2) field_buffer [OF q(3,7)] field_buffer [OF q(4,8)] cong: option.case_cong split: option.split)
qed

lemma info_entries_small:
  assumes "query_ok opendir stat localtime q" "e \<in> set (query_entries opendir stat localtime q)"
  shows "0 \<notin> set e \<and> length e \<le> NR_MAXPACKLEN \<and> e \<noteq> []"
proof -
  obtain p f where q: "q = (p, f)" by (cases q)
  obtain names n where e: "opendir p = Some names" "n \<in> set names" "\<not> is_dot n"
      and n: "e = info_entry stat localtime p f n"
    using assms(2) by (cases "opendir p") (auto simp: q query_entries_def info_entries_def)
  have ok: "file_ok stat localtime p n" using assms(1) e by (auto simp: q query_ok_def)
  have f: "0 \<notin> set f" "length f \<le> 255" using assms(1) by (auto simp: q query_ok_def)
  show ?thesis using info_entry_props(1-3) [OF ok f] by (simp add: n NR_MAXPACKLEN_def)
qed

lemma last_page:
  assumes "0 \<notin> set t" "length t < NR_MAXPACKLEN" "\<forall>e \<in> set es. 0 \<notin> set e \<and> length e \<le> NR_MAXPACKLEN"
    "\<not> full_page (pages t es)"
  shows "0 \<notin> set (last (pages t es))" "length (last (pages t es)) < NR_MAXPACKLEN"
proof -
  have m: "last (pages t es) \<in> set (pages t es)" by simp
  show "0 \<notin> set (last (pages t es))" using pages_nul [OF assms(1) _ m] assms(3) by blast
  have "length (last (pages t es)) \<le> NR_MAXPACKLEN" using pages_length [OF _ _ m] assms(2,3) by simp
  moreover have "length (last (pages t es)) \<noteq> NR_MAXPACKLEN" using assms(4) m by (auto simp: full_page_def)
  ultimately show "length (last (pages t es)) < NR_MAXPACKLEN" by simp
qed

lemma full_page_append:
  "full_page (pages t (es @ fs)) \<longleftrightarrow>
     full_page (butlast (pages t es)) \<or> full_page (pages (last (pages t es)) fs)"
  by (auto simp: pages_append full_page_def)

lemma full_page_last: "full_page ps \<Longrightarrow> ps \<noteq> [] \<Longrightarrow> full_page (butlast ps) \<or> length (last ps) = NR_MAXPACKLEN"
  by (cases ps rule: rev_cases) (auto simp: full_page_def)

lemma full_page_prefix:
  assumes "full_page (pages t es)" "\<forall>e \<in> set fs. e \<noteq> []"
  shows "full_page (pages t (es @ fs))"
  using full_page_last [OF assms(1)] pages_full [OF _ assms(2)] by (auto simp: full_page_append)

lemma query_loop_eq:
  assumes link: "\<forall>l t d. link l t d"
  shows "\<forall>q \<in> set qs. query_ok opendir stat localtime q \<Longrightarrow> 0 \<notin> set t \<Longrightarrow> length t < NR_MAXPACKLEN \<Longrightarrow>
    ps = pages t (concat (map (query_entries opendir stat localtime) qs)) \<Longrightarrow>
    query_loop opendir stat localtime link (request qs) (pad NR_MAXPACKLEN t) info (s, k) =
      (if full_page ps then None
       else Some (Some (pad NR_MAXPACKLEN (last ps)), log_info link (butlast ps) s, k))"
proof (induction qs arbitrary: t info s ps)
  case Nil
  then show ?case by (simp add: request_def full_page_def query_loop.simps [where data = "[]"])
next
  case (Cons q qs)
  obtain p f where q: "q = (p, f)" by (cases q)
  have ok: "query_ok opendir stat localtime (p, f)" using Cons.prems(1) q by simp
  let ?E = "query_entries opendir stat localtime"
  have r: "request (q # qs) = p @ 58 # f @ 63 # request qs" by (simp add: request_def q)
  have ne: "\<forall>e \<in> set (concat (map ?E qs)). e \<noteq> []"
    using Cons.prems(1) info_entries_small [of opendir stat localtime] by auto
  have IH: "query_loop opendir stat localtime link (request qs) (pad NR_MAXPACKLEN u) info' (s', k) =
      (if full_page (pages u (concat (map ?E qs))) then None
       else Some (Some (pad NR_MAXPACKLEN (last (pages u (concat (map ?E qs))))),
         log_info link (butlast (pages u (concat (map ?E qs)))) s', k))"
    if "0 \<notin> set u" "length u < NR_MAXPACKLEN" for u info' s'
    using Cons.IH [OF _ that refl] Cons.prems(1) by simp
  show ?case
  proof (cases "opendir p")
    case None
    then have "?E q = []" by (simp add: query_entries_def q)
    then show ?thesis using None IH [OF Cons.prems(2,3)] Cons.prems(4) by (simp add: r query_step [OF ok])
  next
    case (Some names)
    let ?es = "info_entries stat localtime p f names"
    have E: "?E q = ?es" using Some by (simp add: query_entries_def q)
    have sm: "\<forall>e \<in> set ?es. 0 \<notin> set e \<and> length e \<le> NR_MAXPACKLEN"
      using info_entries_small [OF ok] E q by auto
    have il: "if full_page (pages t ?es) then info_loop stat localtime link p f names (pad NR_MAXPACKLEN t) info s = None
        else \<exists>info'. info_loop stat localtime link p f names (pad NR_MAXPACKLEN t) info s =
          Some (Some (pad NR_MAXPACKLEN (last (pages t ?es))), info', log_info link (butlast (pages t ?es)) s)"
      using ok Some Cons.prems(2,3) by (intro info_loop_eq [OF link]) (auto simp: query_ok_def)
    show ?thesis
    proof (cases "full_page (pages t ?es)")
      case True
      then have "full_page ps" using full_page_prefix [OF True ne] Cons.prems(4) by (simp add: E)
      then show ?thesis using True il Some by (simp add: r query_step [OF ok])
    next
      case False
      then obtain info' where i: "info_loop stat localtime link p f names (pad NR_MAXPACKLEN t) info s =
          Some (Some (pad NR_MAXPACKLEN (last (pages t ?es))), info', log_info link (butlast (pages t ?es)) s)"
        using il by auto
      note lp = last_page [OF Cons.prems(2,3) sm False]
      have ps: "ps = butlast (pages t ?es) @ pages (last (pages t ?es)) (concat (map ?E qs))"
        using Cons.prems(4) by (simp add: E pages_append)
      have "full_page (butlast (pages t ?es)) = False"
        using False by (auto simp: full_page_def dest: in_set_butlastD)
      then have "full_page ps = full_page (pages (last (pages t ?es)) (concat (map ?E qs)))"
        by (simp add: ps) (auto simp: full_page_def)
      then show ?thesis
        using i IH [OF lp] Some by (simp add: r query_step [OF ok] ps butlast_append)
    qed
  qed
qed

lemma last_info:
  assumes link: "\<forall>l t d. link l t d" and "c_string data = Some d"
    and loop: "query_loop opendir stat localtime link d (pad NR_MAXPACKLEN []) junk st =
      Some (Some (pad NR_MAXPACKLEN l), s, k)"
    and l: "0 \<notin> set l" "length l < NR_MAXPACKLEN"
  shows "On_GETALLFILEINFO opendir stat localtime junk link data st =
    (if length l = 2047 then None else Some (logged link MSG_GETALLFILEINFO (l @ [63]) s, k))"
proof -
  have m: "(if length l = 0 then memcpy (pad NR_MAXPACKLEN l) 0 (str ''?'' @ [0]) 0 2
      else c_strcat (pad NR_MAXPACKLEN l) (str ''?'')) =
    (if length l = 2047 then None else Some (pad NR_MAXPACKLEN (l @ [63])))"
  proof (cases "l = []")
    case True
    then show ?thesis using memcpy_pad [of "[63]" NR_MAXPACKLEN] by (simp add: str_def NR_MAXPACKLEN_def numeral_2_eq_2)
  next
    case False
    then show ?thesis using l by (auto simp: c_strcat_pad str_def NR_MAXPACKLEN_def)
  qed
  have c: "c_string (pad NR_MAXPACKLEN l) = Some l" using l by simp
  have sd: "SendData link MSG_GETALLFILEINFO (pad NR_MAXPACKLEN (l @ [63])) (strlen (pad NR_MAXPACKLEN (l @ [63]))) s =
      Some (True, logged link MSG_GETALLFILEINFO (l @ [63]) s)" if "length l \<noteq> 2047"
  proof -
    have n: "length (l @ [63]) < NR_MAXPACKLEN" "0 \<notin> set (l @ [63])"
      using that l by (simp_all add: NR_MAXPACKLEN_def)
    show ?thesis
      using link SendData_pad [of "l @ [63]" NR_MAXPACKLEN link MSG_GETALLFILEINFO s] strlen_pad [OF n(2,1)] n(1)
      by simp
  qed
  have nf: "\<not> NR_MAXPACKLEN < length l + 1" using l(2) by simp
  show ?thesis
    unfolding On_GETALLFILEINFO_def send_last_info_def assms(2) pad_Nil loop Option.bind.bind_lunit prod.case option.case c if_not_P [OF nf] m
    by (simp add: sd)
qed

subsection \<open>Properties\<close>

text \<open>
  C19: The answer to \<^verbatim>\<open>MSG_GETALLFILEINFO\<close> when every message is sent: for each path and type of the
  request, in order, the files of the directory that are no directories themselves, each once
  and with its name, the type, the time and the length; a path that cannot be opened adds
  nothing. The pages together are these entries, with a question mark behind the last. The
  handler writes past its buffer exactly when the entries fill a page to its last byte, or the
  last page up to the byte before. No directory stays open.
\<close>

theorem GETALLFILEINFO_lists_files:
  assumes "\<forall>l t d. link l t d" "c_string data = Some (request qs)"
    "\<forall>q \<in> set qs. query_ok opendir stat localtime q"
  shows "let es = concat (map (query_entries opendir stat localtime) qs); ps = pages [] es in
     On_GETALLFILEINFO opendir stat localtime junk link data (s, k) =
       (if (\<exists>p \<in> set ps. length p = 2048) \<or> length (last ps) = 2047 then None
        else Some (log_info link (butlast ps @ [last ps @ [63]]) s, k)) \<and>
     (\<forall>p \<in> set ps. length p \<le> 2048) \<and> concat ps = concat es"
proof -
  define es where "es = concat (map (query_entries opendir stat localtime) qs)"
  define ps where "ps = pages [] es"
  have sm: "\<forall>e \<in> set es. 0 \<notin> set e \<and> length e \<le> NR_MAXPACKLEN"
    using assms(3) info_entries_small [of opendir stat localtime] by (auto simp: es_def)
  have q: "query_loop opendir stat localtime link (request qs) (pad NR_MAXPACKLEN []) junk (s, k) =
      (if full_page ps then None
       else Some (Some (pad NR_MAXPACKLEN (last ps)), log_info link (butlast ps) s, k))"
    using query_loop_eq [OF assms(1,3), of "[]"] by (simp add: ps_def es_def NR_MAXPACKLEN_def)
  have f: "full_page ps \<longleftrightarrow> (\<exists>p \<in> set ps. length p = 2048)" by (simp add: full_page_def NR_MAXPACKLEN_def)
  have "On_GETALLFILEINFO opendir stat localtime junk link data (s, k) =
       (if (\<exists>p \<in> set ps. length p = 2048) \<or> length (last ps) = 2047 then None
        else Some (log_info link (butlast ps @ [last ps @ [63]]) s, k))"
  proof (cases "full_page ps")
    case True
    then show ?thesis using f q by (simp add: On_GETALLFILEINFO_def assms(2) pad_Nil)
  next
    case False
    have "0 \<notin> set (last ps)" "length (last ps) < NR_MAXPACKLEN"
      using last_page [of "[]" es] sm False by (simp_all add: ps_def NR_MAXPACKLEN_def)
    then show ?thesis
      using last_info [where opendir = opendir, OF assms(1,2)] q False f by simp
  qed
  moreover have "\<forall>p \<in> set ps. length p \<le> 2048"
    using pages_length [of "[]" es] sm by (simp add: ps_def NR_MAXPACKLEN_def)
  moreover have "concat ps = concat es" by (simp add: ps_def concat_pages)
  ultimately show ?thesis unfolding Let_def es_def [symmetric] ps_def [symmetric] by blast
qed

theorem GETALLFILEINFO_lists_files_witness:
  "On_GETALLFILEINFO (\<lambda>p. if p = [47] then Some [[46], [97]] else None)
     (\<lambda>_. Some \<lparr>st_isdir = False, st_atime = 0, st_size = 7\<rparr>)
     (\<lambda>_. Some \<lparr>year = 113, month = 4, day = 8, hour = 0, minute = 0, second = 0\<rparr>)
     \<lparr>st_isdir = True, st_atime = 0, st_size = 0\<rparr> (\<lambda>_ _ _. True)
     (request [([47], [98]), ([99], [98])] @ [0]) (CCommonServer_new None 0 no_memory, 0) =
   Some (logged (\<lambda>_ _ _. True) MSG_GETALLFILEINFO
     (97 # 58 # 98 # 58 # str ''0113-04-08-00-00-00:7'' @ [13, 63]) (CCommonServer_new None 0 no_memory), 0)"
proof -
  let ?o = "\<lambda>p. if p = [47] then Some [[46], [97]] else (None :: bytes list option)"
  let ?st = "\<lambda>_ :: bytes. Some \<lparr>st_isdir = False, st_atime = 0, st_size = 7\<rparr>"
  let ?t = "\<lparr>year = 113, month = 4, day = 8, hour = 0, minute = 0, second = 0\<rparr>"
  let ?lt = "\<lambda>_ :: int. Some ?t" and ?qs = "[([47], [98]), ([99], [98])] :: (bytes \<times> bytes) list"
  have c: "c_string (request ?qs @ [0]) = Some (request ?qs)"
    by (simp add: request_def c_string_def cstr_def)
  have tt: "time_text ?t 7 = str ''0113-04-08-00-00-00:7'' @ [13]"
    by (simp add: time_text_def dec0_def zfill_def digits.simps dec_def char_of_def bit_0)
  have ok: "\<forall>q \<in> set ?qs. query_ok ?o ?st ?lt q"
    by (simp add: query_ok_def is_dot_def str_def file_ok_def good_name_def time_ok_def)
  have e: "concat (map (query_entries ?o ?st ?lt) ?qs) = [97 # 58 # 98 # 58 # str ''0113-04-08-00-00-00:7'' @ [13]]"
    by (simp add: query_entries_def info_entries_def info_entry_def is_dot_def tt) (simp add: str_def)
  show ?thesis
    using GETALLFILEINFO_lists_files [where opendir = ?o and link = "\<lambda>_ _ _. True" and stat = ?st and localtime = ?lt
        and s = "CCommonServer_new None 0 no_memory" and k = 0, OF _ c ok]
    unfolding e by (simp add: NR_MAXPACKLEN_def)
qed

text \<open>
  The answer for one file: six numbers, and the length. The date is that of the last access; for
  a file that cannot be found all numbers are 0.
\<close>

lemma GETFILEINFO_eq:
  assumes "c_string data = Some p" "stat p = Some i" "localtime (st_atime i) = Some t"
  shows "On_GETFILEINFO stat localtime link data s =
    Some (logged link MSG_GETFILEINFO (TIME_bytes t @ le32 (word_of_int (st_size i))) s)"
proof -
  have l: "length (TIME_bytes t) = 24" by (simp add: TIME_bytes_def)
  have "memcpy (pad NR_MAXPACKLEN []) 0 (TIME_bytes t) 0 24 = Some (pad NR_MAXPACKLEN (TIME_bytes t))"
    using memcpy_pad_at [of "[]" 24 NR_MAXPACKLEN "TIME_bytes t"] l by (simp add: NR_MAXPACKLEN_def)
  moreover have "memcpy (pad NR_MAXPACKLEN (TIME_bytes t)) 24 (le32 (word_of_int (st_size i))) 0 4 =
      Some (pad NR_MAXPACKLEN (TIME_bytes t @ le32 (word_of_int (st_size i))))"
    using memcpy_pad_at [of "TIME_bytes t" 4 NR_MAXPACKLEN "le32 (word_of_int (st_size i))"] l
    by (simp add: NR_MAXPACKLEN_def)
  moreover have "SendData link MSG_GETFILEINFO (pad NR_MAXPACKLEN (TIME_bytes t @ le32 (word_of_int (st_size i)))) 28 s =
      Some (link (sv_log s) MSG_GETFILEINFO (TIME_bytes t @ le32 (word_of_int (st_size i))),
        logged link MSG_GETFILEINFO (TIME_bytes t @ le32 (word_of_int (st_size i))) s)"
    using SendData_pad [of "TIME_bytes t @ le32 (word_of_int (st_size i))" NR_MAXPACKLEN link MSG_GETFILEINFO s] l
    by (simp add: NR_MAXPACKLEN_def)
  ultimately show ?thesis
    using assms by (simp add: On_GETFILEINFO_def SIZEOF_TIME_def SIZEOF_FILEINFO_def pad_Nil Let_def)
qed

text \<open>A path of 256 characters fills its buffer, which then has no end.\<close>

lemma long_path_overruns:
  assumes "length p = 256" "0 \<notin> set p" "58 \<notin> set p"
  shows "On_GETALLFILEINFO opendir stat localtime junk link (p @ 58 # r @ [0]) st = None"
proof -
  have "upto_sep 58 256 (p @ xs) = (p, xs)" for xs
  proof -
    have "58 \<notin> set u \<Longrightarrow> upto_sep 58 (length u) (u @ xs) = (u, xs)" for u
      by (induction u) auto
    from this [of p] show ?thesis using assms by simp
  qed
  moreover have "cstr (p @ 58 # r @ [0]) = p @ cstr (58 # r @ [0])"
    using assms(2) by (auto simp: cstr_def takeWhile_append)
  moreover have "c_string (pad 256 p) = None" using assms(1,2) by (simp add: pad_def c_string_None)
  moreover have "memcpy (replicate 256 0) 0 p 0 256 = Some (pad 256 p)"
    using assms(1) memcpy_pad_at [of "[]" 256 256 p] by (simp add: pad_Nil)
  moreover have "p \<noteq> []" using assms(1) by auto
  ultimately show ?thesis
    using assms(1)
    by (cases st) (auto simp: On_GETALLFILEINFO_def c_string_def query_loop.simps [where data = "p @ _"]
        MAX_FILENAME_LEN_def split: prod.splits)
qed

end
