(* ===== verification/Dispatch.thy ===== *)
theory Dispatch
  imports DeviceCommands Commands MemoryScript FileTransfer FileInfo
begin

text \<open>
  \<^verbatim>\<open>CCommonServer::OnReceived\<close> (\<^verbatim>\<open>common/CommonServer.cpp\<close>) as a whole: the switch over the type of
  the message, the loops in which a message waits for the thread of the previous one, and the
  answer to unknown messages.
\<close>

definition MSG_GETFILE_CANCEL :: u32 where "MSG_GETFILE_CANCEL = 0x103"
definition MSG_SENDFILENAME :: u32 where "MSG_SENDFILENAME = 0x107"
definition MSG_READMEMORY_CANCEL :: u32 where "MSG_READMEMORY_CANCEL = 0x115"
definition MSG_CMD_CANCEL :: u32 where "MSG_CMD_CANCEL = 0x117"
definition MSG_MEMORYSCRIPT :: u32 where "MSG_MEMORYSCRIPT = 0x118"
definition MSG_MEMORYSCRIPT_CANCEL :: u32 where "MSG_MEMORYSCRIPT_CANCEL = 0x120"

lemmas msg_types =
  MSG_GETCATALOG_def MSG_CHECKFILEEXISTS_def MSG_GETFILE_def MSG_GETFILE_CANCEL_def
  MSG_GETFILELENGTH_def MSG_SENDFILE_def MSG_SENDFILE_CANCEL_def MSG_SENDFILENAME_def
  MSG_GETFILECREATEDATE_def MSG_GETSERIALNUMBER_def MSG_SETSERIALNUMBER_def MSG_GETMAC_def
  MSG_SETMAC_def MSG_READMEMORY_def MSG_WRITEMEMORY_def MSG_READMEMORY_CANCEL_def MSG_CMD_def
  MSG_CMD_CANCEL_def MSG_MEMORYSCRIPT_def MSG_MEMORYSCRIPT_START_def MSG_MEMORYSCRIPT_CANCEL_def
  MSG_MEMORYSCRIPT_FINISH_def MSG_GETBOARDTYPE_def MSG_READMODULEBUF_def MSG_WRITEMODULEBUF_def
  MSG_WRITEOPTION_def MSG_GETFILEINFO_def MSG_GETSERIALNUMBERALL_def MSG_GETVERSION_def
  MSG_GETALLFILEINFO_def

subsection \<open>The world around the server\<close>

text \<open>
  What the handlers call: the slots of the instrument, the file system (with the directory
  entries, \<^verbatim>\<open>stat\<close> and \<^verbatim>\<open>localtime\<close>), \<^verbatim>\<open>malloc\<close>, what the local variable \<^verbatim>\<open>info\<close> has in it at first,
  whether an unset pointer happens to be usable, and the connection.
\<close>

record 'd world =
  w_link :: link
  w_os :: os
  w_posix :: "'d posix"
  w_opendir :: "'d \<Rightarrow> bytes \<Rightarrow> bytes list option"
  w_stat :: "'d \<Rightarrow> stat"
  w_localtime :: localtime
  w_malloc :: "nat \<Rightarrow> bytes option"
  w_junk :: stat_info
  w_wild :: bool

text \<open>The server, the three stores of options, the file system and the number of open directories.\<close>

record ('a, 'b, 'c, 'd) server =
  srv :: CCommonServer
  stores :: "('a, 'b, 'c) board"
  files :: 'd
  dirs :: nat

definition on_srv ::
  "(CCommonServer \<Rightarrow> CCommonServer option) \<Rightarrow> ('a, 'b, 'c, 'd) server \<Rightarrow> ('a, 'b, 'c, 'd) server option" where
  "on_srv f st = map_option (\<lambda>s. st\<lparr>srv := s\<rparr>) (f (srv st))"

definition on_stores ::
  "(CCommonServer \<times> ('a, 'b, 'c) board \<Rightarrow> (CCommonServer \<times> ('a, 'b, 'c) board) option) \<Rightarrow>
     ('a, 'b, 'c, 'd) server \<Rightarrow> ('a, 'b, 'c, 'd) server option" where
  "on_stores f st = map_option (\<lambda>(s, b). st\<lparr>srv := s, stores := b\<rparr>) (f (srv st, stores st))"

definition on_files ::
  "(CCommonServer \<times> 'd \<Rightarrow> (CCommonServer \<times> 'd) option) \<Rightarrow>
     ('a, 'b, 'c, 'd) server \<Rightarrow> ('a, 'b, 'c, 'd) server option" where
  "on_files f st = map_option (\<lambda>(s, d). st\<lparr>srv := s, files := d\<rparr>) (f (srv st, files st))"

definition on_dirs ::
  "(CCommonServer \<times> nat \<Rightarrow> (CCommonServer \<times> nat) option) \<Rightarrow>
     ('a, 'b, 'c, 'd) server \<Rightarrow> ('a, 'b, 'c, 'd) server option" where
  "on_dirs f st = map_option (\<lambda>(s, k). st\<lparr>srv := s, dirs := k\<rparr>) (f (srv st, dirs st))"

lemmas on_defs = on_srv_def on_stores_def on_files_def on_dirs_def

definition is_dir :: "stat \<Rightarrow> bytes \<Rightarrow> bool" where
  "is_dir stat p \<longleftrightarrow> (case stat p of None \<Rightarrow> False | Some i \<Rightarrow> st_isdir i)"

subsection \<open>The switch\<close>

text \<open>The handlers of three messages wait until the thread of the previous one has ended.\<close>

definition must_wait :: "u32 \<Rightarrow> CCommonServer \<Rightarrow> bool" where
  "must_wait type s \<longleftrightarrow>
     type = MSG_GETFILE \<and> m_threadDownFile s \<or>
     type = MSG_READMEMORY \<and> m_threadReadMemory s \<or>
     type = MSG_CMD \<and> m_threadCMD s"

definition On_unknown :: "link \<Rightarrow> u32 \<Rightarrow> CCommonServer \<Rightarrow> CCommonServer option" where
  "On_unknown link type s = do {
     (_, s) \<leftarrow> SendData link type [] 0 s;
     Some s
   }"

text \<open>\<open>created\<close> is whether \<^verbatim>\<open>pthread_create\<close> succeeds, if the message starts a thread.\<close>

definition handle ::
  "'d world \<Rightarrow> bool \<Rightarrow> u32 \<Rightarrow> bytes \<Rightarrow> nat \<Rightarrow> ('a, 'b, 'c, 'd) server \<Rightarrow> ('a, 'b, 'c, 'd) server option" where
  "handle w created type data len st =
     (let link = w_link w; os = w_os w; px = w_posix w; d = files st in
      if type = MSG_GETCATALOG then on_dirs (On_GETCATALOG (w_opendir w d) (is_dir (w_stat w d)) link data) st
      else if type = MSG_CHECKFILEEXISTS then on_srv (On_CHECKFILEEXISTS px link data d) st
      else if type = MSG_GETFILE then on_srv (On_GETFILE created data len) st
      else if type = MSG_GETFILE_CANCEL then on_srv (Some \<circ> On_GETFILE_CANCEL) st
      else if type = MSG_SENDFILE then on_files (On_SENDFILE px link data len) st
      else if type = MSG_SENDFILE_CANCEL then on_srv (Some \<circ> On_SENDFILE_CANCEL) st
      else if type = MSG_SENDFILENAME then on_files (On_SENDFILENAME px link data len) st
      else if type = MSG_GETFILELENGTH then on_srv (On_GETFILELENGTH px link data d) st
      else if type = MSG_GETFILECREATEDATE then on_srv (On_GETFILECREATEDATE (w_stat w d) (w_localtime w) link data) st
      else if type = MSG_GETFILEINFO then on_srv (On_GETFILEINFO (w_stat w d) (w_localtime w) link data) st
      else if type = MSG_GETSERIALNUMBER then on_stores (On_GETSERIALNUMBER os link) st
      else if type = MSG_GETSERIALNUMBERALL then on_stores (On_GETSERIALNUMBERALL os link) st
      else if type = MSG_SETSERIALNUMBER then on_stores (On_SETSERIALNUMBER link data) st
      else if type = MSG_GETMAC then on_stores (On_GETMAC os link) st
      else if type = MSG_SETMAC then on_stores (On_SETMAC link data) st
      else if type = MSG_READMEMORY_CANCEL then on_srv (Some \<circ> On_READMEMORY_CANCEL) st
      else if type = MSG_READMEMORY then on_srv (On_READMEMORY created data) st
      else if type = MSG_WRITEMEMORY then on_srv (On_WRITEMEMORY (w_wild w) link data) st
      else if type = MSG_CMD then on_srv (On_CMD created data len) st
      else if type = MSG_CMD_CANCEL then on_srv (Some \<circ> On_CMD_CANCEL) st
      else if type = MSG_MEMORYSCRIPT_START then on_srv (On_MEMORYSCRIPT_START (w_malloc w) link data) st
      else if type = MSG_MEMORYSCRIPT then on_srv (On_MEMORYSCRIPT created data len) st
      else if type = MSG_MEMORYSCRIPT_CANCEL then on_srv (Some \<circ> On_MEMORYSCRIPT_CANCEL) st
      else if type = MSG_GETBOARDTYPE then on_srv (On_GETBOARDTYPE os link data) st
      else if type = MSG_READMODULEBUF then on_stores (On_READMODULEBUF os link data) st
      else if type = MSG_WRITEMODULEBUF then on_stores (On_WRITEMODULEBUF os link data len) st
      else if type = MSG_WRITEOPTION then on_stores (On_WRITEOPTION os link data) st
      else if type = MSG_GETVERSION then on_srv (On_GETVERSION link) st
      else if type = MSG_GETALLFILEINFO then
        on_dirs (On_GETALLFILEINFO (w_opendir w d) (w_stat w d) (w_localtime w) (w_junk w) link data) st
      else on_srv (On_unknown link type) st)"

text \<open>A pass of \<^verbatim>\<open>OnReceived\<close>: it sleeps and tests again, or it does its work.\<close>

datatype 'x turn = Waits | Handled 'x

definition OnReceived ::
  "'d world \<Rightarrow> bool \<Rightarrow> u32 \<Rightarrow> bytes \<Rightarrow> nat \<Rightarrow> ('a, 'b, 'c, 'd) server \<Rightarrow>
     ('a, 'b, 'c, 'd) server turn option" where
  "OnReceived w created type data len st =
     (if must_wait type (srv st) then Some Waits
      else map_option Handled (handle w created type data len st))"

subsection \<open>What a handler leaves alone\<close>

text \<open>Nothing has changed but that messages of one type were sent.\<close>

definition grows :: "u32 \<Rightarrow> CCommonServer \<Rightarrow> CCommonServer \<Rightarrow> bool" where
  "grows T s s' \<longleftrightarrow> (\<exists>l. s' = s\<lparr>sv_log := sv_log s @ l\<rparr> \<and> (\<forall>m \<in> set l. fst m = T))"

lemma grows_refl [simp, intro]: "grows T s s"
  by (auto simp: grows_def intro: exI [of _ "[]"])

lemma grows_trans: "grows T s s' \<Longrightarrow> grows T s' s'' \<Longrightarrow> grows T s s''"
proof -
  assume a: "grows T s s'" "grows T s' s''"
  obtain l where l: "s' = s\<lparr>sv_log := sv_log s @ l\<rparr>" "\<forall>m \<in> set l. fst m = T"
    using a(1) by (auto simp: grows_def)
  obtain k where k: "s'' = s'\<lparr>sv_log := sv_log s' @ k\<rparr>" "\<forall>m \<in> set k. fst m = T"
    using a(2) by (auto simp: grows_def)
  have "s'' = s\<lparr>sv_log := sv_log s @ (l @ k)\<rparr>" "\<forall>m \<in> set (l @ k). fst m = T" using l k by auto
  then show ?thesis unfolding grows_def by blast
qed

lemma grows_logged: "grows T s (logged link T data s)"
  by (auto simp: grows_def logged_def)

lemma SendData_grows: "SendData link T data n s = Some (ok, s') \<Longrightarrow> grows T s s'"
  by (auto simp: SendData_def Let_def grows_def split: if_splits)

lemma SendData_type_grows: "SendData_type link T s = Some (ok, s') \<Longrightarrow> grows T s s'"
  by (auto simp: SendData_type_logged intro: grows_logged)

lemma send_text_grows: "send_text n link T text s = Some s' \<Longrightarrow> grows T s s'"
  by (auto simp: send_text_def dest: SendData_grows split: bind_splits)

lemmas sends = SendData_grows SendData_type_grows send_text_grows

text \<open>And at least one was.\<close>

definition answers :: "u32 \<Rightarrow> CCommonServer \<Rightarrow> CCommonServer \<Rightarrow> bool" where
  "answers T s s' \<longleftrightarrow> grows T s s' \<and> length (sv_log s) < length (sv_log s')"

lemma answers_grows: "answers T s s' \<Longrightarrow> grows T s s'"
  by (simp add: answers_def)

lemma grows_length: "grows T s s' \<Longrightarrow> length (sv_log s) \<le> length (sv_log s')"
  by (auto simp: grows_def)

lemma answers_trans:
  "grows T s s' \<Longrightarrow> answers T s' s'' \<Longrightarrow> answers T s s''"
  "answers T s s' \<Longrightarrow> grows T s' s'' \<Longrightarrow> answers T s s''"
  using grows_trans grows_length by (fastforce simp: answers_def)+

lemma SendData_answers: "SendData link T data n s = Some (ok, s') \<Longrightarrow> answers T s s'"
  by (auto simp: SendData_def Let_def answers_def grows_def split: if_splits)

lemma SendData_type_answers: "SendData_type link T s = Some (ok, s') \<Longrightarrow> answers T s s'"
  by (auto simp: SendData_type_def dest: SendData_answers)

lemma send_text_answers: "send_text n link T text s = Some s' \<Longrightarrow> answers T s s'"
  by (auto simp: send_text_def dest: SendData_answers split: bind_splits)

lemmas answer_sends = SendData_answers SendData_type_answers send_text_answers

lemma catalog_loop_grows:
  "catalog_loop isdir link path names strTemp s = Some (r, s') \<Longrightarrow>
     grows MSG_GETCATALOG s s' \<and> (r = None \<longrightarrow> answers MSG_GETCATALOG s s')"
proof (induction names arbitrary: strTemp s r s')
  case (Cons name names)
  show ?case using Cons.prems
    by (auto simp: bind_eq_Some_conv send_query_def split: if_splits
        dest!: answer_sends Cons.IH intro: grows_trans answers_trans answers_grows)
qed simp

lemma info_loop_grows:
  "info_loop stat localtime link path f names strTemp info s = Some (r, i, s') \<Longrightarrow>
     grows MSG_GETALLFILEINFO s s' \<and> (r = None \<longrightarrow> answers MSG_GETALLFILEINFO s s')"
proof (induction names arbitrary: strTemp info s r i s')
  case (Cons name names)
  show ?case using Cons.prems
    by (auto simp: bind_eq_Some_conv send_end_def Let_def split: if_splits
        dest!: answer_sends Cons.IH intro: grows_trans answers_trans answers_grows)
qed simp

lemma query_loop_grows:
  "query_loop opendir stat localtime link data strTemp info (s, k) = Some (r, s', k') \<Longrightarrow>
     grows MSG_GETALLFILEINFO s s' \<and> k \<le> k' \<and> (r = None \<longrightarrow> answers MSG_GETALLFILEINFO s s')"
proof (induction "length data" arbitrary: data strTemp info s k r s' k' rule: less_induct)
  case less
  show ?case
  proof (cases "data = []")
    case True
    then show ?thesis using less.prems by (subst (asm) query_loop.simps) auto
  next
    case False
    obtain p rest where u: "upto_sep 58 MAX_FILENAME_LEN data = (p, rest)" by (cases "upto_sep 58 MAX_FILENAME_LEN data")
    obtain f rest' where v: "upto_sep 63 MAX_FILENAME_LEN
        (if length p < MAX_FILENAME_LEN \<and> rest \<noteq> [] then tl rest else rest) = (f, rest')"
      by (cases "upto_sep 63 MAX_FILENAME_LEN
        (if length p < MAX_FILENAME_LEN \<and> rest \<noteq> [] then tl rest else rest)")
    note IH = less.hyps [OF query_rest_shorter [OF False u [symmetric] v [symmetric]]]
    show ?thesis using less.prems
      by (subst (asm) query_loop.simps)
        (auto simp: False u v bind_eq_Some_conv split: if_splits option.splits
          dest!: info_loop_grows IH;
         meson grows_trans answers_trans answers_grows)
  qed
qed

lemma GETCATALOG_answers:
  assumes "On_GETCATALOG opendir isdir link data (s, k) = Some (s', k')"
  shows "answers MSG_GETCATALOG s s' \<and> k \<le> k'"
proof -
  obtain path where p: "c_string data = Some path"
    using assms by (auto simp: On_GETCATALOG_def bind_eq_Some_conv)
  show ?thesis
  proof (cases "if path \<noteq> [] then opendir path else None")
    case None
    then show ?thesis using assms p
      by (auto simp: On_GETCATALOG_def send_query_def bind_eq_Some_conv simp del: split_paired_Ex dest!: answer_sends)
  next
    case (Some names)
    show ?thesis
    proof (cases names)
      case Nil
      then show ?thesis using assms p Some
        by (auto simp: On_GETCATALOG_def send_query_def bind_eq_Some_conv dest!: answer_sends)
    next
      case (Cons n ns)
      obtain b r s1 where l: "catalog_loop isdir link path ns b s = Some (r, s1)"
          "(case r of None \<Rightarrow> Some (s1, k + 1)
            | Some strTemp \<Rightarrow> do {
                t \<leftarrow> c_string strTemp;
                strTemp \<leftarrow> (if 0 < length t then c_strcat strTemp (str ''?'') else memcpy strTemp 0 (str ''?'') 0 1);
                (ok, s) \<leftarrow> SendData link MSG_GETCATALOG strTemp (strlen strTemp) s1;
                s \<leftarrow> (if ok then Some s else send_query link s);
                Some (s, k + 1)
              }) = Some (s', k')"
        using assms unfolding On_GETCATALOG_def prod.case p Option.bind.bind_lunit Some option.case Cons list.case Let_def
        by (auto simp: bind_eq_Some_conv)
      have "k \<le> k'" "r \<noteq> None \<longrightarrow> answers MSG_GETCATALOG s1 s'" "r = None \<longrightarrow> s' = s1"
        using l(2) by (auto simp: send_query_def bind_eq_Some_conv split: option.splits if_splits dest!: answer_sends intro: answers_trans answers_grows)
      then show ?thesis using catalog_loop_grows [OF l(1)] by (cases r) (auto intro: answers_trans)
    qed
  qed
qed

lemma GETALLFILEINFO_answers:
  assumes "On_GETALLFILEINFO opendir stat localtime junk link data (s, k) = Some (s', k')"
  shows "answers MSG_GETALLFILEINFO s s' \<and> k \<le> k'"
proof -
  obtain d r s1 k1 where "query_loop opendir stat localtime link d (replicate NR_MAXPACKLEN 0) junk (s, k) = Some (r, s1, k1)"
      and r: "(case r of None \<Rightarrow> Some (s1, k1)
        | Some strTemp \<Rightarrow> do {
            s \<leftarrow> send_last_info link strTemp s1;
            Some (s, k1)
          }) = Some (s', k')"
    using assms unfolding On_GETALLFILEINFO_def by (auto simp: bind_eq_Some_conv)
  then have q: "grows MSG_GETALLFILEINFO s s1 \<and> k \<le> k1 \<and> (r = None \<longrightarrow> answers MSG_GETALLFILEINFO s s1)"
    using query_loop_grows by blast
  have "k1 \<le> k' \<and> (if r = None then s' = s1 else answers MSG_GETALLFILEINFO s1 s')"
  proof (cases r)
    case None
    then show ?thesis using r by simp
  next
    case (Some b)
    then show ?thesis using r
      by (auto simp: send_last_info_def send_end_def bind_eq_Some_conv split: if_splits dest!: answer_sends
          intro: answers_trans answers_grows)
  qed
  then show ?thesis using q by (auto intro: answers_trans split: if_splits)
qed

lemma question_answers:
  "On_CHECKFILEEXISTS px link data d s = Some s' \<Longrightarrow> answers MSG_CHECKFILEEXISTS s s'"
  "On_GETFILELENGTH px link data d s = Some s' \<Longrightarrow> answers MSG_GETFILELENGTH s s'"
  "On_GETFILECREATEDATE stat localtime link data s = Some s' \<Longrightarrow> answers MSG_GETFILECREATEDATE s s'"
  "On_GETFILEINFO stat localtime link data s = Some s' \<Longrightarrow> answers MSG_GETFILEINFO s s'"
  "On_WRITEMEMORY wild link data s = Some s' \<Longrightarrow> answers MSG_WRITEMEMORY s s'"
  "On_GETBOARDTYPE os link data s = Some s' \<Longrightarrow> answers MSG_GETBOARDTYPE s s'"
  "On_GETVERSION link s = Some s' \<Longrightarrow> answers MSG_GETVERSION s s'"
  "On_unknown link type s = Some s' \<Longrightarrow> answers type s s'"
  by (auto simp: On_CHECKFILEEXISTS_def On_GETFILELENGTH_def On_GETFILECREATEDATE_def On_GETFILEINFO_def
      On_WRITEMEMORY_def On_GETBOARDTYPE_def On_GETVERSION_def On_unknown_def bind_eq_Some_conv Let_def
      split: if_splits option.splits dest!: answer_sends)

lemma device_answers:
  "On_GETSERIALNUMBER os link (s, b) = Some (s', b') \<Longrightarrow> answers MSG_GETSERIALNUMBER s s'"
  "On_GETSERIALNUMBERALL os link (s, b) = Some (s', b') \<Longrightarrow> answers MSG_GETSERIALNUMBERALL s s'"
  "On_SETSERIALNUMBER link data (s, b) = Some (s', b') \<Longrightarrow> answers MSG_SETSERIALNUMBER s s'"
  "On_GETMAC os link (s, b) = Some (s', b') \<Longrightarrow> answers MSG_GETMAC s s'"
  "On_SETMAC link data (s, b) = Some (s', b') \<Longrightarrow> answers MSG_SETMAC s s'"
  "On_READMODULEBUF os link data (s, b) = Some (s', b') \<Longrightarrow> answers MSG_READMODULEBUF s s'"
  "On_WRITEMODULEBUF os link data len (s, b) = Some (s', b') \<Longrightarrow> answers MSG_WRITEMODULEBUF s s'"
  "On_WRITEOPTION os link data (s, b) = Some (s', b') \<Longrightarrow> answers MSG_WRITEOPTION s s'"
  by (cases b; auto simp: On_GETSERIALNUMBER_def On_GETSERIALNUMBERALL_def On_SETSERIALNUMBER_def On_GETMAC_def
      On_SETMAC_def On_READMODULEBUF_def On_WRITEMODULEBUF_def On_WRITEOPTION_def bind_eq_Some_conv Let_def
      split: if_splits dest!: answer_sends)+

subsection \<open>Questions\<close>

text \<open>The messages about the instrument, and those that change what the server remembers.\<close>

definition device_messages :: "u32 set" where
  "device_messages =
     {MSG_GETSERIALNUMBER, MSG_GETSERIALNUMBERALL, MSG_SETSERIALNUMBER, MSG_GETMAC, MSG_SETMAC,
      MSG_READMODULEBUF, MSG_WRITEMODULEBUF, MSG_WRITEOPTION}"

definition state_messages :: "u32 set" where
  "state_messages =
     {MSG_GETFILE, MSG_GETFILE_CANCEL, MSG_SENDFILE, MSG_SENDFILE_CANCEL, MSG_SENDFILENAME,
      MSG_READMEMORY, MSG_READMEMORY_CANCEL, MSG_CMD, MSG_CMD_CANCEL,
      MSG_MEMORYSCRIPT_START, MSG_MEMORYSCRIPT, MSG_MEMORYSCRIPT_CANCEL}"

lemma on_effects:
  "on_srv f st = Some st' \<longleftrightarrow> (\<exists>s. f (srv st) = Some s \<and> st' = st\<lparr>srv := s\<rparr>)"
  "on_stores g st = Some st' \<longleftrightarrow>
     (\<exists>s b. g (srv st, stores st) = Some (s, b) \<and> st' = st\<lparr>srv := s, stores := b\<rparr>)"
  "on_files h st = Some st' \<longleftrightarrow>
     (\<exists>s d. h (srv st, files st) = Some (s, d) \<and> st' = st\<lparr>srv := s, files := d\<rparr>)"
  "on_dirs i st = Some st' \<longleftrightarrow>
     (\<exists>s k. i (srv st, dirs st) = Some (s, k) \<and> st' = st\<lparr>srv := s, dirs := k\<rparr>)"
  by (auto simp: on_defs)

definition asked :: "u32 \<Rightarrow> ('a, 'b, 'c, 'd) server \<Rightarrow> ('a, 'b, 'c, 'd) server \<Rightarrow> bool" where
  "asked type st st' \<longleftrightarrow>
     answers type (srv st) (srv st') \<and> files st' = files st \<and> dirs st \<le> dirs st' \<and>
     (type \<notin> device_messages \<longrightarrow> stores st' = stores st)"

lemma handle_question:
  assumes "handle w created type data len st = Some st'" "type \<notin> state_messages"
  shows "asked type st st'"
  using assms unfolding handle_def Let_def state_messages_def
  by (simp split: if_splits;
      auto simp: on_effects asked_def device_messages_def
        dest!: question_answers device_answers GETCATALOG_answers GETALLFILEINFO_answers)

text \<open>
  C10: a message that is not one of the twelve which control a transfer, a command, a memory read
  or a script is a question: it never waits, it is answered with at least one message, every
  message sent has the type of the question, and nothing else about the server changes, nor do
  the files; the options of the instrument change only with the messages about the instrument. An
  unknown type is a question too, and its answer is empty.
\<close>

theorem question_answered:
  assumes "OnReceived w created type data len st = Some t" "type \<notin> state_messages"
  shows "\<exists>st' l. t = Handled st' \<and> l \<noteq> [] \<and> (\<forall>m \<in> set l. fst m = type) \<and>
    srv st' = (srv st)\<lparr>sv_log := sv_log (srv st) @ l\<rparr> \<and> files st' = files st \<and> dirs st \<le> dirs st' \<and>
    (type \<notin> device_messages \<longrightarrow> stores st' = stores st) \<and>
    (type \<notin> {MSG_GETCATALOG, MSG_CHECKFILEEXISTS, MSG_GETFILELENGTH, MSG_GETFILECREATEDATE,
       MSG_GETFILEINFO, MSG_WRITEMEMORY, MSG_GETBOARDTYPE, MSG_GETVERSION, MSG_GETALLFILEINFO} \<union>
       device_messages \<longrightarrow> l = [(type, [], w_link w (sv_log (srv st)) type [])])"
proof -
  have "\<not> must_wait type (srv st)"
    using assms(2) by (auto simp: must_wait_def state_messages_def)
  then obtain st' where h: "t = Handled st'" "handle w created type data len st = Some st'"
    using assms(1) by (auto simp: OnReceived_def)
  obtain l where l: "srv st' = (srv st)\<lparr>sv_log := sv_log (srv st) @ l\<rparr>" "\<forall>m \<in> set l. fst m = type" "l \<noteq> []"
      "files st' = files st" "dirs st \<le> dirs st'" "type \<notin> device_messages \<longrightarrow> stores st' = stores st"
    using handle_question [OF h(2) assms(2)] unfolding asked_def answers_def grows_def by fastforce
  have "l = [(type, [], w_link w (sv_log (srv st)) type [])]"
    if "type \<notin> {MSG_GETCATALOG, MSG_CHECKFILEEXISTS, MSG_GETFILELENGTH, MSG_GETFILECREATEDATE,
       MSG_GETFILEINFO, MSG_WRITEMEMORY, MSG_GETBOARDTYPE, MSG_GETVERSION, MSG_GETALLFILEINFO} \<union>
       device_messages"
  proof -
    have "handle w created type data len st = on_srv (On_unknown (w_link w) type) st"
      using that assms(2) by (simp add: handle_def device_messages_def state_messages_def)
    then have "on_srv (On_unknown (w_link w) type) st = Some st'" using h(2) by metis
    then obtain s where "On_unknown (w_link w) type (srv st) = Some s" "srv st' = s"
      by (auto simp: on_effects)
    moreover have "sv_log (srv st') = sv_log (srv st) @ l" using l(1) by simp
    ultimately show ?thesis by (auto simp: On_unknown_def SendData_def Let_def)
  qed
  then show ?thesis using h(1) l by blast
qed

subsection \<open>The server with its threads\<close>

text \<open>
  The state with the place each thread is at. A step is a message that is handled, with whatever
  the world around is at that moment, or a pass of one of the threads.
\<close>

type_synonym ('a, 'b, 'c, 'd) system = "('a, 'b, 'c, 'd) server \<times> down \<times> cmd_pc \<times> mem_pc"

inductive system_step :: "('a, 'b, 'c, 'd) system \<Rightarrow> ('a, 'b, 'c, 'd) system \<Rightarrow> bool" where
  message: "OnReceived w created type data len st = Some (Handled st') \<Longrightarrow>
    system_step (st, d, c, m)
      (st', if type = MSG_GETFILE \<and> created then Down_start else d,
       if type = MSG_CMD \<and> created then CMD_start else c,
       if type = MSG_READMEMORY \<and> created then MEM_start else m)"
| download: "DownFile_DoWork px link (files st) d (srv st) = Some (d', s) \<Longrightarrow>
    system_step (st, d, c, m) (st\<lparr>srv := s\<rparr>, d', c, m)"
| command: "CMD_DoWork popen link c (srv st) = Some (c', s) \<Longrightarrow>
    system_step (st, d, c, m) (st\<lparr>srv := s\<rparr>, d, c', m)"
| memory: "ReadMemory_DoWork wild link m (srv st) = Some (m', s) \<Longrightarrow>
    system_step (st, d, c, m) (st\<lparr>srv := s\<rparr>, d, c, m')"
| script: "m_threadMemoryScript (srv st) \<Longrightarrow>
    MemoryScript_DoWork room link cancel1 cancel2 junk (srv st) = Some s \<Longrightarrow>
    system_step (st, d, c, m) (st\<lparr>srv := s\<rparr>, d, c, m)"

definition system_init :: "CCommonServer \<Rightarrow> ('a, 'b, 'c) board \<Rightarrow> 'd \<Rightarrow> ('a, 'b, 'c, 'd) system" where
  "system_init s b d = (\<lparr>srv = s, stores = b, files = d, dirs = 0\<rparr>, Down_off, CMD_off, MEM_off)"

text \<open>
  The flags tell which threads run, a thread that runs has its argument, and the file that is
  open is the one whose name is kept.
\<close>

definition system_wf :: "('a, 'b, 'c, 'd) system \<Rightarrow> bool" where
  "system_wf = (\<lambda>(st, d, c, m). let s = srv st in
     upload_wf s \<and>
     m_threadDownFile s = (d \<noteq> Down_off) \<and> (d \<noteq> Down_off \<longrightarrow> m_pGetFilePath s \<noteq> None) \<and>
     m_threadCMD s = (c \<noteq> CMD_off) \<and> (c \<noteq> CMD_off \<longrightarrow> m_CMD s \<noteq> None) \<and>
     m_threadReadMemory s = (m \<noteq> MEM_off) \<and>
     (m_threadMemoryScript s \<longrightarrow> m_MemoryScript s \<noteq> None))"

text \<open>What the invariant depends on.\<close>

definition held :: "CCommonServer \<Rightarrow> _" where
  "held s = (m_fpSendFile s, m_pSendFilePath s, m_threadDownFile s, m_pGetFilePath s, m_threadCMD s, m_CMD s,
     m_threadReadMemory s, m_memInfoRead s, m_threadMemoryScript s, m_MemoryScript s)"

lemma answers_held: "answers T s s' \<Longrightarrow> held s' = held s"
  by (auto simp: answers_def grows_def held_def)

lemma send_held:
  "SendData link T data n s = Some (ok, s') \<Longrightarrow> held s' = held s"
  "SendData_type link T s = Some (ok, s') \<Longrightarrow> held s' = held s"
  "send_text k link T text s = Some s' \<Longrightarrow> held s' = held s"
  by (meson answer_sends answers_held)+

lemma DownFile_held:
  assumes "DownFile_DoWork px link fs d s = Some (d', s')"
  shows "held s' = held (s\<lparr>m_threadDownFile := (if d' = Down_off then False else m_threadDownFile s)\<rparr>) \<and> d \<noteq> Down_off \<and>
     d' \<noteq> Down_start"
  using assms
  by (cases d) (auto simp: bind_eq_Some_conv Let_def held_def split: if_splits option.splits dest!: send_held)

lemma CMD_held:
  assumes "CMD_DoWork popen link c s = Some (c', s')"
  shows "held s' = held (s\<lparr>m_threadCMD := (if c' = CMD_off then False else m_threadCMD s)\<rparr>) \<and> c \<noteq> CMD_off \<and>
     c' \<noteq> CMD_start"
  using assms
  by (cases c) (auto simp: bind_eq_Some_conv Let_def held_def split: if_splits option.splits prod.splits dest!: send_held)

lemma ReadMemory_held:
  assumes "ReadMemory_DoWork wild link m s = Some (m', s')"
  shows "held s' = held (s\<lparr>m_threadReadMemory := (if m' = MEM_off then False else m_threadReadMemory s)\<rparr>) \<and> m \<noteq> MEM_off \<and>
     m' \<noteq> MEM_start"
  using assms
  by (cases m) (auto simp: bind_eq_Some_conv Let_def held_def split: if_splits option.splits prod.splits dest!: send_held)

lemma MemoryScript_held:
  assumes "MemoryScript_DoWork room link cancel1 cancel2 junk s = Some s'"
  shows "held s' = held (s\<lparr>m_threadMemoryScript := False\<rparr>)"
  using assms by (auto simp: MemoryScript_DoWork_def bind_eq_Some_conv held_def dest!: send_held)

lemma system_wf_held: "held (srv st') = held (srv st) \<Longrightarrow> system_wf (st', d, c, m) = system_wf (st, d, c, m)"
  by (simp add: system_wf_def upload_wf_def held_def Let_def)

lemma SENDFILENAME_held:
  assumes "On_SENDFILENAME px link data len (s, d) = Some (s', d')"
  shows "upload_wf s' \<and> held s' = held (s\<lparr>m_fpSendFile := m_fpSendFile s', m_pSendFilePath := m_pSendFilePath s'\<rparr>)"
  using assms
  by (auto simp: On_SENDFILENAME_def Let_def case_prod_unfold bind_eq_Some_conv held_def upload_wf_def
      split: if_splits dest!: send_held)

lemma SENDFILE_held:
  assumes "On_SENDFILE px link data len (s, d) = Some (s', d')" "upload_wf s"
  shows "upload_wf s' \<and> held s' = held (s\<lparr>m_fpSendFile := m_fpSendFile s', m_pSendFilePath := m_pSendFilePath s'\<rparr>)"
  using assms
  by (auto simp: On_SENDFILE_def Let_def case_prod_unfold bind_eq_Some_conv held_def upload_wf_def
      split: if_splits option.splits dest!: send_held)

lemma START_held:
  "On_MEMORYSCRIPT_START malloc link data s = Some s' \<Longrightarrow>
     held s' = held (s\<lparr>m_MemoryScript := m_MemoryScript s'\<rparr>) \<and>
       (m_MemoryScript s \<noteq> None \<longrightarrow> m_MemoryScript s' \<noteq> None)"
  by (auto simp: On_MEMORYSCRIPT_START_def Let_def bind_eq_Some_conv held_def split: if_splits dest!: send_held)

lemma MEMORYSCRIPT_held:
  "On_MEMORYSCRIPT created data len s = Some s' \<Longrightarrow>
     held s' = held (s\<lparr>m_MemoryScript := m_MemoryScript s', m_threadMemoryScript := m_threadMemoryScript s'\<rparr>) \<and>
       (m_MemoryScript s \<noteq> None \<or> m_threadMemoryScript s' \<noteq> m_threadMemoryScript s \<longrightarrow> m_MemoryScript s' \<noteq> None)"
  by (cases "m_bIsMemoryScriptCancel s"; cases "m_MemoryScript s";
      simp add: On_MEMORYSCRIPT_def Let_def bind_eq_Some_conv; clarify?; simp add: held_def)

lemmas upload_held = SENDFILENAME_held SENDFILE_held START_held MEMORYSCRIPT_held

lemma question_held:
  assumes "handle w created type data len st = Some st'" "type \<notin> state_messages"
  shows "held (srv st') = held (srv st)"
  using handle_question [OF assms] answers_held unfolding asked_def by blast

text \<open>One line for each of the twelve messages.\<close>

lemma handle_state:
  "handle w created MSG_GETFILE data len st = on_srv (On_GETFILE created data len) st"
  "handle w created MSG_GETFILE_CANCEL data len st = on_srv (Some \<circ> On_GETFILE_CANCEL) st"
  "handle w created MSG_SENDFILE data len st = on_files (On_SENDFILE (w_posix w) (w_link w) data len) st"
  "handle w created MSG_SENDFILE_CANCEL data len st = on_srv (Some \<circ> On_SENDFILE_CANCEL) st"
  "handle w created MSG_SENDFILENAME data len st = on_files (On_SENDFILENAME (w_posix w) (w_link w) data len) st"
  "handle w created MSG_READMEMORY data len st = on_srv (On_READMEMORY created data) st"
  "handle w created MSG_READMEMORY_CANCEL data len st = on_srv (Some \<circ> On_READMEMORY_CANCEL) st"
  "handle w created MSG_CMD data len st = on_srv (On_CMD created data len) st"
  "handle w created MSG_CMD_CANCEL data len st = on_srv (Some \<circ> On_CMD_CANCEL) st"
  "handle w created MSG_MEMORYSCRIPT_START data len st = on_srv (On_MEMORYSCRIPT_START (w_malloc w) (w_link w) data) st"
  "handle w created MSG_MEMORYSCRIPT data len st = on_srv (On_MEMORYSCRIPT created data len) st"
  "handle w created MSG_MEMORYSCRIPT_CANCEL data len st = on_srv (Some \<circ> On_MEMORYSCRIPT_CANCEL) st"
  unfolding handle_def Let_def msg_types by simp_all

lemma state_messages_cases:
  assumes "type \<in> state_messages"
  obtains "type = MSG_GETFILE" | "type = MSG_GETFILE_CANCEL" | "type = MSG_SENDFILE"
  | "type = MSG_SENDFILE_CANCEL" | "type = MSG_SENDFILENAME" | "type = MSG_READMEMORY"
  | "type = MSG_READMEMORY_CANCEL" | "type = MSG_CMD" | "type = MSG_CMD_CANCEL"
  | "type = MSG_MEMORYSCRIPT_START" | "type = MSG_MEMORYSCRIPT" | "type = MSG_MEMORYSCRIPT_CANCEL"
  using assms unfolding state_messages_def by blast

text \<open>While a thread runs, nobody touches its argument.\<close>

definition arguments_kept :: "('a, 'b, 'c, 'd) system \<Rightarrow> ('a, 'b, 'c, 'd) system \<Rightarrow> bool" where
  "arguments_kept = (\<lambda>(st, d, c, m) (st', d', c', m').
     (d \<noteq> Down_off \<longrightarrow> d' = Down_off \<or> m_pGetFilePath (srv st') = m_pGetFilePath (srv st)) \<and>
     (c \<noteq> CMD_off \<longrightarrow> c' = CMD_off \<or> m_CMD (srv st') = m_CMD (srv st)) \<and>
     (m \<noteq> MEM_off \<longrightarrow> m' = MEM_off \<or> m_memInfoRead (srv st') = m_memInfoRead (srv st)))"

lemma system_wf_effect:
  assumes "system_wf (st, d, c, m)" "upload_wf s'"
    "held s' = held ((srv st)\<lparr>m_fpSendFile := m_fpSendFile s', m_pSendFilePath := m_pSendFilePath s',
       m_MemoryScript := m_MemoryScript s', m_threadMemoryScript := m_threadMemoryScript s'\<rparr>)"
    "m_threadMemoryScript s' \<longrightarrow> m_MemoryScript s' \<noteq> None" "srv st' = s'"
  shows "system_wf (st', d, c, m) \<and> arguments_kept (st, d, c, m) (st', d, c, m)"
  using assms by (simp add: system_wf_def arguments_kept_def held_def Let_def)

text \<open>The messages that start a thread leave the rest as it is; all others may touch the upload and the script only.\<close>

lemma cancel_held:
  "held (On_GETFILE_CANCEL s) = held s" "held (On_SENDFILE_CANCEL s) = held s" "held (On_READMEMORY_CANCEL s) = held s"
  "held (On_CMD_CANCEL s) = held s" "held (On_MEMORYSCRIPT_CANCEL s) = held s"
  by (simp_all add: held_def On_GETFILE_CANCEL_def On_SENDFILE_CANCEL_def On_READMEMORY_CANCEL_def On_CMD_CANCEL_def
      On_MEMORYSCRIPT_CANCEL_def)

definition thread_messages :: "u32 set" where
  "thread_messages = {MSG_GETFILE, MSG_CMD, MSG_READMEMORY}"

definition effect_wf :: "CCommonServer \<Rightarrow> CCommonServer \<Rightarrow> bool" where
  "effect_wf s s' \<longleftrightarrow> upload_wf s' \<and>
     held s' = held (s\<lparr>m_fpSendFile := m_fpSendFile s', m_pSendFilePath := m_pSendFilePath s',
       m_MemoryScript := m_MemoryScript s', m_threadMemoryScript := m_threadMemoryScript s'\<rparr>) \<and>
     (m_threadMemoryScript s' \<longrightarrow> m_MemoryScript s' \<noteq> None)"

lemma effect_wf_held:
  "upload_wf s \<Longrightarrow> m_threadMemoryScript s \<longrightarrow> m_MemoryScript s \<noteq> None \<Longrightarrow> held s' = held s \<Longrightarrow> effect_wf s s'"
  by (simp add: effect_wf_def held_def upload_wf_def)

lemma handle_effect:
  assumes h: "handle w created type data len st = Some st'" and type: "type \<notin> thread_messages"
    and u: "upload_wf (srv st)" "m_threadMemoryScript (srv st) \<longrightarrow> m_MemoryScript (srv st) \<noteq> None"
  shows "effect_wf (srv st) (srv st')"
proof (cases "type \<in> state_messages")
  case False
  then show ?thesis using effect_wf_held [OF u question_held [OF h]] by blast
next
  case True
  then consider (cancel) "held (srv st') = held (srv st)" | "type = MSG_SENDFILE" | "type = MSG_SENDFILENAME"
    | "type = MSG_MEMORYSCRIPT_START" | "type = MSG_MEMORYSCRIPT"
    using h type by (cases rule: state_messages_cases) (auto simp: handle_state on_effects cancel_held thread_messages_def)
  then show ?thesis
  proof cases
    case cancel
    then show ?thesis using effect_wf_held [OF u] by blast
  next
    case 2
    then show ?thesis using h u(2) unfolding 2 handle_state on_effects
      by (auto dest!: SENDFILE_held [OF _ u(1)] simp: effect_wf_def held_def)
  next
    case 3
    then show ?thesis using h u unfolding 3 handle_state on_effects
      by (auto dest!: SENDFILENAME_held simp: effect_wf_def held_def)
  next
    case 4
    then show ?thesis using h u unfolding 4 handle_state on_effects
      by (auto dest!: START_held simp: effect_wf_def held_def upload_wf_def)
  next
    case 5
    then show ?thesis using h u unfolding 5 handle_state on_effects
      by (auto dest!: MEMORYSCRIPT_held simp: effect_wf_def held_def upload_wf_def)
  qed
qed

lemma thread_types:
  "MSG_GETFILE \<noteq> MSG_CMD" "MSG_GETFILE \<noteq> MSG_READMEMORY" "MSG_READMEMORY \<noteq> MSG_GETFILE"
  "MSG_READMEMORY \<noteq> MSG_CMD" "MSG_CMD \<noteq> MSG_GETFILE" "MSG_CMD \<noteq> MSG_READMEMORY"
  by (simp_all add: msg_types)

lemma message_wf:
  assumes h: "handle w created type data len st = Some st'" and wf: "system_wf (st, d, c, m)"
    and nw: "\<not> must_wait type (srv st)"
  defines "y \<equiv> (st', if type = MSG_GETFILE \<and> created then Down_start else d,
       if type = MSG_CMD \<and> created then CMD_start else c, if type = MSG_READMEMORY \<and> created then MEM_start else m)"
  shows "system_wf y \<and> arguments_kept (st, d, c, m) y"
proof -
  consider "type = MSG_GETFILE" | "type = MSG_CMD" | "type = MSG_READMEMORY" | "type \<notin> thread_messages"
    by (auto simp: thread_messages_def)
  then show ?thesis
  proof cases
    case 1
    show ?thesis using h wf nw unfolding y_def 1
      by (auto simp: handle_state thread_types on_effects On_GETFILE_def must_wait_def bind_eq_Some_conv system_wf_def Let_def
          arguments_kept_def upload_wf_def)
  next
    case 2
    have off: "\<not> m_threadCMD (srv st)" using nw by (simp add: 2 must_wait_def)
    obtain cmd where s': "srv st' = (srv st)\<lparr>m_CMD := Some cmd, m_threadCMD := created\<rparr>"
      using h unfolding 2 handle_state on_effects On_CMD_def bind_eq_Some_conv by auto
    show ?thesis using wf off
      by (simp add: y_def 2 thread_types s' system_wf_def arguments_kept_def upload_wf_def Let_def)
  next
    case 3
    show ?thesis using h wf nw unfolding y_def 3
      by (auto simp: handle_state thread_types on_effects On_READMEMORY_def must_wait_def bind_eq_Some_conv system_wf_def Let_def
          arguments_kept_def upload_wf_def split: if_splits)
  next
    case 4
    then have "y = (st', d, c, m)" by (auto simp: y_def thread_messages_def)
    moreover have "effect_wf (srv st) (srv st')"
      using handle_effect [OF h 4] wf by (simp add: system_wf_def Let_def)
    ultimately show ?thesis using system_wf_effect [OF wf _ _ _ refl] by (simp add: effect_wf_def)
  qed
qed

lemma step_wf:
  assumes "system_step x y" "system_wf x"
  shows "system_wf y \<and> arguments_kept x y"
  using assms
proof (cases rule: system_step.cases)
  case (message w created type data len st st' d c m)
  have nw: "\<not> must_wait type (srv st)" and h: "handle w created type data len st = Some st'"
    using message(3) by (auto simp: OnReceived_def split: if_splits)
  show ?thesis unfolding message(1,2) using assms(2) unfolding message(1) by (rule message_wf [OF h _ nw])
next
  case (download px link st d d' s c m)
  note e = DownFile_held [OF download(3)]
  have wf: "system_wf (st, d, c, m)" using assms(2) unfolding download(1) .
  show ?thesis unfolding download(1,2) using e wf
    by (cases "d' = Down_off") (simp_all add: system_wf_def arguments_kept_def held_def upload_wf_def Let_def)
next
  case (command popen link c st c' s d m)
  note e = CMD_held [OF command(3)]
  have wf: "system_wf (st, d, c, m)" using assms(2) unfolding command(1) .
  show ?thesis unfolding command(1,2) using e wf
    by (cases "c' = CMD_off") (simp_all add: system_wf_def arguments_kept_def held_def upload_wf_def Let_def)
next
  case (memory wild link m st m' s d c)
  note e = ReadMemory_held [OF memory(3)]
  have wf: "system_wf (st, d, c, m)" using assms(2) unfolding memory(1) .
  show ?thesis unfolding memory(1,2) using e wf
    by (cases "m' = MEM_off") (simp_all add: system_wf_def arguments_kept_def held_def upload_wf_def Let_def)
next
  case (script st room link cancel1 cancel2 junk s d c m)
  note e = MemoryScript_held [OF script(4)]
  have wf: "system_wf (st, d, c, m)" using assms(2) unfolding script(1) .
  show ?thesis unfolding script(1,2) using e wf
    by (simp add: system_wf_def arguments_kept_def held_def upload_wf_def Let_def)
qed

lemma init_wf: "system_wf (system_init (CCommonServer_new jc jl jm) b d)"
  by (simp add: system_wf_def system_init_def CCommonServer_new_def upload_wf_def)

lemma reachable_wf:
  assumes "system_step\<^sup>*\<^sup>* (system_init (CCommonServer_new jc jl jm) b d) x"
  shows "system_wf x"
  using assms
proof (induction rule: rtranclp_induct)
  case base
  show ?case by (rule init_wf)
next
  case (step y z)
  then show ?case by (blast dest: step_wf)
qed


text \<open>
  C11: the path a download reads from, the command line of a command and the range of a memory read
  are not overwritten while the thread that uses them runs, whatever messages come meanwhile: the
  wait in the handlers protects them.
\<close>

theorem thread_arguments_kept:
  assumes "system_step\<^sup>*\<^sup>* (system_init (CCommonServer_new jc jl jm) b d) (st, dl, c, m)"
    "system_step (st, dl, c, m) (st', dl', c', m')"
  shows "(dl \<noteq> Down_off \<longrightarrow> dl' = Down_off \<or> m_pGetFilePath (srv st') = m_pGetFilePath (srv st)) \<and>
    (c \<noteq> CMD_off \<longrightarrow> c' = CMD_off \<or> m_CMD (srv st') = m_CMD (srv st)) \<and>
    (m \<noteq> MEM_off \<longrightarrow> m' = MEM_off \<or> m_memInfoRead (srv st') = m_memInfoRead (srv st))"
  using step_wf [OF assms(2) reachable_wf [OF assms(1)]] by (simp add: arguments_kept_def)

definition demo_world :: "((bytes \<Rightarrow> bytes option) \<times> bytes list) world" where
  "demo_world =
     \<lparr>w_link = (\<lambda>_ _ _. True), w_os = os_net, w_posix = demo_posix False, w_opendir = (\<lambda>_ _. None),
      w_stat = (\<lambda>_ _. None), w_localtime = (\<lambda>_. None), w_malloc = (\<lambda>n. Some (replicate n 0)),
      w_junk = \<lparr>st_isdir = False, st_atime = 0, st_size = 0\<rparr>, w_wild = False\<rparr>"

abbreviation demo_start where
  "demo_start \<equiv> system_init (CCommonServer_new None 0 no_memory) board_sim (\<lambda>_. None, [])"

theorem question_answered_witness:
  "\<exists>st'. OnReceived demo_world False 0x200 [1, 2] 2 (fst demo_start) = Some (Handled st') \<and>
     sv_log (srv st') = [(0x200, [], True)] \<and> files st' = (\<lambda>_. None, [])"
proof -
  have n: "0x200 \<notin> state_messages" by (simp add: state_messages_def msg_types)
  obtain t where t: "OnReceived demo_world False 0x200 [1, 2] 2 (fst demo_start) = Some t"
    by (auto simp: OnReceived_def must_wait_def handle_def msg_types on_srv_def On_unknown_def SendData_def Let_def)
  show ?thesis
    unfolding t using question_answered [OF t n]
    by (auto simp: device_messages_def msg_types demo_world_def system_init_def CCommonServer_new_def)
qed

text \<open>A command is started, and while it runs a download is asked for.\<close>

definition demo_cmd :: "(_, _, _, (bytes \<Rightarrow> bytes option) \<times> bytes list) server" where
  "demo_cmd = (fst demo_start)\<lparr>srv := (CCommonServer_new None 0 no_memory)\<lparr>m_CMD := Some [100, 0], m_threadCMD := True\<rparr>\<rparr>"

definition demo_down :: "(_, _, _, (bytes \<Rightarrow> bytes option) \<times> bytes list) server" where
  "demo_down = demo_cmd\<lparr>srv := (srv demo_cmd)\<lparr>m_pGetFilePath := Some [97, 0], m_threadDownFile := True\<rparr>\<rparr>"

lemma demo_steps:
  "system_step demo_start (demo_cmd, Down_off, CMD_start, MEM_off)"
  "system_step (demo_cmd, Down_off, CMD_start, MEM_off) (demo_down, Down_start, CMD_start, MEM_off)"
proof -
  have m: "memcpy (replicate 2 0) 0 [a, 0] 0 2 = Some [a, 0]" for a :: byte
    by (simp add: memcpy_def blit_def)
  have "OnReceived demo_world True MSG_CMD [100, 0] 2 (fst demo_start) = Some (Handled demo_cmd)"
    by (simp add: OnReceived_def must_wait_def thread_types handle_state on_srv_def On_CMD_def m
        system_init_def CCommonServer_new_def demo_cmd_def)
  from message [OF this, of Down_off CMD_off MEM_off] show "system_step demo_start (demo_cmd, Down_off, CMD_start, MEM_off)"
    by (simp add: system_init_def thread_types)
  have "OnReceived demo_world True MSG_GETFILE [97, 0] 2 demo_cmd = Some (Handled demo_down)"
    by (simp add: OnReceived_def must_wait_def handle_state on_srv_def On_GETFILE_def m
        system_init_def CCommonServer_new_def demo_cmd_def demo_down_def thread_types)
  from message [OF this, of Down_off CMD_start MEM_off]
  show "system_step (demo_cmd, Down_off, CMD_start, MEM_off) (demo_down, Down_start, CMD_start, MEM_off)"
    by (simp add: thread_types)
qed


theorem thread_arguments_kept_witness:
  "system_step (demo_cmd, Down_off, CMD_start, MEM_off) (demo_down, Down_start, CMD_start, MEM_off) \<and>
   m_CMD (srv demo_down) = m_CMD (srv demo_cmd)"
  using thread_arguments_kept [OF r_into_rtranclp [of system_step, OF demo_steps(1)] demo_steps(2)] demo_steps(2)
  by simp

end
