(* ===== verification/Session.thy ===== *)
theory Session
  imports Protocol Dispatch
begin

text \<open>
  The parts together: bytes come in on the socket, the receive thread queues the messages of the
  frames and acknowledges them, the thread of the queue hands them to
  \<^verbatim>\<open>CCommonServer::OnReceived\<close>, the handlers answer with \<^verbatim>\<open>Send\<close>, and the other end queues the answer.
\<close>

subsection \<open>From the queue to the handlers\<close>

text \<open>
  \<^verbatim>\<open>RaiseRecievedEvent\<close> calls the virtual method, here that of the server. A message without data
  comes as a null pointer.
\<close>

definition RaiseRecievedEvent ::
  "'d world \<Rightarrow> bool \<Rightarrow> ReceivedData \<Rightarrow> ('a, 'b, 'c, 'd) server \<Rightarrow> ('a, 'b, 'c, 'd) server turn option" where
  "RaiseRecievedEvent w created r st =
     OnReceived w created (rd_Type r) (case rd_Data r of None \<Rightarrow> [] | Some b \<Rightarrow> b) (unat (rd_Length r)) st"

text \<open>
  \<^verbatim>\<open>DoEvent\<close> with the handler it calls. While the handler waits for a thread the message counts as
  still queued.
\<close>

definition serve_event ::
  "'d world \<Rightarrow> bool \<Rightarrow> ClientBase \<times> ('a, 'b, 'c, 'd) server \<Rightarrow>
     (bool \<times> ClientBase \<times> ('a, 'b, 'c, 'd) server) turn option" where
  "serve_event w created = (\<lambda>(c, st). do {
     (data, q) \<leftarrow> Dequeue (ex_queue (cb_executer c));
     let x = (cb_executer c)\<lparr>ex_queue := q\<rparr>;
     case data of
       None \<Rightarrow> Some (Handled (False, c\<lparr>cb_executer := x\<rparr>, st))
     | Some r \<Rightarrow> do {
         t \<leftarrow> RaiseRecievedEvent w created r st;
         Some (case t of
             Waits \<Rightarrow> Waits
           | Handled st \<Rightarrow> Handled (True, c\<lparr>cb_executer := x\<lparr>ex_raised := ex_raised x @ [r]\<rparr>\<rparr>, st))
       }
   })"

text \<open>The inner loop of \<^verbatim>\<open>ExcuteThread\<close>, with a bound on the passes.\<close>

fun serve_events ::
  "'d world \<Rightarrow> bool \<Rightarrow> nat \<Rightarrow> ClientBase \<times> ('a, 'b, 'c, 'd) server \<Rightarrow>
     (ClientBase \<times> ('a, 'b, 'c, 'd) server) option" where
  "serve_events w created 0 s = Some s"
| "serve_events w created (Suc n) s = do {
     t \<leftarrow> serve_event w created s;
     case t of
       Waits \<Rightarrow> serve_events w created n s
     | Handled (again, s') \<Rightarrow> if again then serve_events w created n s' else Some s'
   }"

text \<open>To the client it is the \<^verbatim>\<open>DoEvent\<close> of the queue.\<close>

lemma serve_event_DoEvent:
  "serve_event w created (c, st) = Some (Handled (again, c', st')) \<Longrightarrow>
     DoEvent (cb_executer c) = Some (again, cb_executer c') \<and> c' = c\<lparr>cb_executer := cb_executer c'\<rparr>"
proof -
  assume a: "serve_event w created (c, st) = Some (Handled (again, c', st'))"
  then obtain data q where d: "Dequeue (ex_queue (cb_executer c)) = Some (data, q)"
    by (auto simp: serve_event_def bind_eq_Some_conv)
  show ?thesis
  proof (cases data)
    case None
    then show ?thesis using a d by (auto simp: serve_event_def DoEvent_def Let_def)
  next
    case (Some r)
    then obtain u where "RaiseRecievedEvent w created r st = Some u"
      using a d by (auto simp: serve_event_def bind_eq_Some_conv Let_def)
    then show ?thesis using a d Some by (cases u) (auto simp: serve_event_def DoEvent_def Let_def)
  qed
qed

lemma serve_event_step:
  assumes "cb_inv c" "inbox c = r # rs" "RaiseRecievedEvent w created r st = Some (Handled st')"
  shows "\<exists>c'. serve_event w created (c, st) = Some (Handled (True, c', st')) \<and> cb_inv c' \<and> inbox c' = rs \<and>
    c' = c\<lparr>cb_executer := cb_executer c'\<rparr>"
proof -
  have q: "q_inv (ex_queue (cb_executer c))" "q_view (ex_queue (cb_executer c)) = r # rs" and i: "ex_inv (cb_executer c)"
    using assms(1,2) by (auto simp: cb_inv_def ex_inv_def inbox_def)
  obtain q' where d: "Dequeue (ex_queue (cb_executer c)) = Some (Some r, q')" "q_view q' = rs"
    using evq.deq_cons [OF q] by auto
  let ?x = "(cb_executer c)\<lparr>ex_queue := q', ex_raised := ex_raised (cb_executer c) @ [r]\<rparr>"
  let ?c = "c\<lparr>cb_executer := ?x\<rparr>"
  have "DoEvent (cb_executer c) = Some (True, ?x)" by (simp add: DoEvent_def d)
  then have "ex_inv ?x" using DoEvent_inv [OF i] by auto
  then have "cb_inv ?c" using assms(1) by (auto simp: cb_inv_def)
  moreover have "serve_event w created (c, st) = Some (Handled (True, ?c, st'))"
    by (simp add: serve_event_def d assms(3) Let_def)
  ultimately show ?thesis by (intro exI [of _ ?c]) (simp add: inbox_def d)
qed

lemma serve_event_empty:
  assumes "cb_inv c" "inbox c = []"
  shows "\<exists>c'. serve_event w created (c, st) = Some (Handled (False, c', st)) \<and> inbox c' = [] \<and>
    c' = c\<lparr>cb_executer := cb_executer c'\<rparr>"
proof -
  have q: "q_inv (ex_queue (cb_executer c))" "q_view (ex_queue (cb_executer c)) = []"
    using assms by (auto simp: cb_inv_def ex_inv_def inbox_def)
  show ?thesis using evq.deq_empty [OF q] assms(2) by (simp add: serve_event_def Let_def)
qed

subsection \<open>Requests with a fixed answer\<close>

text \<open>Requests about a file, whose path has to end in a NUL, and about the version.\<close>

definition plain_request :: "u32 \<times> bytes \<Rightarrow> bool" where
  "plain_request f \<longleftrightarrow> fst f = MSG_GETVERSION \<or>
     (fst f = MSG_CHECKFILEEXISTS \<or> fst f = MSG_GETFILELENGTH) \<and> 0 \<in> set (snd f)"

definition answer_to :: "'d world \<Rightarrow> 'd \<Rightarrow> u32 \<times> bytes \<Rightarrow> bytes" where
  "answer_to w d f =
     (if fst f = MSG_GETVERSION then str ''20130508''
      else if fst f = MSG_CHECKFILEEXISTS then (if px_access (w_posix w) d (cstr (snd f)) then str ''1'' else str ''0'')
      else str (dec (case px_size (w_posix w) d (cstr (snd f)) of None \<Rightarrow> 0 | Some n \<Rightarrow> sint n)))"

lemma dec_VERSION: "dec VERSION = ''20130508''"
  by (simp add: VERSION_def dec_def digits.simps char_of_def bit_0)

lemma answer_to_props: "0 \<notin> set (answer_to w d f)" "length (answer_to w d f) \<le> 12"
proof -
  let ?n = "case px_size (w_posix w) d (cstr (snd f)) of None \<Rightarrow> 0 | Some n \<Rightarrow> sint n"
  have "-(2 ^ 31) \<le> ?n" "?n < 2 ^ 31"
    using sint_greater_eq [where 'a = 32] sint_less [where 'a = 32] by (auto split: option.split)
  from str_dec_props [OF this] show "0 \<notin> set (answer_to w d f)" "length (answer_to w d f) \<le> 12"
    by (auto simp: answer_to_def str_def)
qed

lemma plain_request_types:
  assumes "plain_request (t, d)"
  shows "t \<notin> state_messages" "user_frame (t, d) \<longleftrightarrow> length d \<le> 65504"
  using assms by (auto simp: plain_request_def state_messages_def msg_types user_frame_def msg_defs)

lemma plain_request_handled:
  assumes "plain_request (t, d)" "length d \<le> 65504"
  shows "RaiseRecievedEvent w created (frame_message (t, d)) st =
    Some (Handled (st\<lparr>srv := logged (w_link w) t (answer_to w (files st) (t, d)) (srv st)\<rparr>))"
proof -
  have data: "(case rd_Data (frame_message (t, d)) of None \<Rightarrow> [] | Some b \<Rightarrow> b) = d"
    using assms(2) by (auto simp: frame_message_def message_def unat_of_nat word_less_nat_alt)
  have nw: "\<not> must_wait t (srv st)"
    using plain_request_types(1) [OF assms(1)] by (auto simp: must_wait_def state_messages_def)
  note a = answer_to_props [of w "files st" "(t, d)"]
  have "handle w created t d n st = Some (st\<lparr>srv := logged (w_link w) t (answer_to w (files st) (t, d)) (srv st)\<rparr>)" for n
    using assms(1) a
    by (auto simp: plain_request_def handle_def msg_types on_srv_def On_GETVERSION_def On_CHECKFILEEXISTS_def
        On_GETFILELENGTH_def c_string_def answer_to_def dec_VERSION send_text_eq NR_MAXPACKLEN_def Let_def)
  then show ?thesis unfolding RaiseRecievedEvent_def data OnReceived_def using nw
    by (simp add: frame_message_def message_def)
qed


subsection \<open>Sessions\<close>

text \<open>The log the answers to some requests make.\<close>

fun answered :: "'d world \<Rightarrow> 'd \<Rightarrow> (u32 \<times> bytes) list \<Rightarrow> CCommonServer \<Rightarrow> CCommonServer" where
  "answered w d [] s = s"
| "answered w d (f # fs) s = answered w d fs (logged (w_link w) (fst f) (answer_to w d f) s)"

lemma answered_log:
  "\<exists>l. answered w d fs s = s\<lparr>sv_log := sv_log s @ l\<rparr> \<and> map (\<lambda>(t, a, _). (t, a)) l = map (\<lambda>f. (fst f, answer_to w d f)) fs"
proof (induction fs arbitrary: s)
  case Nil
  show ?case by (intro exI [of _ "[]"]) simp
next
  case (Cons f fs)
  let ?m = "(fst f, answer_to w d f, w_link w (sv_log s) (fst f) (answer_to w d f))"
  obtain l where "answered w d fs (logged (w_link w) (fst f) (answer_to w d f) s) =
      (logged (w_link w) (fst f) (answer_to w d f) s)\<lparr>sv_log := sv_log (logged (w_link w) (fst f) (answer_to w d f) s) @ l\<rparr>"
      "map (\<lambda>(t, a, _). (t, a)) l = map (\<lambda>f. (fst f, answer_to w d f)) fs"
    using Cons.IH by blast
  then show ?case by (intro exI [of _ "?m # l"]) (simp add: logged_def)
qed

lemma serve_plain:
  assumes "cb_inv c" "inbox c = map frame_message fs" "\<forall>f \<in> set fs. plain_request f \<and> user_frame f"
  shows "\<exists>c'. serve_events w created (Suc (length fs)) (c, st) =
    Some (c', st\<lparr>srv := answered w (files st) fs (srv st)\<rparr>) \<and> inbox c' = []"
  using assms
proof (induction fs arbitrary: c st)
  case Nil
  then show ?case using serve_event_empty [of c w created st] by auto
next
  case (Cons f fs)
  obtain t d where f: "f = (t, d)" by (cases f)
  let ?st = "st\<lparr>srv := logged (w_link w) t (answer_to w (files st) (t, d)) (srv st)\<rparr>"
  have "RaiseRecievedEvent w created (frame_message (t, d)) st = Some (Handled ?st)"
    using Cons.prems(3) f by (intro plain_request_handled) (auto simp: user_frame_def)
  then obtain c' where c': "serve_event w created (c, st) = Some (Handled (True, c', ?st))" "cb_inv c'"
      "inbox c' = map frame_message fs"
    using serve_event_step [OF Cons.prems(1)] Cons.prems(2) f by fastforce
  show ?case using Cons.IH [OF c'(2,3), of ?st] Cons.prems(3) c'(1) by (auto simp: f)
qed

text \<open>
  C2: A sequence of requests comes in as frames, split over \<^verbatim>\<open>recv\<close> calls and time-outs in any way:
  the receive thread acknowledges each, the thread of the queue hands them to the server in order
  and finds the queue empty at the end, and the server sends for each request, in order, one
  message of its type with its answer, and changes nothing else.
\<close>

theorem requests_served_in_order:
  assumes "cb_inv c" "KeepReceiving c" "rt_idle th" "inbox c = []"
    "\<forall>f \<in> set fs. plain_request f \<and> length (snd f) \<le> 65504"
    "cb_received_type c \<notin> fst ` set fs" "length fs \<le> 256" "\<forall>ev \<in> set evs. quiet ev"
    "length (concat (map (\<lambda>(t, d). frame t d) fs)) \<le> length (filter readable evs)"
  shows "\<exists>th' c' c'' l. rt_run full_net evs (concat (map (\<lambda>(t, d). frame t d) fs), th, c) = Some ([], th', c') \<and>
    cb_log c' = cb_log c @ map (\<lambda>(t, d). Sent (reply_frame (frame_hash t d) MSG_DATA_CORRECT)) fs \<and>
    serve_events w created (Suc (length fs)) (c', st) =
      Some (c'', st\<lparr>srv := (srv st)\<lparr>sv_log := sv_log (srv st) @ l\<rparr>\<rparr>) \<and> inbox c'' = [] \<and>
    map (\<lambda>(t, a, _). (t, a)) l = map (\<lambda>f. (fst f, answer_to w (files st) f)) fs"
proof -
  have u: "\<forall>f \<in> set fs. user_frame f" "\<forall>f \<in> set fs. plain_request f \<and> user_frame f"
    using assms(5) plain_request_types(2) by auto
  obtain th' c' where r: "rt_run full_net evs (concat (map (\<lambda>(t, d). frame t d) fs), th, c) = Some ([], th', c')"
      "cb_inv c'" "inbox c' = map frame_message fs"
      "cb_log c' = cb_log c @ map (\<lambda>(t, d). Sent (reply_frame (frame_hash t d) MSG_DATA_CORRECT)) fs"
    using frames_queued [OF assms(1-3) u(1) assms(6) _ assms(8,9)] assms(4,7) by auto
  obtain c'' where s: "serve_events w created (Suc (length fs)) (c', st) =
      Some (c'', st\<lparr>srv := answered w (files st) fs (srv st)\<rparr>)" "inbox c'' = []"
    using serve_plain [OF r(2,3) u(2)] by blast
  obtain l where "answered w (files st) fs (srv st) = (srv st)\<lparr>sv_log := sv_log (srv st) @ l\<rparr>"
      "map (\<lambda>(t, a, _). (t, a)) l = map (\<lambda>f. (fst f, answer_to w (files st) f)) fs"
    using answered_log [of w "files st" fs "srv st"] by (elim exE conjE) (rule that)
  then show ?thesis using r s by auto
qed

text \<open>
  C1: A request and its answer, from end to end: \<^verbatim>\<open>Send\<close> on the client returns true, the server's
  receive thread queues the request, its handler is given exactly that message and sends one
  answer, \<^verbatim>\<open>Send\<close> on the server returns true, and the answer is what the client has in its queue.
\<close>

theorem request_answered:
  assumes client: "cb_inv c" "IsSendSucceeded c" "KeepReceiving c" "rt_idle th" "inbox c = []"
    and server: "cb_inv p" "IsSendSucceeded p" "KeepReceiving p" "rt_idle thp" "inbox p = []"
    and request: "plain_request (t, d)" "length d \<le> 65504" "t \<noteq> cb_received_type c" "t \<noteq> cb_received_type p"
    and e: "se_now e \<noteq> -1" "se_race e = Some" "se_wait e = peer_answers th (thp, p) (length (cb_log c))"
    and a: "a = answer_to w (files st) (t, d)"
  shows "\<exists>c1 th1 p1 thp1 p2 st1. Send full_net e t (Some d) (of_nat (length d)) timeout c = Some (True, c1) \<and>
    rt_feed full_net (frame t d) (thp, p) = Some (thp1, p1) \<and>
    serve_event w created (p1, st) = Some (Handled (True, p2, st1)) \<and>
    st1 = st\<lparr>srv := logged (w_link w) t a (srv st)\<rparr> \<and>
    (\<forall>e'. se_now e' \<noteq> -1 \<and> se_race e' = Some \<and> se_wait e' = peer_answers thp1 (th1, c1) (length (cb_log p2)) \<longrightarrow>
      (\<exists>p3 th2 c2. Send full_net e' t (Some a) (of_nat (length a)) 1000000 p2 = Some (True, p3) \<and>
        rt_feed full_net (frame t a) (th1, c1) = Some (th2, c2) \<and> inbox c2 = [frame_message (t, a)]))"
proof -
  have u: "user_frame (t, d)" using plain_request_types(2) [OF request(1)] request(2) by simp
  have ua: "user_frame (t, a)"
    using u answer_to_props(2) [of w "files st" "(t, d)"] by (simp add: user_frame_def a)
  obtain c1 th1 thp1 p1 where r: "Send full_net e t (Some d) (of_nat (length d)) timeout c = Some (True, c1)"
      "rt_feed full_net (frame t d) (thp, p) = Some (thp1, p1)" "rt_idle th1" "cb_inv c1" "same_conn c c1"
      "inbox c1 = inbox c" "cb_received_type c1 = cb_received_type c"
      "rt_idle thp1" "cb_inv p1" "inbox p1 = [frame_message (t, d)]" "IsSendSucceeded p1"
    using Send_handshake [OF client(1,2,4) server(1,3,4) u request(4) _ e, of timeout] server(2,5) by auto
  have k: "KeepReceiving c1" using same_conn_keep [OF r(5)] client(3) by simp
  obtain p2 where s: "serve_event w created (p1, st) =
      Some (Handled (True, p2, st\<lparr>srv := logged (w_link w) t a (srv st)\<rparr>))" "cb_inv p2" "p2 = p1\<lparr>cb_executer := cb_executer p2\<rparr>"
    using serve_event_step [OF r(9,10) plain_request_handled [OF request(1,2)]] unfolding a by blast
  have ok: "IsSendSucceeded p2" by (subst s(3)) (use r(11) in \<open>auto simp: IsSendSucceeded_def split: if_splits\<close>)
  have "\<exists>p3 th2 c2. Send full_net e' t (Some a) (of_nat (length a)) 1000000 p2 = Some (True, p3) \<and>
        rt_feed full_net (frame t a) (th1, c1) = Some (th2, c2) \<and> inbox c2 = [frame_message (t, a)]"
    if "se_now e' \<noteq> -1 \<and> se_race e' = Some \<and> se_wait e' = peer_answers thp1 (th1, c1) (length (cb_log p2))" for e'
    using Send_handshake [OF s(2) ok r(8) r(4) k r(3) ua, of e' 1000000] that request(3) r(6,7) client(5) by auto
  then show ?thesis using r(1,2) s(1) by blast
qed

text \<open>A client asks for the version and for a file, and then for the version once more, end to end.\<close>

definition demo_server :: "(_, _, _, (bytes \<Rightarrow> bytes option) \<times> bytes list) server" where
  "demo_server = \<lparr>srv = CCommonServer_new None 0 no_memory, stores = board_sim, files = (\<lambda>_. None, []), dirs = 0\<rparr>"

lemma demo_answers:
  "answer_to demo_world (\<lambda>_. None, []) (MSG_CHECKFILEEXISTS, [97, 0]) = str ''0''"
  "answer_to demo_world (\<lambda>_. None, []) (MSG_GETVERSION, []) = str ''20130508''"
  by (simp_all add: answer_to_def msg_types demo_world_def demo_posix_def)

theorem requests_served_in_order_witness:
  "\<exists>th' c' c'' l. rt_run full_net (replicate 66 (Readable 7))
      (frame MSG_CHECKFILEEXISTS [97, 0] @ frame MSG_GETVERSION [], idle_thread, connected 5) = Some ([], th', c') \<and>
    serve_events demo_world True 3 (c', demo_server) =
      Some (c'', demo_server\<lparr>srv := (srv demo_server)\<lparr>sv_log := l\<rparr>\<rparr>) \<and>
    map (\<lambda>(t, a, _). (t, a)) l = [(MSG_CHECKFILEEXISTS, str ''0''), (MSG_GETVERSION, str ''20130508'')]"
proof -
  let ?fs = "[(MSG_CHECKFILEEXISTS, [97, 0]), (MSG_GETVERSION, [])] :: (u32 \<times> bytes) list"
  have s: "5 \<noteq> INVALID_SOCKET" by (simp add: INVALID_SOCKET_def)
  have p: "\<forall>f \<in> set ?fs. plain_request f \<and> length (snd f) \<le> 65504" by (simp add: plain_request_def)
  have t: "cb_received_type (connected 5) \<notin> fst ` set ?fs" by (simp add: msg_types)
  have q: "\<forall>ev \<in> set (replicate 66 (Readable 7)). quiet ev" by (simp add: quiet_def)
  have n: "length (concat (map (\<lambda>(t, d). frame t d) ?fs)) \<le> length (filter readable (replicate 66 (Readable 7)))"
    by (simp add: readable_def)
  have f: "files demo_server = (\<lambda>_. None, [])" "sv_log (srv demo_server) = []"
    by (simp_all add: demo_server_def CCommonServer_new_def)
  have three: "Suc (length ?fs) = 3" by simp
  have m: "length ?fs \<le> 256" by simp
  obtain th' c' c'' l where
    "rt_run full_net (replicate 66 (Readable 7)) (concat (map (\<lambda>(t, d). frame t d) ?fs), idle_thread, connected 5) =
       Some ([], th', c')"
    "serve_events demo_world True 3 (c', demo_server) =
       Some (c'', demo_server\<lparr>srv := (srv demo_server)\<lparr>sv_log := sv_log (srv demo_server) @ l\<rparr>\<rparr>)"
    "map (\<lambda>(t, a, _). (t, a)) l = map (\<lambda>f. (fst f, answer_to demo_world (files demo_server) f)) ?fs"
    using requests_served_in_order [OF connected_inv connected_keep [OF s] rt_idle_thread connected_inbox p t m q n,
        of demo_world True demo_server] unfolding three by (elim exE conjE) (rule that)
  then show ?thesis
    by (intro exI [of _ th'] exI [of _ c'] exI [of _ c''] exI [of _ l]) (simp add: f demo_answers del: map_eq_Cons_conv)
qed

theorem request_answered_witness:
  "let e = \<lparr>se_now0 = 0, se_sent_time = 0, se_now = 0, se_race = Some,
            se_wait = peer_answers idle_thread (idle_thread, connected 6) 0\<rparr> in
   \<exists>c1 th1 p1 thp1 p2 st1.
     Send full_net e MSG_GETVERSION (Some []) 0 10 (connected 5) = Some (True, c1) \<and>
     rt_feed full_net (frame MSG_GETVERSION []) (idle_thread, connected 6) = Some (thp1, p1) \<and>
     serve_event demo_world True (p1, demo_server) = Some (Handled (True, p2, st1)) \<and>
     (\<exists>p3 th2 c2. Send full_net (e\<lparr>se_wait := peer_answers thp1 (th1, c1) (length (cb_log p2))\<rparr>)
         MSG_GETVERSION (Some (str ''20130508'')) 8 1000000 p2 = Some (True, p3) \<and>
       rt_feed full_net (frame MSG_GETVERSION (str ''20130508'')) (th1, c1) = Some (th2, c2) \<and>
       inbox c2 = [frame_message (MSG_GETVERSION, str ''20130508'')])"
proof -
  let ?e = "\<lparr>se_now0 = 0, se_sent_time = 0, se_now = 0, se_race = Some,
            se_wait = peer_answers idle_thread (idle_thread, connected 6) 0\<rparr>"
  have s: "5 \<noteq> INVALID_SOCKET" "6 \<noteq> INVALID_SOCKET" by (simp_all add: INVALID_SOCKET_def)
  have ok: "IsSendSucceeded (connected 5)" "IsSendSucceeded (connected 6)" using s by (simp_all add: IsSendSucceeded_def)
  have r: "plain_request (MSG_GETVERSION, [])" by (simp add: plain_request_def)
  have t: "MSG_GETVERSION \<noteq> cb_received_type (connected 5)" "MSG_GETVERSION \<noteq> cb_received_type (connected 6)"
    by (simp_all add: msg_types)
  have a: "str ''20130508'' = answer_to demo_world (files demo_server) (MSG_GETVERSION, [])" "length (str ''20130508'') = 8"
    by (simp_all add: answer_to_def str_def)
  have e: "se_wait ?e = peer_answers idle_thread (idle_thread, connected 6) (length (cb_log (connected 5)))" by simp
  obtain c1 th1 p1 thp1 p2 st1 where
    "Send full_net ?e MSG_GETVERSION (Some []) (of_nat (length ([] :: bytes))) 10 (connected 5) = Some (True, c1)"
    "rt_feed full_net (frame MSG_GETVERSION []) (idle_thread, connected 6) = Some (thp1, p1)"
    "serve_event demo_world True (p1, demo_server) = Some (Handled (True, p2, st1))"
    "\<forall>e'. se_now e' \<noteq> -1 \<and> se_race e' = Some \<and> se_wait e' = peer_answers thp1 (th1, c1) (length (cb_log p2)) \<longrightarrow>
      (\<exists>p3 th2 c2. Send full_net e' MSG_GETVERSION (Some (str ''20130508'')) (of_nat (length (str ''20130508''))) 1000000 p2
           = Some (True, p3) \<and>
        rt_feed full_net (frame MSG_GETVERSION (str ''20130508'')) (th1, c1) = Some (th2, c2) \<and>
        inbox c2 = [frame_message (MSG_GETVERSION, str ''20130508'')])"
    using request_answered [OF connected_inv ok(1) connected_keep [OF s(1)] rt_idle_thread connected_inbox
        connected_inv ok(2) connected_keep [OF s(2)] rt_idle_thread connected_inbox r _ t _ _ e a(1), of 10 True]
    by auto
  note r1 = this
  let ?e2 = "?e\<lparr>se_wait := peer_answers thp1 (th1, c1) (length (cb_log p2))\<rparr>"
  have "se_now ?e2 \<noteq> -1 \<and> se_race ?e2 = Some \<and> se_wait ?e2 = peer_answers thp1 (th1, c1) (length (cb_log p2))" by simp
  from r1(4) [rule_format, OF this] obtain p3 th2 c2 where r2:
    "Send full_net ?e2 MSG_GETVERSION (Some (str ''20130508'')) (of_nat (length (str ''20130508''))) 1000000 p2 = Some (True, p3)"
    "rt_feed full_net (frame MSG_GETVERSION (str ''20130508'')) (th1, c1) = Some (th2, c2)"
    "inbox c2 = [frame_message (MSG_GETVERSION, str ''20130508'')]"
    by (elim exE conjE) (rule that)
  have z: "of_nat (length (str ''20130508'')) = (8 :: u32)" "of_nat (length ([] :: bytes)) = (0 :: u32)" by (simp_all add: a(2))
  show ?thesis unfolding Let_def
    by (intro exI conjI, rule r1(1) [unfolded z], rule r1(2), rule r1(3), rule r2(1) [unfolded z], rule r2(2), rule r2(3))
qed

end
