(* ===== verification/Listeners.thy ===== *)
theory Listeners
  imports ClientBase DeviceCommands
begin

text \<open>
  How the server is started and stopped and how clients find it (\<^verbatim>\<open>common/VControlServer.cpp\<close>,
  \<^verbatim>\<open>app/main.cpp\<close>): the listener for broadcasts, the listener for connections with the thread of
  each connection, \<^verbatim>\<open>StartCommonServer\<close>, \<^verbatim>\<open>StopCommonServer\<close> and the arguments of \<^verbatim>\<open>main\<close>. What the
  system calls return is an argument.
\<close>

definition BUFFER_SIZE :: nat where "BUFFER_SIZE = 1024"
definition SERVER_TCP_PORT :: int where "SERVER_TCP_PORT = 11000"
definition SERVER_UDP_PORT :: int where "SERVER_UDP_PORT = 11100"
definition MAX_DIR_LEN :: nat where "MAX_DIR_LEN = 256"

subsection \<open>Arguments\<close>

record config =
  g_szAppName :: bytes
  g_IsDbg :: bool
  g_iServerTCPPort :: int
  g_iServerUDPPort :: int

definition config_new :: config where
  "config_new = \<lparr>g_szAppName = replicate MAX_DIR_LEN 0, g_IsDbg = False,
     g_iServerTCPPort = SERVER_TCP_PORT, g_iServerUDPPort = SERVER_UDP_PORT\<rparr>"

text \<open>
  The arguments behind the name of the program, without their NUL. The result of the inner kind
  is \<open>None\<close> when only the usage is shown.
\<close>

definition main_arguments :: "bytes list \<Rightarrow> config option option" where
  "main_arguments argv =
     (case argv of
        [] \<Rightarrow> Some None
      | name # rest \<Rightarrow> do {
          app \<leftarrow> memcpy (replicate MAX_DIR_LEN 0) 0 (name @ [0]) 0 (length name + 1);
          let g = config_new\<lparr>g_szAppName := app\<rparr>;
          let g = (if rest \<noteq> [] \<and> hd rest = str ''debug'' then g\<lparr>g_IsDbg := True\<rparr> else g);
          g \<leftarrow> (if 2 \<le> length rest then do {
                  n \<leftarrow> atoi (rest ! 1 @ [0]);
                  Some (g\<lparr>g_iServerTCPPort := n\<rparr>)
                }
                else Some g);
          g \<leftarrow> (if 3 \<le> length rest then do {
                  n \<leftarrow> atoi (rest ! 2 @ [0]);
                  Some (g\<lparr>g_iServerUDPPort := n\<rparr>)
                }
                else Some g);
          Some (Some g)
        })"

text \<open>
  What the listeners do before their loops, with the results of \<^verbatim>\<open>socket\<close>, \<^verbatim>\<open>bind\<close> and \<^verbatim>\<open>listen\<close>:
  the socket and the port they use, of which only the lower half counts. With \<open>None\<close> the whole
  process has called \<^verbatim>\<open>exit(1)\<close>.
\<close>

definition udp_setup :: "config \<Rightarrow> int \<Rightarrow> int \<Rightarrow> (int \<times> 16 word) option" where
  "udp_setup g sock bound =
     (if sock < 0 then None
      else if bound \<noteq> 0 then None
      else Some (sock, word_of_int (g_iServerUDPPort g)))"

definition tcp_setup :: "config \<Rightarrow> int \<Rightarrow> int \<Rightarrow> int \<Rightarrow> (int \<times> 16 word) option" where
  "tcp_setup g sock bound listens =
     (if sock < 0 then None
      else if bound \<noteq> 0 then None
      else if listens \<noteq> 0 then None
      else Some (sock, word_of_int (g_iServerTCPPort g)))"

lemma large_port_wraps: "tcp_setup (config_new\<lparr>g_iServerTCPPort := 76536\<rparr>) 3 0 0 = tcp_setup config_new 3 0 0"
  by (simp add: tcp_setup_def config_new_def SERVER_TCP_PORT_def)

subsection \<open>Discovery\<close>

text \<open>\<^verbatim>\<open>!strcmp(lit, buffer)\<close>; the literal ends the comparison.\<close>

definition same_text :: "bytes \<Rightarrow> bytes \<Rightarrow> bool" where
  "same_text lit buffer \<longleftrightarrow> take (length lit + 1) buffer = lit @ [0]"

definition CAST :: bytes where "CAST = str ''SOFTUPDATE400CAST''"
definition CAST_ANSWER :: bytes where "CAST_ANSWER = str ''SOFTUPDATE400CAST:''"

text \<open>What \<^verbatim>\<open>select\<close> and \<^verbatim>\<open>recvfrom\<close> give; a datagram is cut to the size of the buffer.\<close>

datatype udp_in = No_datagram | Recv_failed | Datagram bytes

text \<open>
  One pass of the loop of \<^verbatim>\<open>BeginMySocketBroadcastListen\<close>: whether it goes on and what it sends back.
  The outer \<open>None\<close> is a read behind the end of \<^verbatim>\<open>pSerNumber\<close>.
\<close>

definition udp_pass ::
  "bool \<Rightarrow> udp_in \<Rightarrow> 'd susi_state \<Rightarrow> (bool \<times> bytes option \<times> 'd susi_state) option" where
  "udp_pass StopAll r E =
     (if StopAll then Some (False, None, E)
      else case r of
        No_datagram \<Rightarrow> Some (True, None, E)
      | Recv_failed \<Rightarrow> Some (True, None, E)
      | Datagram d \<Rightarrow> do {
          buffer \<leftarrow> memcpy (replicate BUFFER_SIZE 0) 0 d 0 (min BUFFER_SIZE (length d));
          if same_text CAST buffer then do {
            (iRet, p, E) \<leftarrow> ReadSerialNumber (Some (replicate 14 0)) E;
            pSerNumber \<leftarrow> p;
            sn \<leftarrow> c_string pSerNumber;
            let text = CAST_ANSWER @ sn;
            buffer \<leftarrow> memcpy (replicate BUFFER_SIZE 0) 0 (text @ [0]) 0 (length text + 1);
            Some (True, Some (take (strlen buffer) buffer), E)
          }
          else Some (True, None, E)
        })"

subsection \<open>Connections\<close>

text \<open>
  \<^verbatim>\<open>CreatCommonServerInstance\<close> up to its loop, with what happens in \<^verbatim>\<open>SetSocket\<close>; whether its loop
  goes on; the end. The connection is served if the first component is true.
\<close>

definition CCommonServer_Connect :: "net \<Rightarrow> ClientBase \<Rightarrow> ClientBase option" where
  "CCommonServer_Connect net css = do {
     (_, css) \<leftarrow> SimpleSend net MSG_CONNECT css;
     Some css
   }"

definition GetIsConnection :: "ClientBase \<Rightarrow> bool" where
  "GetIsConnection css = KeepReceiving css"

definition instance_start :: "net \<Rightarrow> conn_env \<Rightarrow> int \<Rightarrow> int \<Rightarrow> int \<Rightarrow> (bool \<times> ClientBase) option" where
  "instance_start net e created now socketClient = do {
     let css = ClientBase_new created now;
     (error, css) \<leftarrow> SetSocket net e socketClient css;
     if error = 0 then do {
       css \<leftarrow> CCommonServer_Connect net css;
       Some (True, css)
     }
     else Some (False, css)
   }"

text \<open>The thread of a connection: started, in its loop, at its end.\<close>

datatype connection = Started | Serves int ClientBase | Ended

text \<open>
  The server: the flag, the handles of the two listeners, the variable \<^verbatim>\<open>newClient_socket\<close> of the
  listener for connections (of which the threads get the address), the threads of connections and
  the sockets they were started for.
\<close>

record service =
  StopAll :: bool
  threadHandleListen :: bool
  threadHandleBroadcastListen :: bool
  newClient_socket :: "int option"
  connections :: "connection list"
  started_for :: "int list"

definition service_new :: service where
  "service_new = \<lparr>StopAll = False, threadHandleListen = False, threadHandleBroadcastListen = False,
     newClient_socket = None, connections = [], started_for = []\<rparr>"

text \<open>
  With listeners running \<^verbatim>\<open>StartCommonServer\<close> calls \<^verbatim>\<open>pthread_exit\<close>, which ends the thread that
  called: there is no result then.
\<close>

definition StartCommonServer :: "bool \<Rightarrow> bool \<Rightarrow> service \<Rightarrow> bool option \<times> service" where
  "StartCommonServer created1 created2 g =
     (let g = g\<lparr>StopAll := False\<rparr> in
      if threadHandleBroadcastListen g then (None, g)
      else if threadHandleListen g then (None, g)
      else if \<not> created1 then (Some False, g)
      else
        let g = g\<lparr>threadHandleBroadcastListen := True\<rparr> in
        if \<not> created2 then (Some False, g)
        else (Some True, g\<lparr>threadHandleListen := True\<rparr>))"

definition StopCommonServer_call :: "service \<Rightarrow> service" where
  "StopCommonServer_call g = g\<lparr>StopAll := True\<rparr>"

definition StopCommonServer_waits :: "service \<Rightarrow> bool" where
  "StopCommonServer_waits g \<longleftrightarrow> threadHandleListen g \<or> threadHandleBroadcastListen g"

text \<open>
  The loop of \<^verbatim>\<open>main\<close> on the characters of the standard input, with what is left of them; without
  an x it never ends, as \<^verbatim>\<open>getchar\<close> goes on returning its code at the end of the input.
\<close>

fun wait_for_x :: "bytes \<Rightarrow> bytes option" where
  "wait_for_x [] = None"
| "wait_for_x (c # cs) = (if c = 120 \<or> c = 88 then Some cs else wait_for_x cs)"

datatype main_end = Usage | Runs config service | Stopped config service

definition main_run :: "bool \<Rightarrow> bool \<Rightarrow> bytes \<Rightarrow> bytes list \<Rightarrow> main_end option" where
  "main_run created1 created2 input argv = do {
     r \<leftarrow> main_arguments argv;
     case r of
       None \<Rightarrow> Some Usage
     | Some g \<Rightarrow>
         (case StartCommonServer created1 created2 service_new of
            (None, s) \<Rightarrow> Some (Runs g s)
          | (Some a, s) \<Rightarrow>
              if \<not> a then Some (Stopped g (StopCommonServer_call s))
              else case wait_for_x input of
                None \<Rightarrow> Some (Runs g s)
              | Some _ \<Rightarrow> Some (Stopped g (StopCommonServer_call s)))
   }"

text \<open>
  One pass of the loop of \<^verbatim>\<open>BeginMySocketListen\<close>; \<open>r\<close> is what \<^verbatim>\<open>accept\<close> returns, if \<^verbatim>\<open>select\<close> saw a
  client. When the function returns its variable is gone.
\<close>

definition tcp_pass :: "int option \<Rightarrow> bool \<Rightarrow> service \<Rightarrow> service" where
  "tcp_pass r created g =
     (if StopAll g then g\<lparr>threadHandleListen := False, newClient_socket := None\<rparr>
      else case r of
        None \<Rightarrow> g
      | Some s \<Rightarrow>
          if s < 0 then g\<lparr>threadHandleListen := False, newClient_socket := None\<rparr>
          else let g = g\<lparr>newClient_socket := Some s\<rparr> in
            if created then g\<lparr>connections := connections g @ [Started], started_for := started_for g @ [s]\<rparr>
            else g)"

lemma udp_pass_goes_on: "udp_pass stop r E = Some (goes_on, answer, E') \<Longrightarrow> goes_on = (\<not> stop)"
  by (auto simp: udp_pass_def bind_eq_Some_conv Let_def split: if_splits udp_in.splits)

text \<open>A step of the threads. A run is prompt if no client is accepted before the thread of the last one read its socket.\<close>

inductive service_step :: "bool \<Rightarrow> service \<Rightarrow> service \<Rightarrow> bool" for prompt where
  listen: "threadHandleListen g \<Longrightarrow> (prompt \<Longrightarrow> Started \<notin> set (connections g)) \<Longrightarrow>
    service_step prompt g (tcp_pass r created g)"
| broadcast: "threadHandleBroadcastListen g \<Longrightarrow>
    service_step prompt g (g\<lparr>threadHandleBroadcastListen := \<not> StopAll g\<rparr>)"
| read_socket: "i < length (connections g) \<Longrightarrow> connections g ! i = Started \<Longrightarrow> newClient_socket g = Some s \<Longrightarrow>
    instance_start net e created now s = Some (ok, css) \<Longrightarrow>
    service_step prompt g (g\<lparr>connections := (connections g)[i := if ok then Serves s css else Ended]\<rparr>)"
| serve: "i < length (connections g) \<Longrightarrow> connections g ! i = Serves s css \<Longrightarrow>
    service_step prompt g (g\<lparr>connections := (connections g)[i := Serves s css']\<rparr>)"
| leave: "i < length (connections g) \<Longrightarrow> connections g ! i = Serves s css \<Longrightarrow>
    \<not> (GetIsConnection css \<and> \<not> StopAll g) \<Longrightarrow>
    service_step prompt g (g\<lparr>connections := (connections g)[i := Ended]\<rparr>)"
| stop: "service_step prompt g (StopCommonServer_call g)"

subsection \<open>The arguments and the datagrams\<close>

lemma long_name_overruns: "MAX_DIR_LEN \<le> length name \<Longrightarrow> main_arguments (name # rest) = None"
  by (simp add: main_arguments_def memcpy_def)

text \<open>Default ports, and ports that are no numbers.\<close>

lemma main_arguments_ports:
  assumes "length name < MAX_DIR_LEN"
  shows "main_arguments [name, str ''debug''] = Some (Some (config_new
           \<lparr>g_szAppName := blit (replicate MAX_DIR_LEN 0) 0 (name @ [0]), g_IsDbg := True\<rparr>))"
    "main_arguments [name, str ''debug'', str ''x''] = Some (Some (config_new
           \<lparr>g_szAppName := blit (replicate MAX_DIR_LEN 0) 0 (name @ [0]), g_IsDbg := True, g_iServerTCPPort := 0\<rparr>))"
  using assms by (simp_all add: main_arguments_def memcpy_def atoi_def str_def isspace_def is_digit_def clamp_def)

text \<open>With both listeners started the server runs on exactly if no x comes.\<close>

lemma wait_for_x_None: "wait_for_x input = None \<longleftrightarrow> 120 \<notin> set input \<and> 88 \<notin> set input"
  by (induction input) auto

lemma main_run_ends:
  assumes "main_arguments argv = Some (Some g)"
  shows "\<exists>s. threadHandleListen s \<and> threadHandleBroadcastListen s \<and> main_run True True input argv =
    (if 120 \<in> set input \<or> 88 \<in> set input then Some (Stopped g (StopCommonServer_call s)) else Some (Runs g s))"
  using assms wait_for_x_None [of input]
  by (intro exI [of _ "snd (StartCommonServer True True service_new)"])
    (auto simp: main_run_def StartCommonServer_def service_new_def split: option.split)

text \<open>A listener that cannot be started stops the one that was.\<close>

lemma main_run_not_started:
  assumes "main_arguments argv = Some (Some g)"
  shows "\<exists>s. StopAll s \<and> main_run True False input argv = Some (Stopped g s)"
  using assms by (auto simp: main_run_def StartCommonServer_def StopCommonServer_call_def service_new_def)

text \<open>The datagrams that ask for the server: the text, and perhaps more behind a NUL.\<close>

definition asks :: "bytes \<Rightarrow> bool" where
  "asks d \<longleftrightarrow> d = CAST \<or> (\<exists>r. d = CAST @ 0 # r)"

lemma length_CAST: "length CAST = 17" "length CAST_ANSWER = 18" "0 \<notin> set CAST_ANSWER"
  by (simp_all add: CAST_def CAST_ANSWER_def str_def)

lemma same_text_asks: "same_text CAST (blit (replicate BUFFER_SIZE 0) 0 (take (min BUFFER_SIZE (length d)) d)) = asks d"
proof -
  let ?n = "min BUFFER_SIZE (length d)"
  have b: "blit (replicate BUFFER_SIZE 0) 0 (take ?n d) = take ?n d @ replicate (BUFFER_SIZE - ?n) 0"
    by (simp add: blit_def)
  have "take 18 (take ?n d @ replicate (BUFFER_SIZE - ?n) 0) = CAST @ [0] \<longleftrightarrow> asks d"
  proof
    assume t: "take 18 (take ?n d @ replicate (BUFFER_SIZE - ?n) 0) = CAST @ [0]"
    show "asks d"
    proof (cases "18 \<le> length d")
      case True
      then have "take 18 d = CAST @ [0]" using t by (simp add: BUFFER_SIZE_def)
      then have "d = (CAST @ [0]) @ drop 18 d" using append_take_drop_id [of 18 d] by metis
      then show ?thesis unfolding asks_def by auto
    next
      case False
      then have e: "d @ replicate (18 - length d) 0 = CAST @ [0]" using t by (simp add: BUFFER_SIZE_def min_def split: if_splits)
      then obtain k where k: "18 - length d = Suc k" using False by (cases "18 - length d") auto
      have "(d @ replicate k 0) @ [0] = CAST @ [0]" using e unfolding k by (simp add: replicate_append_same)
      then have "d @ replicate k 0 = CAST" by simp
      moreover have "k = 0"
      proof (rule ccontr)
        assume "k \<noteq> 0"
        then have "0 \<in> set (d @ replicate k 0)" by simp
        then show False using \<open>d @ replicate k 0 = CAST\<close> by (simp add: CAST_def str_def)
      qed
      ultimately show ?thesis by (simp add: asks_def)
    qed
  next
    assume "asks d"
    then show "take 18 (take ?n d @ replicate (BUFFER_SIZE - ?n) 0) = CAST @ [0]"
      using length_CAST by (auto simp: asks_def BUFFER_SIZE_def min_def take_Cons')
  qed
  then show ?thesis by (simp add: same_text_def b length_CAST)
qed

text \<open>
  C27: A datagram is answered exactly if it is the agreed text, alone or with more behind a NUL; the
  answer is the agreed prefix with the serial number of the instrument. The serial number is read
  into 14 bytes and printed as a string: one that fills them is read beyond their end.
\<close>

theorem discovery_answered:
  assumes "susi_ok E" "susi_works (fst E)"
  defines "sn \<equiv> take 14 (drop 16 (susi_image E))"
  shows "(\<not> asks d \<longrightarrow> udp_pass False (Datagram d) E = Some (True, None, E)) \<and>
    (asks d \<and> 0 \<notin> set sn \<longrightarrow> udp_pass False (Datagram d) E = None) \<and>
    (asks d \<and> 0 \<in> set sn \<longrightarrow> (\<exists>E'. udp_pass False (Datagram d) E = Some (True, Some (CAST_ANSWER @ cstr sn), E') \<and>
       susi_image E' = susi_image E))"
proof -
  let ?n = "min BUFFER_SIZE (length d)"
  have m: "memcpy (replicate BUFFER_SIZE 0) 0 d 0 ?n = Some (blit (replicate BUFFER_SIZE 0) 0 (take ?n d))"
    by (simp add: memcpy_def)
  obtain E' where r: "ReadSerialNumber (Some (replicate 14 0)) E = Some (0, Some sn, E')" "susi_image E' = susi_image E"
    using ReadSerialNumber_works [OF assms(1,2)] by (auto simp: sn_def)
  have sn: "length (cstr sn) \<le> 14" "0 \<notin> set (cstr sn)"
    by (auto simp: sn_def cstr_def dest: set_takeWhileD intro: le_trans [OF length_takeWhile_le])
  let ?t = "CAST_ANSWER @ cstr sn"
  have p: "memcpy (replicate BUFFER_SIZE 0) 0 (?t @ [0]) 0 (length ?t + 1) = Some (pad BUFFER_SIZE ?t)"
    using memcpy_pad [of ?t BUFFER_SIZE] sn(1) length_CAST by (simp add: pad_Nil BUFFER_SIZE_def)
  have q: "take (strlen (pad BUFFER_SIZE ?t)) (pad BUFFER_SIZE ?t) = ?t"
    using strlen_pad [of ?t BUFFER_SIZE] take_pad [of ?t BUFFER_SIZE] sn length_CAST by (simp add: BUFFER_SIZE_def)
  have c: "c_string sn = (if 0 \<in> set sn then Some (cstr sn) else None)"
    by (simp add: c_string_def)
  show ?thesis
    using r(2) p q by (auto simp: udp_pass_def m same_text_asks r(1) c Let_def)
qed

lemma susi_sim_image: "susi_image (susi_sim, d) = take 255 d @ replicate (255 - length d) 0"
  by (simp add: susi_image_def susi_sim_def)

theorem discovery_answered_witness:
  "\<exists>E'. udp_pass False (Datagram CAST) (susi_sim, replicate 255 0) = Some (True, Some CAST_ANSWER, E')"
proof -
  have "\<exists>E'. udp_pass False (Datagram CAST) (susi_sim, replicate 255 0) =
      Some (True, Some (CAST_ANSWER @ cstr (take 14 (drop 16 (susi_image (susi_sim, replicate 255 0))))), E')"
    using discovery_answered [OF susi_sim_ok, of "replicate 255 0" CAST] susi_sim_works
    by (auto simp: asks_def susi_sim_image)
  then show ?thesis by (simp add: susi_sim_image cstr_def)
qed

subsection \<open>The threads of the connections\<close>

text \<open>What holds when no client is accepted before the thread of the last one has read its socket.\<close>

definition conn_inv :: "service \<Rightarrow> bool" where
  "conn_inv g \<longleftrightarrow> length (connections g) = length (started_for g) \<and>
     (\<forall>i < length (connections g). case connections g ! i of
        Started \<Rightarrow> Suc i = length (connections g) \<and> newClient_socket g \<in> {None, Some (started_for g ! i)}
      | Serves s _ \<Rightarrow> s = started_for g ! i
      | Ended \<Rightarrow> True)"

lemma conn_inv_update:
  assumes "conn_inv g" "i < length (connections g)"
    "case c of Started \<Rightarrow> False | Serves s _ \<Rightarrow> s = started_for g ! i | Ended \<Rightarrow> True"
  shows "conn_inv (g\<lparr>connections := (connections g)[i := c]\<rparr>)"
  using assms by (auto simp: conn_inv_def nth_list_update split: connection.splits)

lemma conn_inv_pass:
  assumes "conn_inv g" "Started \<notin> set (connections g)"
  shows "conn_inv (tcp_pass r created g)"
proof -
  have s: "connections g ! i \<noteq> Started" if "i < length (connections g)" for i
    using that assms(2) by (metis nth_mem)
  have k: "conn_inv (g\<lparr>newClient_socket := x\<rparr>)" "conn_inv (g\<lparr>threadHandleListen := False, newClient_socket := x\<rparr>)" for x
    using assms(1) s by (auto simp: conn_inv_def split: connection.splits)
  have "conn_inv (g\<lparr>newClient_socket := Some x, connections := connections g @ [Started], started_for := started_for g @ [x]\<rparr>)" for x
    using assms(1) s by (auto simp: conn_inv_def nth_append less_Suc_eq split: connection.splits)
  then show ?thesis using k assms(1) by (simp add: tcp_pass_def Let_def split: option.splits)
qed

lemma conn_inv_step: "service_step True g g' \<Longrightarrow> conn_inv g \<Longrightarrow> conn_inv g'"
proof (induction rule: service_step.induct)
  case (listen g r created)
  then show ?case by (simp add: conn_inv_pass)
next
  case (broadcast g)
  then show ?case by (auto simp: conn_inv_def split: connection.splits)
next
  case (read_socket i g s net e created now ok css)
  then have "s = started_for g ! i" unfolding conn_inv_def by fastforce
  then show ?case using read_socket by (intro conn_inv_update) auto
next
  case (serve i g s css css')
  then have "s = started_for g ! i" unfolding conn_inv_def by fastforce
  then show ?case using serve by (intro conn_inv_update) auto
next
  case (leave i g s css)
  then show ?case by (intro conn_inv_update) auto
next
  case (stop g)
  then show ?case by (auto simp: conn_inv_def StopCommonServer_call_def split: connection.splits)
qed

lemma conn_inv_steps: "(service_step True)\<^sup>*\<^sup>* g g' \<Longrightarrow> conn_inv g \<Longrightarrow> conn_inv g'"
  by (induction rule: rtranclp_induct) (auto intro: conn_inv_step)

text \<open>An environment in which every call succeeds.\<close>

definition calm_net :: net where "calm_net = (\<lambda>_ m. int (length m))"

definition calm_env :: conn_env where
  "calm_env = \<lparr>ce_socket = 5, ce_rcvbuf = 0, ce_sndbuf = 0, ce_device = 0, ce_keepalive = 0,
     ce_getfl = 2, ce_setfl = 0, ce_connect = 0, ce_inprogress = False, ce_select = 0,
     ce_getfl2 = 2, ce_setfl2 = 0, ce_thread = 0, ce_now = 0, ce_wait = (\<lambda>c. Some (0, c)),
     ce_exit_now = 0, ce_exit_wait = (\<lambda>c. Some (0, c))\<rparr>"

lemma instance_start_serves:
  assumes "0 \<le> s"
  shows "\<exists>css. instance_start calm_net calm_env 0 0 s = Some (True, css) \<and> cb_socket css = s \<and> KeepReceiving css \<and>
    cb_log css = [Sent (frame MSG_CONNECT [])]"
  using assms
  by (simp add: instance_start_def SetSocket_def ClientBase_new_def calm_env_def INVALID_SOCKET_def SetKeepReceiving_def
      CCommonServer_Connect_def SimpleSend_def CreateFrame_empty CoreSend_def calm_net_def Let_def length_frame
      emit_def KeepReceiving_def)

definition running :: service where
  "running = snd (StartCommonServer True True service_new)"

lemma running: "running = service_new\<lparr>threadHandleListen := True, threadHandleBroadcastListen := True\<rparr>"
  by (simp add: running_def StartCommonServer_def service_new_def)

text \<open>
  C26: If every thread reads its socket before the next client is accepted, each connection is served
  by the thread that was started for it. Nothing makes the listener wait for that, and the threads
  get the address of one variable: two clients that come at once can end up with two threads for
  the second and none for the first.
\<close>

theorem connections_served:
  "(\<forall>g i s css. (service_step True)\<^sup>*\<^sup>* running g \<and> i < length (connections g) \<and> connections g ! i = Serves s css \<longrightarrow>
      i < length (started_for g) \<and> s = started_for g ! i) \<and>
   (\<forall>a b. 0 \<le> a \<and> 0 \<le> b \<longrightarrow> (\<exists>g c d. (service_step False)\<^sup>*\<^sup>* running g \<and> started_for g = [a, b] \<and>
      connections g = [Serves b c, Serves b d] \<and> GetIsConnection c \<and> GetIsConnection d))"
proof (intro conjI allI impI)
  fix g i s css
  assume a: "(service_step True)\<^sup>*\<^sup>* running g \<and> i < length (connections g) \<and> connections g ! i = Serves s css"
  have "conn_inv running" by (simp add: conn_inv_def running service_new_def)
  with a have "conn_inv g" by (blast intro: conn_inv_steps)
  then show "i < length (started_for g)" "s = started_for g ! i" using a by (fastforce simp: conn_inv_def)+
next
  fix a b :: int
  assume ab: "0 \<le> a \<and> 0 \<le> b"
  obtain c where c: "instance_start calm_net calm_env 0 0 b = Some (True, c)" "KeepReceiving c"
    using instance_start_serves ab by blast
  let ?S = "service_step False"
  define g1 where "g1 = tcp_pass (Some a) True running"
  define g2 where "g2 = tcp_pass (Some b) True g1"
  define g3 where "g3 = g2\<lparr>connections := (connections g2)[0 := Serves b c]\<rparr>"
  define g4 where "g4 = g3\<lparr>connections := (connections g3)[1 := Serves b c]\<rparr>"
  have e: "g1 = running\<lparr>newClient_socket := Some a, connections := [Started], started_for := [a]\<rparr>"
    "g2 = g1\<lparr>newClient_socket := Some b, connections := [Started, Started], started_for := [a, b]\<rparr>"
    using ab by (simp_all add: g1_def g2_def tcp_pass_def running service_new_def)
  have "?S running g1" unfolding g1_def by (rule service_step.listen) (simp_all add: running)
  moreover have "?S g1 g2" unfolding g2_def by (rule service_step.listen) (simp_all add: e running)
  moreover have "?S g2 g3"
    unfolding g3_def using service_step.read_socket [of 0 g2 b calm_net calm_env 0 0 True c False] c by (simp add: e)
  moreover have "?S g3 g4"
    unfolding g4_def using service_step.read_socket [of 1 g3 b calm_net calm_env 0 0 True c False] c by (simp add: e g3_def)
  ultimately have "?S\<^sup>*\<^sup>* running g4" by (meson converse_rtranclp_into_rtranclp rtranclp.rtrancl_refl)
  then show "\<exists>g c d. ?S\<^sup>*\<^sup>* running g \<and> started_for g = [a, b] \<and> connections g = [Serves b c, Serves b d] \<and>
      GetIsConnection c \<and> GetIsConnection d"
    using c by (intro exI [of _ g4] exI [of _ c]) (simp add: g4_def g3_def e GetIsConnection_def)
qed

theorem connections_served_witness:
  "(\<exists>g css. (service_step True)\<^sup>*\<^sup>* running g \<and> connections g = [Serves 5 css] \<and> started_for g ! 0 = 5) \<and>
   (\<exists>g c d. (service_step False)\<^sup>*\<^sup>* running g \<and> started_for g = [5, 6] \<and> connections g = [Serves 6 c, Serves 6 d])"
proof
  obtain c where c: "instance_start calm_net calm_env 0 0 5 = Some (True, c)"
    using instance_start_serves [of 5] by auto
  define g1 where "g1 = tcp_pass (Some 5) True running"
  define g2 where "g2 = g1\<lparr>connections := (connections g1)[0 := Serves 5 c]\<rparr>"
  have e: "g1 = running\<lparr>newClient_socket := Some 5, connections := [Started], started_for := [5]\<rparr>"
    by (simp add: g1_def tcp_pass_def running service_new_def)
  have "service_step True running g1"
    unfolding g1_def by (rule service_step.listen) (simp_all add: running service_new_def)
  moreover have "service_step True g1 g2"
    unfolding g2_def using service_step.read_socket [of 0 g1 5 calm_net calm_env 0 0 True c True] c by (simp add: e)
  ultimately have r: "(service_step True)\<^sup>*\<^sup>* running g2" by (meson converse_rtranclp_into_rtranclp rtranclp.rtrancl_refl)
  have g2: "connections g2 = [Serves 5 c]" by (simp add: g2_def e)
  with r connections_served have "started_for g2 ! 0 = 5" by fastforce
  with r g2 show "\<exists>g css. (service_step True)\<^sup>*\<^sup>* running g \<and> connections g = [Serves 5 css] \<and> started_for g ! 0 = 5"
    by blast
  have ab: "(0 :: int) \<le> 5 \<and> (0 :: int) \<le> 6" by simp
  show "\<exists>g c d. (service_step False)\<^sup>*\<^sup>* running g \<and> started_for g = [5, 6] \<and> connections g = [Serves 6 c, Serves 6 d]"
    using connections_served [THEN conjunct2, rule_format, OF ab] by blast
qed

subsection \<open>Stopping\<close>

lemma stopped_step:
  "service_step prompt g g' \<Longrightarrow> StopAll g \<Longrightarrow>
     StopAll g' \<and> started_for g' = started_for g \<and> length (connections g') = length (connections g) \<and>
     (StopCommonServer_waits g' \<longrightarrow> StopCommonServer_waits g)"
  by (induction rule: service_step.induct)
    (auto simp: tcp_pass_def StopCommonServer_call_def StopCommonServer_waits_def)

lemma stopped_steps:
  "(service_step prompt)\<^sup>*\<^sup>* g g' \<Longrightarrow> StopAll g \<Longrightarrow>
     StopAll g' \<and> started_for g' = started_for g \<and> length (connections g') = length (connections g) \<and>
     (StopCommonServer_waits g' \<longrightarrow> StopCommonServer_waits g)"
  by (induction rule: rtranclp_induct) (auto dest: stopped_step)



text \<open>Starting the server a second time ends the thread that asks for it, and not the listeners.\<close>

lemma second_start: "StartCommonServer a b running = (None, running)"
  by (simp add: StartCommonServer_def running service_new_def)

end
