(* ===== verification/Spec2Isabelle.thy ===== *)
theory Spec2Isabelle
  imports Session Listeners PhysMemory
begin

text \<open>
  \<^bold>\<open>The program.\<close> \<^verbatim>\<open>softupdate\<close> runs on a measuring instrument with six slots for modules. A client finds
  it with a broadcast, connects over TCP and sends messages: it uploads and downloads files, lists
  directories, runs shell commands and memory scripts, reads and writes serial numbers, MAC
  addresses and options. Sources are named relative to \<^verbatim>\<open>src/\<close>.

  \<^bold>\<open>How the parts interact.\<close> \<^verbatim>\<open>app/main.cpp\<close> starts two listeners (\<^verbatim>\<open>common/VControlServer.cpp\<close>). The one
  for connections starts a thread for each client, which makes a \<^verbatim>\<open>CCommonServer\<close>
  (\<^verbatim>\<open>common/CommonServer.cpp\<close>), a subclass of \<^verbatim>\<open>ClientBase\<close> (\<^verbatim>\<open>clientbase/clientbase.cpp\<close>). Each \<^verbatim>\<open>ClientBase\<close>
  has a receive thread, which takes frames off the socket, checks their MD5 hash, acknowledges them
  and posts the messages to an event queue; a second thread (\<^verbatim>\<open>clientbase/eventexecuter.cpp\<close>) takes
  them out and calls \<^verbatim>\<open>CCommonServer::OnReceived\<close>. Its cases answer with \<^verbatim>\<open>Send\<close>, which waits for the
  acknowledgement of the other end, and start the threads that download, run commands, read memory
  and run scripts. Options are stored in the EEPROM of the instrument (\<^verbatim>\<open>v400eeprom/v400eeprom.c\<close> over
  the SUSI library), in the FTDI chip of a module (libftdi) or in a module reached over UDP.

  \<^bold>\<open>Theories.\<close>

  \<^item> Prelude: bytes and 32-bit words, little-endian numbers, C arrays as lists with \<open>memcpy\<close>, C
    strings, decimal and hexadecimal digits. It imports nothing of the development.
  \<^item> Md5 (\<^verbatim>\<open>clientbase/md5checksum.h\<close>, \<^verbatim>\<open>md5checksum.cpp\<close>): the macros, \<open>MD5Init\<close>, \<open>MD5Update\<close>,
    \<open>MD5Transform\<close>, \<open>MD5Final\<close>, \<open>MDBytes\<close>, \<open>MD5Data\<close>; then MD5 as RFC 1321 states it and the proof that
    the two agree.
  \<^item> EventQueue (\<^verbatim>\<open>clientbase/eventqueue.h\<close>, \<^verbatim>\<open>eventqueue.cpp\<close>): the doubly linked list on an explicit heap,
    with constructor, \<open>Enqueue\<close>, \<open>Dequeue\<close>, \<open>GetCount\<close> and destructor. \<open>q_inv\<close> is the shape of the list,
    \<open>q_view\<close> its abstraction to a list of messages.
  \<^item> EventExecuter (\<^verbatim>\<open>clientbase/eventexecuter.cpp\<close>): \<open>DoEvent\<close>, the loops of \<^verbatim>\<open>ExcuteThread\<close>, and the
    step relation \<open>ex_step\<close> in which posting, executing and destroying threads interleave.
  \<^item> Frame (\<^verbatim>\<open>clientbase/clientcommon.h\<close>, \<^verbatim>\<open>CreateFrame\<close>): the header of 32 bytes and the checks of the receiver.
  \<^item> ClientBase (\<^verbatim>\<open>clientbase/clientbase.cpp\<close>): the fields, the getters and setters, \<open>Send\<close>, \<open>SimpleSend\<close>,
    \<open>Reply\<close>, \<open>DealReplyMessage\<close>, \<open>Receive\<close>, \<open>SetSocket\<close>, \<open>Connect\<close>, \<open>Disconnect\<close>,
    \<open>DisconnectForcibly\<close>; the invariant \<open>cb_inv\<close> and its preservation.
  \<^item> ReceiveThread (\<^verbatim>\<open>ReceiveThread\<close> of the same file): \<open>rt_step\<close>, one pass of an inner loop;
    \<open>rt_feed\<close> feeds bytes, \<open>rt_run\<close> runs a list of results of \<^verbatim>\<open>select\<close> and \<^verbatim>\<open>recv\<close>. The lemmas reduce
    every split of the bytes to \<open>rt_feed\<close>.
  \<^item> Protocol: what two ends achieve together (delivery, resending, acknowledgement, the end of the
    stream, failed connections) and where the code does not defend itself.
  \<^item> BoardRes (\<^verbatim>\<open>v400_boardres_*\<close> of \<^verbatim>\<open>common/VControlServer.cpp\<close>): from a slot to the serial number, the type
    and the network interface of its module.
  \<^item> OptionStore: the contract of a memory of options, and what follows from it.
  \<^item> Eeprom, Ftdi, NetClient (\<^verbatim>\<open>v400eeprom/v400eeprom.c\<close>; the \<^verbatim>\<open>_40g\<close> functions, \<^verbatim>\<open>read_options\<close>,
    \<^verbatim>\<open>write_options\<close>, \<^verbatim>\<open>FindAllSN\<close>; the \<^verbatim>\<open>_netclient\<close> functions of \<^verbatim>\<open>common/VControlServer.cpp\<close>): the three stores.
  \<^item> Options: \<open>CheckPwd\<close>, \<open>BitOptionDeal\<close>, \<open>WriteOptionBit\<close>, \<open>ReadModuleBuf\<close>, \<open>WriteModuleBuf\<close>.
  \<^item> PhysMemory: \<open>ReadMemory\<close> and \<open>WriteMemory\<close>.
  \<^item> Server (\<^verbatim>\<open>common/CommonServer.h\<close>): the record \<open>CCommonServer\<close>, its constructor and \<open>SendData\<close>.
  \<^item> DeviceCommands, Commands, MemoryScript, FileTransfer, Catalog, FileInfo: the cases of
    \<^verbatim>\<open>OnReceived\<close>, one definition \<open>On_X\<close> for the case \<^verbatim>\<open>MSG_X\<close>, with the functions they call and the threads
    they start (\<open>CMD_DoWork\<close>, \<open>ReadMemory_DoWork\<close>, \<open>MemoryScript_DoWork\<close>, \<open>DownFile_DoWork\<close>).
  \<^item> Dispatch: \<open>OnReceived\<close> as a whole, with the loops that wait for a thread, and the relation
    \<open>system_step\<close> of the server with all its threads.
  \<^item> Listeners (\<^verbatim>\<open>common/VControlServer.cpp\<close>, \<^verbatim>\<open>app/main.cpp\<close>): discovery, accepting, the threads of
    connections, start and stop, \<^verbatim>\<open>main\<close>.
  \<^item> Session: the receive thread, the thread of the queue and \<open>OnReceived\<close> composed, and a request with
    its answer from one end to the other.

  \<^bold>\<open>Interfaces.\<close>

  Three contracts are stated as locales and interpreted on the model's own definitions.
  \<^item> \<open>event_fifo\<close> (EventQueue): what the executer relies on in a bounded queue; interpreted as \<open>evq\<close> on
    \<open>Enqueue\<close> and \<open>Dequeue\<close>, with the bound of the queue as the only reason to drop a message.
  \<^item> \<open>option_store\<close> (OptionStore): a read does not change the image and gives a part of it, a write
    changes that part only; interpreted as \<open>eeprom\<close>, \<open>ftdi\<close>, \<open>modopt\<close> on the three stores and as
    \<open>slotbuf\<close> on the buffer of a slot, whichever store that has.
  \<^item> \<open>coded_reply\<close> (DeviceCommands): a handler that answers with a result code in decimal digits;
    interpreted as \<open>setsn\<close>, \<open>setmac\<close>, \<open>writeoption\<close>, \<open>writebuf\<close>.

  The contracts of code outside the repository are predicates on records of its calls
  (\<open>susi_laws\<close> and its like for libftdi, the UDP modules and POSIX files). Each has a simulated
  device or file system that satisfies it, on which the witnesses run.

  \<^bold>\<open>Conventions.\<close>

  The target is the i386 image of the repository: \<^verbatim>\<open>int\<close> and \<^verbatim>\<open>unsigned long\<close> have 32 bits, memory is little
  endian. Lengths, hashes and message types that the code keeps in \<^verbatim>\<open>unsigned int\<close> are 32-bit words and
  wrap around; signed values whose range is tested by the code, or that come from system calls, are
  integers.

  A result \<open>None\<close> stands for an access outside an array, through a null or dangling pointer or to a
  value that was never set, and for a loop that does not end. Everything the code reports itself is
  inside \<open>Some\<close>, with the source's codes. Some theorems state the inputs for which the result is
  \<open>None\<close>: there the code writes or reads where it should not.

  Results of system calls are arguments: records such as \<open>net\<close>, \<open>conn_env\<close> and \<open>posix\<close>, or a function
  of what was done before. What other threads do while an operation waits on a condition variable is
  a function on the state, arbitrary unless a theorem restricts it. In the same way \<open>link\<close> decides
  from the messages sent so far whether a \<^verbatim>\<open>Send\<close> of the server succeeds; Session follows such a
  message through \<open>Send\<close> to the other end.

  Each field has a mutex of its own in the source, so the getters and setters are atomic, and threads
  interleave between them: in \<open>ex_step\<close>, \<open>df_step\<close>, \<open>cmd_step\<close>, \<open>mem_step\<close>, \<open>service_step\<close> and
  \<open>system_step\<close> a step is one pass of a loop. Creating a thread and storing its handle is one step. A
  flag that is set while a pass runs counts as set after it.

  \<^bold>\<open>Bounds and fuel.\<close>

  The queue holds 256 messages, a receive buffer 65536 bytes, of which 65504 are data, a packet of the
  server 2048 bytes. These are the source's numbers, and the theorems are for all sizes within them.

  Loops that are not bounded by their data are \<open>partial_function\<close>s (\<open>DoEvents\<close>, the destructor of the
  queue, \<open>MD5Update\<close>), and are shown to end. The runs of a download, a command and a session take a
  number of passes; \<open>serve_events\<close> gets one more than there are messages, the last pass finding the
  queue empty, and the theorems are about exactly that number. The loops of the listeners and of the
  receive thread do not end by themselves; they are step functions, and termination is stated of them
  as what one more step does.

  \<^bold>\<open>What is shown.\<close>

  \<^item> The connection: frames arrive whole and in order however they are split, damaged data is sent again,
    success is reported only on the acknowledgement of the very frame, failed connections and ended
    streams leave no descriptor behind.
  \<^item> The queue and its thread: memory safety, the refinement to a list, order and completeness in every
    interleaving, termination.
  \<^item> The server: the type invariant of all its flags and threads, the answers to every message, the
    arguments of running threads kept; and for each group of messages what it answers and changes:
    transfers, listings, commands, scripts, devices.
  \<^item> Options: passwords, the one bit that changes, round trips on all stores, refused requests that
    change nothing, checksums.
  \<^item> Listeners: discovery, which connection is served by which thread, stopping.
  \<^item> Together: a request and its answer end to end, and sequences of requests.

  \<^bold>\<open>Not modelled.\<close>

  \<^item> \<^verbatim>\<open>common/SingleService.cpp\<close>, which only prints.
  \<^item> \<^verbatim>\<open>v400eeprom/ftdi.h\<close> and \<^verbatim>\<open>SUSI.h\<close> declare libraries that are not in the repository.
  \<^item> What is printed for the console or with \<^verbatim>\<open>DebugPrintf\<close>, the usage text, the handler of \<^verbatim>\<open>SIGPIPE\<close>, and
    \<^verbatim>\<open>OnServerClose\<close> and \<^verbatim>\<open>OnSocketError\<close>, which only print.
  \<^item> Mutexes and condition variables beyond the atomicity they give, the lengths of waits, and memory
    that is allocated without being freed, except in the queue, where leaks are part of the model.
\<close>

end
